(* ===== verification/Prelude.thy ===== *)
theory Prelude
  imports Main "HOL-Library.Word" "HOL-Library.Sublist"
begin

text \<open>
  Shared ground of the development: the machine types of the C++ code, the model of
  \<^verbatim>\<open>std::unordered_map\<close> as an association list with distinct keys, and the collections of
  rewrite rules the component theories fill and use.

  \<^verbatim>\<open>std::size_t\<close> is a 64-bit unsigned integer on the platforms the project builds for. Where
  a value is a policy number that the code compares with zero, converts or adds to a clock it
  is kept at its width (\<open>size_t\<close>); a container size or an index into a container is a \<open>nat\<close>,
  since it is bounded by the memory the container occupies.
\<close>

section \<open>Machine types\<close>

type_synonym size_t = "64 word"

abbreviation size_max :: size_t where
  "size_max \<equiv> - 1"

section \<open>Collections of rewrite rules\<close>

named_theorems str_simps \<open>characterisations of the string primitives\<close>
named_theorems map_simps \<open>lookup after an update of an unordered map\<close>
named_theorems layer_simps \<open>selection after an update of a route layer\<close>
named_theorems inv_intros \<open>operations preserve the invariant of their component\<close>

section \<open>Unordered maps\<close>

text \<open>
  An unordered map is a list of key/value pairs. \<open>emplace\<close> leaves an existing binding alone,
  \<open>insert_or_assign\<close> (and \<^verbatim>\<open>m[k] = v\<close>) replaces it, \<open>erase\<close> removes it. \<open>umap_ok\<close> is the
  representation invariant: no key is bound twice.
\<close>

type_synonym ('k, 'v) umap = "('k \<times> 'v) list"

definition umap_ok :: "('k, 'v) umap \<Rightarrow> bool" where
  "umap_ok m \<longleftrightarrow> distinct (map fst m)"

definition umap_contains :: "('k, 'v) umap \<Rightarrow> 'k \<Rightarrow> bool" where
  "umap_contains m k \<longleftrightarrow> map_of m k \<noteq> None"

definition emplace :: "'k \<Rightarrow> 'v \<Rightarrow> ('k, 'v) umap \<Rightarrow> ('k, 'v) umap" where
  "emplace k v m = (case map_of m k of Some _ \<Rightarrow> m | None \<Rightarrow> m @ [(k, v)])"

fun insert_or_assign :: "'k \<Rightarrow> 'v \<Rightarrow> ('k, 'v) umap \<Rightarrow> ('k, 'v) umap" where
  "insert_or_assign k v [] = [(k, v)]"
| "insert_or_assign k v ((k', v') # m) =
     (if k' = k then (k, v) # m else (k', v') # insert_or_assign k v m)"

definition erase_key :: "'k \<Rightarrow> ('k, 'v) umap \<Rightarrow> ('k, 'v) umap" where
  "erase_key k m = filter (\<lambda>kv. fst kv \<noteq> k) m"

lemma umap_ok_Nil [simp]: "umap_ok []"
  by (simp add: umap_ok_def)

lemma umap_ok_Cons: "umap_ok (kv # m) \<longleftrightarrow> map_of m (fst kv) = None \<and> umap_ok m"
  by (auto simp: umap_ok_def map_of_eq_None_iff)

lemma map_of_emplace [map_simps]:
  "map_of (emplace k v m) k' = (if k' = k \<and> map_of m k = None then Some v else map_of m k')"
  by (auto simp: emplace_def map_add_def split: option.splits)

lemma umap_ok_emplace [inv_intros]: "umap_ok m \<Longrightarrow> umap_ok (emplace k v m)"
  by (auto simp: emplace_def umap_ok_def map_of_eq_None_iff split: option.splits)

lemma length_emplace [map_simps]:
  "length (emplace k v m) = (if map_of m k = None then Suc (length m) else length m)"
  by (auto simp: emplace_def split: option.splits)

lemma map_of_insert_or_assign [map_simps]:
  "map_of (insert_or_assign k v m) = (map_of m)(k \<mapsto> v)"
  by (induction m) (auto simp: fun_eq_iff)

lemma set_insert_or_assign_fst [map_simps]:
  "fst ` set (insert_or_assign k v m) = insert k (fst ` set m)"
  by (induction k v m rule: insert_or_assign.induct) (auto simp: insert_commute)

lemma set_insert_or_assign:
  "kc \<in> set (insert_or_assign k v m) \<Longrightarrow> kc = (k, v) \<or> kc \<in> set m"
  by (induction k v m rule: insert_or_assign.induct) (auto split: if_splits)

lemma umap_ok_insert_or_assign [inv_intros]: "umap_ok m \<Longrightarrow> umap_ok (insert_or_assign k v m)"
proof (induction m)
  case (Cons kv m)
  then show ?case
    by (cases kv) (auto simp: umap_ok_Cons map_simps)
qed (simp add: umap_ok_def)

lemma map_of_erase_key [map_simps]:
  "map_of (erase_key k m) k' = (if k' = k then None else map_of m k')"
  by (induction m) (auto simp: erase_key_def)

lemma umap_ok_erase_key [inv_intros]: "umap_ok m \<Longrightarrow> umap_ok (erase_key k m)"
  by (simp add: umap_ok_def erase_key_def distinct_map_filter)

lemma umap_ok_in_set: "umap_ok m \<Longrightarrow> (k, v) \<in> set m \<longleftrightarrow> map_of m k = Some v"
  by (simp add: umap_ok_def)

lemma map_of_size_child: "map_of m k = Some v \<Longrightarrow> (k, v) \<in> set m"
  by (rule map_of_SomeD)

section \<open>Lists\<close>

lemma map_of_zip_nth_first:
  assumes "i < length ks" "length ks = length vs" "ks ! i \<notin> set (take i ks)"
  shows "map_of (zip ks vs) (ks ! i) = Some (vs ! i)"
  using assms
proof (induction ks arbitrary: vs i)
  case (Cons k ks)
  then obtain v vs' where "vs = v # vs'" by (cases vs) auto
  with Cons show ?case by (cases i) auto
qed simp

lemma fold_emplace_map_of:
  "map_of (fold (\<lambda>(k, v) m. emplace k v m) kvs m) k
    = (case map_of m k of Some v \<Rightarrow> Some v | None \<Rightarrow> map_of kvs k)"
  by (induction kvs arbitrary: m) (auto simp: map_simps split: option.splits)

lemma umap_ok_fold_emplace [inv_intros]:
  "umap_ok m \<Longrightarrow> umap_ok (fold (\<lambda>(k, v) m. emplace k v m) kvs m)"
  by (induction kvs arbitrary: m) (auto simp: umap_ok_emplace)

end
