(* ===== verification/Std_String.thy ===== *)
theory Std_String
  imports Prelude
begin

text \<open>
  The part of \<^verbatim>\<open>std::string\<close> and \<^verbatim>\<open>std::string_view\<close> the sources use. A string is a list of
  characters; \<^verbatim>\<open>npos\<close> is \<open>None\<close>. Each primitive is defined by the search its documentation
  describes and characterised by the lemmas the component theories rely on.
\<close>

section \<open>Searching\<close>

fun find_char :: "char \<Rightarrow> string \<Rightarrow> nat option" where
  "find_char c [] = None"
| "find_char c (x # xs) = (if x = c then Some 0 else map_option Suc (find_char c xs))"

fun find_sub :: "string \<Rightarrow> string \<Rightarrow> nat option" where
  "find_sub pat [] = (if pat = [] then Some 0 else None)"
| "find_sub pat (x # xs) =
     (if prefix pat (x # xs) then Some 0 else map_option Suc (find_sub pat xs))"

definition find_sub_from :: "string \<Rightarrow> nat \<Rightarrow> string \<Rightarrow> nat option" where
  "find_sub_from pat pos s =
     (if pos \<le> length s then map_option (\<lambda>i. pos + i) (find_sub pat (drop pos s)) else None)"

fun find_if :: "(char \<Rightarrow> bool) \<Rightarrow> string \<Rightarrow> nat option" where
  "find_if P [] = None"
| "find_if P (x # xs) = (if P x then Some 0 else map_option Suc (find_if P xs))"

definition find_last_if :: "(char \<Rightarrow> bool) \<Rightarrow> string \<Rightarrow> nat option" where
  "find_last_if P s = map_option (\<lambda>i. length s - Suc i) (find_if P (rev s))"

definition substr :: "string \<Rightarrow> nat \<Rightarrow> nat option \<Rightarrow> string" where
  "substr s pos n = (case n of None \<Rightarrow> drop pos s | Some k \<Rightarrow> take k (drop pos s))"

definition starts_with :: "string \<Rightarrow> string \<Rightarrow> bool" where
  "starts_with p s \<longleftrightarrow> take (length p) s = p"

definition ends_with :: "string \<Rightarrow> string \<Rightarrow> bool" where
  "ends_with p s \<longleftrightarrow> length p \<le> length s \<and> drop (length s - length p) s = p"

section \<open>Characterisation of the searches\<close>

lemma find_char_find_if: "find_char c = find_if (\<lambda>x. x = c)"
proof
  fix s show "find_char c s = find_if (\<lambda>x. x = c) s" by (induction s) auto
qed

lemma find_if_None_iff [str_simps]: "find_if P s = None \<longleftrightarrow> (\<forall>x\<in>set s. \<not> P x)"
  by (induction s) auto

lemma find_if_Some_iff:
  "find_if P s = Some i \<longleftrightarrow> i < length s \<and> P (s ! i) \<and> (\<forall>j<i. \<not> P (s ! j))"
proof (induction s arbitrary: i)
  case (Cons x s)
  then show ?case
    by (cases i) (auto simp: nth_Cons split: nat.splits)
qed simp

lemma find_if_SomeD:
  assumes "find_if P s = Some i"
  shows "i < length s" "P (s ! i)" "take i s = takeWhile (\<lambda>x. \<not> P x) s"
    "drop i s = dropWhile (\<lambda>x. \<not> P x) s"
proof -
  show "i < length s" "P (s ! i)"
    using assms by (auto simp: find_if_Some_iff)
  show "take i s = takeWhile (\<lambda>x. \<not> P x) s"
    using assms by (induction s arbitrary: i) (auto split: if_splits)
  show "drop i s = dropWhile (\<lambda>x. \<not> P x) s"
    using assms by (induction s arbitrary: i) (auto split: if_splits)
qed

lemma find_char_None_iff [str_simps]: "find_char c s = None \<longleftrightarrow> c \<notin> set s"
  by (auto simp: find_char_find_if str_simps)

lemma find_char_SomeD:
  assumes "find_char c s = Some i"
  shows "i < length s" "s ! i = c" "c \<notin> set (take i s)" "s = take i s @ c # drop (Suc i) s"
proof -
  show len: "i < length s" and c: "s ! i = c"
    using assms by (auto simp: find_char_find_if find_if_Some_iff)
  show "c \<notin> set (take i s)"
    using assms by (auto simp: find_char_find_if find_if_Some_iff in_set_conv_nth)
  show "s = take i s @ c # drop (Suc i) s"
    using len c id_take_nth_drop by blast
qed

lemma find_char_append [str_simps]:
  "c \<notin> set a \<Longrightarrow> find_char c (a @ c # b) = Some (length a)"
  by (induction a) auto

lemma find_sub_Some_take:
  "find_sub pat s = Some i \<Longrightarrow> i \<le> length s \<and> prefix pat (drop i s)"
  by (induction s arbitrary: i) (auto split: if_splits)

lemma find_sub_SomeD:
  assumes "find_sub pat s = Some i"
  shows "s = take i s @ pat @ drop (i + length pat) s" "i + length pat \<le> length s"
proof -
  from find_sub_Some_take [OF assms] have i: "i \<le> length s" and "prefix pat (drop i s)" by auto
  then obtain r where r: "drop i s = pat @ r" by (auto simp: prefix_def)
  moreover from r have "drop (i + length pat) s = r"
    by (metis add.commute append_eq_conv_conj drop_drop)
  ultimately show "s = take i s @ pat @ drop (i + length pat) s"
    by (metis append_take_drop_id)
  from r i have "length s - i = length pat + length r" by (metis length_append length_drop)
  then show "i + length pat \<le> length s" using i by simp
qed

lemma find_sub_None_iff [str_simps]: "find_sub pat s = None \<longleftrightarrow> \<not> sublist pat s"
  by (induction s) (auto simp: sublist_Cons_right)

lemma find_sub_first:
  "find_sub pat s = Some i \<Longrightarrow> j < i \<Longrightarrow> \<not> prefix pat (drop j s)"
proof (induction s arbitrary: i j)
  case (Cons x s)
  then show ?case by (cases j) (auto split: if_splits)
qed (auto split: if_splits)

lemma find_sub_eqI:
  assumes "prefix pat (drop i s)" "i \<le> length s" "\<And>j. j < i \<Longrightarrow> \<not> prefix pat (drop j s)"
  shows "find_sub pat s = Some i"
  using assms
proof (induction s arbitrary: i)
  case (Cons x s)
  show ?case
  proof (cases i)
    case 0
    then show ?thesis using Cons.prems by simp
  next
    case (Suc k)
    have "find_sub pat s = Some k"
    proof (rule Cons.IH)
      show "prefix pat (drop k s)" "k \<le> length s" using Cons.prems Suc by auto
      fix j assume "j < k"
      then show "\<not> prefix pat (drop j s)" using Cons.prems(3) [of "Suc j"] Suc by simp
    qed
    moreover have "\<not> prefix pat (x # s)" using Cons.prems(3) [of 0] Suc by simp
    ultimately show ?thesis using Suc by simp
  qed
qed simp

lemma substr_0 [str_simps]: "substr s 0 None = s" "substr s 0 (Some n) = take n s"
  by (simp_all add: substr_def)

lemma starts_with_iff_prefix [str_simps]: "starts_with p s \<longleftrightarrow> prefix p s"
  unfolding starts_with_def prefix_def by (metis append_eq_conv_conj append_take_drop_id)

lemma ends_with_iff_suffix [str_simps]: "ends_with p s \<longleftrightarrow> suffix p s"
proof
  assume "ends_with p s"
  then show "suffix p s" by (metis ends_with_def suffix_drop)
next
  assume "suffix p s"
  then show "ends_with p s" by (auto simp: ends_with_def suffix_def)
qed

section \<open>Trimming and case folding\<close>

text \<open>
  The classic two-sided trim, written as the sources write it: the first and the last position
  that is not white space bound the result, and no such position gives the empty string.
\<close>

definition trim_by :: "(char \<Rightarrow> bool) \<Rightarrow> string \<Rightarrow> string" where
  "trim_by ws s =
     (case find_if (\<lambda>c. \<not> ws c) s of
        None \<Rightarrow> []
      | Some b \<Rightarrow>
          (case find_last_if (\<lambda>c. \<not> ws c) s of
             None \<Rightarrow> []
           | Some e \<Rightarrow> substr s b (Some (e - b + 1))))"

definition to_lower_char :: "char \<Rightarrow> char" where
  "to_lower_char c =
     (if 65 \<le> (of_char c :: nat) \<and> (of_char c :: nat) \<le> 90 then char_of ((of_char c :: nat) + 32) else c)"

definition to_lower :: "string \<Rightarrow> string" where
  "to_lower s = map to_lower_char s"

definition iequals :: "string \<Rightarrow> string \<Rightarrow> bool" where
  "iequals a b \<longleftrightarrow> to_lower a = to_lower b"

lemma trim_by_eq:
  "trim_by ws s = rev (dropWhile ws (rev (dropWhile ws s)))"
proof (cases "find_if (\<lambda>c. \<not> ws c) s")
  case None
  then have "dropWhile ws s = []" by (auto simp: find_if_None_iff dropWhile_eq_Nil_conv)
  then have "rev (dropWhile ws (rev (dropWhile ws s))) = []"
    by (simp only: rev.simps dropWhile.simps)
  moreover have "trim_by ws s = []" using None by (simp add: trim_by_def)
  ultimately show ?thesis by (simp only:)
next
  case (Some b)
  note b = find_if_SomeD [OF Some]
  have "find_if (\<lambda>c. \<not> ws c) (rev s) \<noteq> None"
    using b by (auto simp: find_if_None_iff)
  then obtain k where k: "find_if (\<lambda>c. \<not> ws c) (rev s) = Some k" by blast
  note kk = find_if_SomeD [OF k]
  have nk: "\<forall>j<k. ws (rev s ! j)" using k by (simp add: find_if_Some_iff)
  have be: "b \<le> length s - Suc k"
  proof (rule ccontr)
    assume "\<not> b \<le> length s - Suc k"
    then have "length s - Suc b < k" using b(1) kk(1) by simp
    then have "ws (rev s ! (length s - Suc b))" using nk by blast
    then show False using b(1,2) by (simp add: rev_nth)
  qed
  have s: "dropWhile ws s = drop b s" using b(4) by simp
  have "dropWhile ws (rev (drop b s)) = drop k (rev (drop b s))"
  proof -
    have "find_if (\<lambda>c. \<not> ws c) (rev (drop b s)) = Some k"
      unfolding find_if_Some_iff using kk nk be b(1)
      by (auto simp: rev_drop)
    from find_if_SomeD(4) [OF this] show ?thesis by simp
  qed
  then have "rev (dropWhile ws (rev (dropWhile ws s))) = take (length s - b - k) (drop b s)"
    using b(1) by (simp add: s rev_drop rev_take)
  moreover have "length s - Suc k - b + 1 = length s - b - k" using be kk(1) by simp
  ultimately show ?thesis
    using Some k by (simp add: trim_by_def find_last_if_def substr_def)
qed

lemma trim_by_id:
  assumes "s = [] \<or> (\<not> ws (hd s) \<and> \<not> ws (last s))"
  shows "trim_by ws s = s"
proof (cases "s = []")
  case False
  then have "\<not> ws (hd s)" "\<not> ws (hd (rev s))" using assms by (auto simp: hd_rev)
  then have "dropWhile ws s = s" "dropWhile ws (rev s) = rev s"
    using False by (metis dropWhile_eq_self_iff)+
  then show ?thesis by (simp add: trim_by_eq)
qed (simp add: trim_by_eq)

lemma trim_by_solid:
  assumes "a \<noteq> []" "\<not> ws (hd a)" "\<not> ws (last a)"
  shows "\<exists>t. trim_by ws (a @ s) = a @ t"
proof -
  have "dropWhile ws (a @ s) = a @ s" using assms(1,2) by (cases a) simp_all
  then have eq: "trim_by ws (a @ s) = rev (dropWhile ws (rev s @ rev a))" by (simp add: trim_by_eq)
  have ra: "dropWhile ws (rev a) = rev a" using assms(1,3) by (cases a rule: rev_cases) simp_all
  show ?thesis
  proof (cases "\<forall>c\<in>set (rev s). ws c")
    case True
    then have "dropWhile ws (rev s @ rev a) = rev a" using ra dropWhile_append2 [of "rev s" ws "rev a"] by simp
    then show ?thesis using eq by simp
  next
    case False
    then obtain c where "c \<in> set (rev s)" "\<not> ws c" by blast
    from dropWhile_append1 [of c "rev s" ws, OF this, of "rev a"] show ?thesis using eq by simp
  qed
qed

lemma trim_by_Cons_ws: "ws c \<Longrightarrow> trim_by ws (c # s) = trim_by ws s"
  by (simp add: trim_by_eq)

lemma trim_by_result:
  "trim_by ws s = [] \<or> (\<not> ws (hd (trim_by ws s)) \<and> \<not> ws (last (trim_by ws s)))"
proof (cases "trim_by ws s = []")
  case False
  let ?d = "dropWhile ws s"
  let ?r = "dropWhile ws (rev ?d)"
  have r: "?r \<noteq> []" using False by (simp add: trim_by_eq)
  then have d: "?d \<noteq> []" by (metis dropWhile.simps(1) rev.simps(1))
  obtain p where p: "rev ?d = p @ ?r" by (metis takeWhile_dropWhile_id)
  then have "?d = rev ?r @ rev p" by (metis rev_append rev_rev_ident)
  then have "hd (rev ?r) = hd ?d" using r by (metis hd_append2 rev_is_Nil_conv)
  then have "\<not> ws (hd (rev ?r))" using hd_dropWhile [OF d] by simp
  moreover have "\<not> ws (last (rev ?r))" using hd_dropWhile [OF r] r by (simp add: last_rev)
  ultimately show ?thesis by (simp add: trim_by_eq)
qed simp

lemma trim_by_idem [simp]: "trim_by ws (trim_by ws s) = trim_by ws s"
  by (rule trim_by_id [OF trim_by_result])

lemma to_lower_char_idem [simp]: "to_lower_char (to_lower_char c) = to_lower_char c"
  by (simp add: to_lower_char_def)

lemma to_lower_idem [simp]: "to_lower (to_lower s) = to_lower s"
  by (simp add: to_lower_def)

lemma to_lower_append [simp]: "to_lower (a @ b) = to_lower a @ to_lower b"
  by (simp add: to_lower_def)

lemma length_to_lower [simp]: "length (to_lower s) = length s"
  by (simp add: to_lower_def)

section \<open>Fields\<close>

text \<open>The fields between the separators, empty ones included.\<close>

fun split_on :: "char \<Rightarrow> string \<Rightarrow> string list" where
  "split_on c [] = [[]]"
| "split_on c (x # xs) =
     (if x = c then [] # split_on c xs
      else case split_on c xs of [] \<Rightarrow> [[x]] | f # fs \<Rightarrow> (x # f) # fs)"

lemma split_on_ne [simp]: "split_on c s \<noteq> []"
  by (induction s) (auto split: list.splits)

lemma split_on_none: "c \<notin> set s \<Longrightarrow> split_on c s = [s]"
  by (induction s) auto

lemma split_on_append: "c \<notin> set a \<Longrightarrow> split_on c (a @ c # b) = a # split_on c b"
  by (induction a) auto

lemma split_on_fields: "f \<in> set (split_on c s) \<Longrightarrow> c \<notin> set f \<and> set f \<subseteq> set s"
proof (induction s arbitrary: f)
  case (Cons x s)
  show ?case
  proof (cases "split_on c s")
    case (Cons g gs)
    have "\<forall>h\<in>set (g # gs). c \<notin> set h \<and> set h \<subseteq> set s" using Cons.IH Cons by auto
    with Cons.prems Cons show ?thesis
      by (fastforce split: if_splits)
  qed simp
qed simp

lemma split_on_sublist: "f \<in> set (split_on c s) \<Longrightarrow> sublist f s"
proof (induction s rule: length_induct)
  case (1 s)
  show ?case
  proof (cases "c \<in> set s")
    case False
    with 1 show ?thesis by (simp add: split_on_none)
  next
    case True
    then obtain a b where s: "s = a @ c # b" "c \<notin> set a" by (metis split_list_first)
    then have "f = a \<or> f \<in> set (split_on c b)" using 1 by (simp add: split_on_append)
    then show ?thesis
    proof
      assume "f = a"
      then show ?thesis using s by simp
    next
      assume "f \<in> set (split_on c b)"
      then have "sublist f b" using 1 s by simp
      moreover have "sublist b s" unfolding s(1) sublist_def by (intro exI [of _ "a @ [c]"] exI [of _ "[]"]) simp
      ultimately show ?thesis by (rule sublist_order.order_trans)
    qed
  qed
qed

lemma split_on_append_any:
  "split_on c (a @ b) = butlast (split_on c a) @ split_on c (last (split_on c a) @ b)"
proof (induction a)
  case (Cons x a)
  show ?case
  proof (cases "split_on c a")
    case (Cons f fs)
    then show ?thesis
      using Cons.IH by (cases fs; cases "split_on c (f @ b)") (auto split: list.splits)
  qed simp
qed simp

lemma split_on_last_free: "c \<notin> set (last (split_on c s))"
  using split_on_fields [of "last (split_on c s)" c s] by simp

section \<open>Decimal numbers and white space\<close>

text \<open>\<^verbatim>\<open>std::isspace\<close> in the C locale: blank, and the codes from tab to carriage return.\<close>

definition is_space :: "char \<Rightarrow> bool" where
  "is_space c \<longleftrightarrow> c = CHR '' '' \<or> (9 \<le> (of_char c :: nat) \<and> (of_char c :: nat) \<le> 13)"

definition is_digit :: "char \<Rightarrow> bool" where
  "is_digit c \<longleftrightarrow> 48 \<le> (of_char c :: nat) \<and> (of_char c :: nat) \<le> 57"

definition digits_value :: "string \<Rightarrow> int" where
  "digits_value ds = foldl (\<lambda>n c. n * 10 + (of_char c - 48)) 0 ds"

text \<open>
  \<^verbatim>\<open>std::from_chars\<close> for \<^verbatim>\<open>int\<close>: an optional minus sign and a non-empty run of digits; the value and
  what follows it, or \<open>None\<close> when there is no digit or the value does not fit 32 bits.
\<close>

definition from_chars_int :: "string \<Rightarrow> (int \<times> string) option" where
  "from_chars_int s =
     (let neg = (s \<noteq> [] \<and> hd s = CHR ''-'');
          body = (if neg then tl s else s);
          ds = takeWhile is_digit body;
          v = (if neg then - digits_value ds else digits_value ds)
      in if ds = [] \<or> v < - (2 ^ 31) \<or> v \<ge> 2 ^ 31 then None
         else Some (v, dropWhile is_digit body))"

text \<open>\<^verbatim>\<open>std::to_string\<close> of a signed number.\<close>

fun nat_digits :: "nat \<Rightarrow> string" where
  "nat_digits n =
     (if n < 10 then [char_of (48 + n)] else nat_digits (n div 10) @ [char_of (48 + n mod 10)])"

declare nat_digits.simps [simp del]

definition std_to_string :: "int \<Rightarrow> string" where
  "std_to_string i = (if i < 0 then CHR ''-'' # nat_digits (nat (- i)) else nat_digits (nat i))"

text \<open>
  \<^verbatim>\<open>std::stoll\<close>: leading white space, an optional sign, a non-empty run of digits, the rest ignored;
  \<open>None\<close> is an exception (no number, or one that does not fit 64 bits).
\<close>

definition stoll :: "string \<Rightarrow> int option" where
  "stoll s =
     (let t = dropWhile is_space s;
          neg = (t \<noteq> [] \<and> hd t = CHR ''-'');
          body = (if t \<noteq> [] \<and> (hd t = CHR ''-'' \<or> hd t = CHR ''+'') then tl t else t);
          ds = takeWhile is_digit body;
          v = (if neg then - digits_value ds else digits_value ds)
      in if ds = [] \<or> v < - (2 ^ 63) \<or> v \<ge> 2 ^ 63 then None else Some v)"

lemma of_char_dec: "n < 10 \<Longrightarrow> (of_char (char_of (48 + n) :: char) :: nat) = 48 + n"
  by (simp add: of_char_of)

lemma of_char_dec_int: "n < 10 \<Longrightarrow> (of_char (char_of (48 + n) :: char) :: int) = 48 + int n"
proof -
  assume "n < 10"
  then have "int (of_char (char_of (48 + n) :: char)) = 48 + int n" by (simp add: of_char_dec)
  then show ?thesis by (simp only: of_nat_of_char)
qed

lemma nat_digits_digits: "list_all is_digit (nat_digits n)"
proof (induction n rule: nat_digits.induct)
  case (1 n)
  have "is_digit (char_of (48 + n mod 10))"
    using of_char_dec [of "n mod 10"] by (simp add: is_digit_def)
  moreover have "n < 10 \<Longrightarrow> is_digit (char_of (48 + n))"
    using of_char_dec [of n] by (simp add: is_digit_def)
  ultimately show ?case
    using 1 by (subst nat_digits.simps) auto
qed

lemma nat_digits_ne [simp]: "nat_digits n \<noteq> []"
  by (subst nat_digits.simps) simp

lemma digits_value_nat_digits: "digits_value (nat_digits n) = int n"
proof (induction n rule: nat_digits.induct)
  case (1 n)
  show ?case
  proof (cases "n < 10")
    case True
    then show ?thesis
      using of_char_dec_int [of n] by (subst nat_digits.simps) (simp add: digits_value_def)
  next
    case False
    have "digits_value (nat_digits n) = digits_value (nat_digits (n div 10)) * 10 + int (n mod 10)"
      using False of_char_dec_int [of "n mod 10"] by (subst nat_digits.simps) (simp add: digits_value_def)
    then show ?thesis using 1 False by (simp add: zdiv_int zmod_int)
  qed
qed

lemma digit_not_space: "is_digit c \<Longrightarrow> \<not> is_space c \<and> c \<noteq> CHR ''-'' \<and> c \<noteq> CHR ''+'' \<and> c \<noteq> CHR '';'' \<and> c \<noteq> CHR ''=''"
  by (auto simp: is_digit_def is_space_def)

lemma nat_digits_hd: "is_digit (hd (nat_digits n))"
  using nat_digits_digits [of n] by (cases "nat_digits n") auto

lemma stoll_std_to_string:
  assumes "- (2 ^ 63) \<le> i" "i < 2 ^ 63"
  shows "stoll (std_to_string i) = Some i"
proof -
  have tw: "takeWhile is_digit (nat_digits n) = nat_digits n" for n
    using nat_digits_digits by (simp add: takeWhile_eq_all_conv list_all_iff)
  have h: "\<not> is_space (hd (nat_digits n))" "hd (nat_digits n) \<noteq> CHR ''-''" "hd (nat_digits n) \<noteq> CHR ''+''" for n
    using digit_not_space nat_digits_hd by blast+
  have dw: "dropWhile is_space (std_to_string i) = std_to_string i"
  proof -
    have "\<not> is_space (hd (std_to_string i))" using h(1) by (simp add: std_to_string_def is_space_def)
    then show ?thesis by (cases "std_to_string i") auto
  qed
  show ?thesis
  proof (cases "i < 0")
    case True
    then show ?thesis
      using assms dw by (simp add: stoll_def Let_def std_to_string_def tw digits_value_nat_digits)
  next
    case False
    then show ?thesis
      using assms dw h(2,3) by (simp add: stoll_def Let_def std_to_string_def tw digits_value_nat_digits)
  qed
qed

lemma std_to_string_chars:
  "c \<in> set (std_to_string i) \<Longrightarrow> is_digit c \<or> c = CHR ''-''"
  using nat_digits_digits by (auto simp: std_to_string_def list_all_iff split: if_splits)

lemma std_to_string_ne [simp]: "std_to_string i \<noteq> []"
  by (simp add: std_to_string_def)

end
