(* ===== verification/Route_Target.thy ===== *)
theory Route_Target
  imports Std_String
begin

text \<open>
  Route targets: the validator of \<^verbatim>\<open>route/impl/http_route_target_validator.cc\<close> and the helpers of
  \<^verbatim>\<open>route/include/internal/http_route_table_detail.h\<close> that strip the query, split a target into
  its segments and recognise the parameter segments. The regular expression is modelled twice:
  as the automaton the code runs and as the language the pattern denotes, with a proof that the
  two agree.
\<close>

section \<open>The target validator\<close>

definition is_alnum :: "char \<Rightarrow> bool" where
  "is_alnum c \<longleftrightarrow>
     (let n = (of_char c :: nat) in
       (97 \<le> n \<and> n \<le> 122) \<or> (65 \<le> n \<and> n \<le> 90) \<or> (48 \<le> n \<and> n \<le> 57))"

text \<open>The bracket expression outside braces, and the one inside them.\<close>

definition plain_char :: "char \<Rightarrow> bool" where
  "plain_char c \<longleftrightarrow>
     is_alnum c \<or> c = CHR 0x27 \<or> c \<in> set ''-._~!$&()*+,;=:@/?%#[]''"

definition name_char :: "char \<Rightarrow> bool" where
  "name_char c \<longleftrightarrow> is_alnum c \<or> c = CHR ''_'' \<or> c = CHR ''-''"

fun target_regex_body :: "bool \<Rightarrow> string \<Rightarrow> bool" where
  "target_regex_body in_brace [] = (\<not> in_brace)"
| "target_regex_body False (c # cs) =
     (if c = CHR ''{'' then target_regex_body True cs
      else plain_char c \<and> target_regex_body False cs)"
| "target_regex_body True (c # cs) =
     (if c = CHR ''}'' then target_regex_body False cs
      else name_char c \<and> target_regex_body True cs)"

definition valid_target_regex :: "string \<Rightarrow> bool" where
  "valid_target_regex target =
     (case target of [] \<Rightarrow> False | c # cs \<Rightarrow> c = CHR ''/'' \<and> target_regex_body False cs)"

fun brace_scan :: "int \<Rightarrow> string \<Rightarrow> int option" where
  "brace_scan brace_count [] = Some brace_count"
| "brace_scan brace_count (c # cs) =
     (if c = CHR ''{'' then brace_scan (brace_count + 1) cs
      else if c = CHR ''}'' then
        (if brace_count - 1 < 0 then None else brace_scan (brace_count - 1) cs)
      else brace_scan brace_count cs)"

fun non_param_scan :: "bool \<Rightarrow> string \<Rightarrow> string" where
  "non_param_scan in_brace [] = []"
| "non_param_scan in_brace (c # cs) =
     (if c = CHR ''{'' then non_param_scan True cs
      else if c = CHR ''}'' then non_param_scan False cs
      else if \<not> in_brace then c # non_param_scan in_brace cs
      else non_param_scan in_brace cs)"

definition IsValidParametricTarget :: "string \<Rightarrow> bool" where
  "IsValidParametricTarget target =
     (if target = [] \<or> length target > 2048 \<or> target ! 0 \<noteq> CHR ''/'' then False
      else if \<not> valid_target_regex target then False
      else case brace_scan 0 target of
             None \<Rightarrow> False
           | Some brace_count \<Rightarrow>
               if brace_count \<noteq> 0 then False
               else find_sub ''..'' (non_param_scan False target) = None)"

section \<open>Segments\<close>

definition StripQuery :: "string \<Rightarrow> string" where
  "StripQuery target = substr target 0 (find_char CHR ''?'' target)"

definition IsParameterSegment :: "string \<Rightarrow> bool" where
  "IsParameterSegment segment \<longleftrightarrow>
     length segment \<ge> 2 \<and> hd segment = CHR ''{'' \<and> last segment = CHR ''}''"

definition ExtractParamName :: "string \<Rightarrow> string" where
  "ExtractParamName segment =
     (if \<not> IsParameterSegment segment then []
      else substr segment 1 (Some (length segment - 2)))"

function split_segments_loop :: "string \<Rightarrow> string list \<Rightarrow> string list" where
  "split_segments_loop url segments =
     (if url = [] then segments
      else
        (let slash = find_char CHR ''/'' url;
             part = substr url 0 slash;
             segments' = (if part \<noteq> [] then segments @ [part] else segments)
         in case slash of
              None \<Rightarrow> segments'
            | Some i \<Rightarrow> split_segments_loop (drop (i + 1) url) segments'))"
  by pat_completeness auto
termination
  by (relation "measure (\<lambda>(url, _). length url)") (auto dest: find_char_SomeD(1))

declare split_segments_loop.simps [simp del]

definition SplitTargetSegments :: "string \<Rightarrow> string list" where
  "SplitTargetSegments target = split_segments_loop (StripQuery target) []"

section \<open>The language of the pattern\<close>

text \<open>
  The words of \<^verbatim>\<open>([...]|\{[...]*\})*\<close>, as the regular expression denotes them.
\<close>

inductive target_lang :: "string \<Rightarrow> bool" where
  lang_empty: "target_lang []"
| lang_plain: "plain_char c \<Longrightarrow> target_lang s \<Longrightarrow> target_lang (c # s)"
| lang_brace: "list_all name_char name \<Longrightarrow> target_lang s \<Longrightarrow>
    target_lang (CHR ''{'' # name @ CHR ''}'' # s)"

lemma plain_char_not_brace [simp]:
  "\<not> plain_char (CHR ''{'')" "\<not> plain_char (CHR ''}'')"
  by (simp_all add: plain_char_def is_alnum_def)

lemma name_char_not_special [simp]:
  "\<not> name_char (CHR ''{'')" "\<not> name_char (CHR ''}'')" "\<not> name_char (CHR ''.'')"
  "\<not> name_char (CHR ''/'')"
  by (simp_all add: name_char_def is_alnum_def)

lemma regex_body_name:
  "list_all name_char name \<Longrightarrow>
    target_regex_body True (name @ CHR ''}'' # s) = target_regex_body False s"
  by (induction name) auto

lemma regex_body_split:
  "target_regex_body True s \<Longrightarrow>
    \<exists>name s'. s = name @ CHR ''}'' # s' \<and> list_all name_char name \<and> target_regex_body False s'"
proof (induction s)
  case (Cons c s)
  show ?case
  proof (cases "c = CHR ''}''")
    case True
    with Cons.prems show ?thesis by (intro exI [of _ "[]"] exI [of _ s]) auto
  next
    case False
    with Cons obtain name s' where "s = name @ CHR ''}'' # s'" "list_all name_char (c # name)"
      "target_regex_body False s'" by auto
    then show ?thesis by (intro exI [of _ "c # name"] exI [of _ s']) auto
  qed
qed simp

lemma target_lang_regex: "target_lang s \<Longrightarrow> target_regex_body False s"
proof (induction rule: target_lang.induct)
  case (lang_plain c s)
  then show ?case by auto
qed (simp_all add: regex_body_name)

lemma regex_target_lang: "target_regex_body False s \<Longrightarrow> target_lang s"
proof (induction s rule: length_induct)
  case (1 s)
  show ?case
  proof (cases s)
    case (Cons c cs)
    show ?thesis
    proof (cases "c = CHR ''{''")
      case True
      with 1 Cons have "target_regex_body True cs" by simp
      then obtain name s' where "cs = name @ CHR ''}'' # s'" "list_all name_char name"
        "target_regex_body False s'" using regex_body_split by blast
      with 1 Cons True show ?thesis by (auto intro!: lang_brace)
    next
      case False
      with 1 Cons show ?thesis by (auto intro!: lang_plain)
    qed
  qed (simp add: lang_empty)
qed

lemma regex_body_iff_lang [str_simps]: "target_regex_body False s \<longleftrightarrow> target_lang s"
  using target_lang_regex regex_target_lang by blast

lemma regex_body_balanced:
  "target_regex_body b s \<Longrightarrow> brace_scan (if b then 1 else 0) s = Some 0"
proof (induction b s rule: target_regex_body.induct)
  case (2 c cs)
  then show ?case by (cases "c = CHR ''}''") (auto split: if_splits)
next
  case (3 c cs)
  then show ?case by (cases "c = CHR ''{''") (auto split: if_splits)
qed simp

lemma non_param_scan_append:
  "target_regex_body b (a @ s) \<Longrightarrow>
    \<exists>b'. target_regex_body b' s \<and> non_param_scan b (a @ s) = non_param_scan b a @ non_param_scan b' s"
proof (induction a arbitrary: b)
  case (Cons c a)
  then show ?case by (cases b) (auto split: if_splits)
qed auto

text \<open>The validator without its redundant brace count.\<close>

lemma IsValidParametricTarget_iff:
  "IsValidParametricTarget target \<longleftrightarrow>
    length target \<le> 2048 \<and> (\<exists>s. target = CHR ''/'' # s \<and> target_lang s) \<and>
    \<not> sublist ''..'' (non_param_scan False target)"
proof (cases target)
  case (Cons c s)
  have "target_lang s \<Longrightarrow> brace_scan 0 (CHR ''/'' # s) = Some 0"
    using regex_body_balanced [of False s] by (simp add: str_simps)
  then show ?thesis
    using Cons by (auto simp: IsValidParametricTarget_def valid_target_regex_def str_simps sublist_Cons_right)
qed (simp add: IsValidParametricTarget_def)

lemma valid_target_no_dotdot:
  assumes "IsValidParametricTarget target"
  shows "\<not> sublist ''..'' target"
proof
  assume "sublist ''..'' target"
  then obtain a r where ar: "target = a @ ''..'' @ r" by (auto simp: sublist_def)
  from assms obtain s where s: "target = CHR ''/'' # s" "target_regex_body False s"
    and nd: "\<not> sublist ''..'' (non_param_scan False target)"
    by (auto simp: IsValidParametricTarget_iff str_simps)
  then have "target_regex_body False target" by (simp add: plain_char_def)
  with ar obtain b where b: "target_regex_body b (''..'' @ r)"
    "non_param_scan False target = non_param_scan False a @ non_param_scan b (''..'' @ r)"
    using non_param_scan_append by blast
  then have "\<not> b" by (cases b) auto
  with b have "non_param_scan False target
      = non_param_scan False a @ ''..'' @ non_param_scan False r" by simp
  with nd show False by (metis sublist_appendI)
qed

section \<open>Segments: characterisation\<close>

lemma StripQuery_eq [str_simps]: "StripQuery target = takeWhile (\<lambda>c. c \<noteq> CHR ''?'') target"
proof (cases "find_char CHR ''?'' target")
  case None
  then have "CHR ''?'' \<notin> set target" by (simp add: str_simps)
  then have "takeWhile (\<lambda>c. c \<noteq> CHR ''?'') target = target" by (auto simp: takeWhile_eq_all_conv)
  then show ?thesis by (simp only: StripQuery_def None substr_0)
next
  case (Some i)
  then show ?thesis
    using find_if_SomeD(3) [of "\<lambda>x. x = CHR ''?''" target i]
    by (simp add: StripQuery_def str_simps find_char_find_if)
qed

lemma split_segments_loop_eq:
  "split_segments_loop url segs = segs @ filter (\<lambda>s. s \<noteq> []) (split_on CHR ''/'' url)"
proof (induction url segs rule: split_segments_loop.induct)
  case (1 url segs)
  show ?case
  proof (cases "find_char CHR ''/'' url")
    case None
    then have "CHR ''/'' \<notin> set url" by (simp add: str_simps)
    then show ?thesis
      by (auto simp: split_segments_loop.simps [of url] None substr_0 split_on_none Let_def)
  next
    case (Some i)
    note d = find_char_SomeD [OF Some]
    have "split_on CHR ''/'' url = take i url # split_on CHR ''/'' (drop (Suc i) url)"
      using d split_on_append by metis
    then show ?thesis
      using Some d(1) 1 by (auto simp: split_segments_loop.simps [of url] str_simps Let_def)
  qed
qed

lemma SplitTargetSegments_eq [str_simps]:
  "SplitTargetSegments target
    = filter (\<lambda>s. s \<noteq> []) (split_on CHR ''/'' (StripQuery target))"
  by (simp add: SplitTargetSegments_def split_segments_loop_eq)

lemma segment_chars:
  "s \<in> set (SplitTargetSegments target) \<Longrightarrow>
    s \<noteq> [] \<and> CHR ''/'' \<notin> set s \<and> CHR ''?'' \<notin> set s \<and> set s \<subseteq> set target"
  by (auto simp: str_simps dest: split_on_fields set_takeWhileD)

definition join_segments :: "string list \<Rightarrow> string" where
  "join_segments segs = concat (map (\<lambda>s. CHR ''/'' # s) segs)"

definition plain_segment :: "string \<Rightarrow> bool" where
  "plain_segment s \<longleftrightarrow> s \<noteq> [] \<and> CHR ''/'' \<notin> set s \<and> CHR ''?'' \<notin> set s"

lemma split_on_join:
  "list_all plain_segment segs \<Longrightarrow> split_on CHR ''/'' (join_segments segs) = [] # segs"
proof (induction segs)
  case (Cons s segs)
  show ?case
  proof (cases segs)
    case Nil
    then show ?thesis
      using Cons by (simp add: join_segments_def plain_segment_def split_on_none)
  next
    case (Cons t ts)
    have "join_segments (s # segs) = CHR ''/'' # s @ CHR ''/'' # tl (join_segments segs)"
      "CHR ''/'' # tl (join_segments segs) = join_segments segs"
      using Cons by (simp_all add: join_segments_def)
    moreover have "split_on CHR ''/'' (s @ CHR ''/'' # tl (join_segments segs))
        = s # split_on CHR ''/'' (tl (join_segments segs))"
      using Cons.prems by (simp add: split_on_append plain_segment_def)
    moreover have "split_on CHR ''/'' (join_segments segs) = [] # segs"
      using Cons.IH Cons.prems by simp
    then have "split_on CHR ''/'' (tl (join_segments segs)) = segs"
      by (metis calculation(2) list.inject split_on.simps(2))
    ultimately show ?thesis by simp
  qed
qed (simp add: join_segments_def)

lemma StripQuery_join:
  assumes "list_all plain_segment segs" "q = [] \<or> hd q = CHR ''?''"
  shows "StripQuery (join_segments segs @ q) = join_segments segs"
proof -
  have "\<forall>c\<in>set (join_segments segs). c \<noteq> CHR ''?''"
    using assms(1) by (auto simp: join_segments_def plain_segment_def list_all_iff)
  then show ?thesis
    using assms(2) by (cases q) (simp_all add: str_simps takeWhile_eq_all_conv takeWhile_append2)
qed

section \<open>Properties\<close>

text \<open>
  (C23) The validator accepts exactly the targets of at most 2048 characters that are a slash
  followed by a word of the pattern, and that have no two adjacent dots once the parameters are
  taken out: the separate brace count of the code never changes the verdict.
\<close>

theorem valid_target_decides:
  "IsValidParametricTarget target \<longleftrightarrow>
    length target \<le> 2048 \<and> (\<exists>s. target = CHR ''/'' # s \<and> target_lang s) \<and>
    \<not> sublist ''..'' (non_param_scan False target)"
  by (rule IsValidParametricTarget_iff)

text \<open> An accepted target cannot climb: none of the segments that registration walks contains
  two adjacent dots, is empty, or contains a separator.
\<close>

theorem valid_target_segments_safe:
  assumes "IsValidParametricTarget target" "s \<in> set (SplitTargetSegments target)"
  shows "\<not> sublist ''..'' s \<and> plain_segment s"
proof -
  have "sublist s (StripQuery target)"
    using assms(2) split_on_sublist by (fastforce simp: SplitTargetSegments_eq)
  moreover have "sublist (StripQuery target) target"
    by (metis StripQuery_eq prefix_imp_sublist takeWhile_is_prefix)
  ultimately have "sublist s target" by (metis sublist_order.order_trans)
  then have "\<not> sublist ''..'' s"
    using valid_target_no_dotdot [OF assms(1)] sublist_order.order_trans by blast
  then show ?thesis using segment_chars [OF assms(2)] by (simp add: plain_segment_def)
qed

theorem valid_target_segments_safe_witness:
  "\<not> sublist ''..'' ''{id}'' \<and> plain_segment ''{id}''"
  by (rule valid_target_segments_safe [of "''/u/{id}?q=1''"]) code_simp+

text \<open> Splitting inverts joining: the segments of a path written with slashes, followed by any
  query, are the segments it was written from.
\<close>

theorem split_join_roundtrip:
  assumes "list_all plain_segment segs" "q = [] \<or> hd q = CHR ''?''"
  shows "SplitTargetSegments (join_segments segs @ q) = segs"
proof -
  have "filter (\<lambda>s. s \<noteq> []) segs = segs"
    using assms(1) by (induction segs) (auto simp: plain_segment_def)
  then show ?thesis
    by (simp add: SplitTargetSegments_eq StripQuery_join [OF assms] split_on_join [OF assms(1)])
qed

theorem split_join_roundtrip_witness:
  "SplitTargetSegments (join_segments [''users'', ''{id}''] @ ''?a=/b'') = [''users'', ''{id}'']"
  by (rule split_join_roundtrip) (simp_all add: plain_segment_def)

end
