(* ===== verification/Route_Tree.thy ===== *)
theory Route_Tree
  imports Route_Target
begin

text \<open>
  The routing tree of \<^verbatim>\<open>route/http_route_table_layer.cc\<close>: one node per path segment, a map of
  static children, and one \<^verbatim>\<open>default_route_\<close> edge that all parameter segments share. Nodes are
  owned by their parent (\<^verbatim>\<open>OwnedPtr\<close>), so the tree is a datatype and a pointer to a node is the
  path to it. The abstraction of a tree is the partial function from paths to node data; the
  locale \<open>route_store\<close> is the contract registration and matching rely on.
\<close>

section \<open>Nodes\<close>

text \<open>
  \<open>'h\<close> stands for handler objects, a null \<^verbatim>\<open>handler_\<close> being \<open>None\<close>; \<open>'a\<close> stands for aspect
  pointers, which the tree stores and hands out without looking at them.
\<close>

record ('h, 'a) layer_data =
  aspects :: "'a list"
  terminal_aspects :: "'a list"
  param_names :: "string list"
  handler :: "'h option"
  route_template :: string
  max_body_size :: size_t
  read_expiry :: size_t
  write_expiry :: size_t
  ignore_default_route :: bool

datatype ('h, 'a) layer =
  Layer (ldata: "('h, 'a) layer_data")
        (lmap: "(string \<times> ('h, 'a) layer) list")
        (default_route: "('h, 'a) layer option")

definition new_data :: "('h, 'a) layer_data" where
  "new_data = \<lparr>aspects = [], terminal_aspects = [], param_names = [], handler = None,
     route_template = ''/'', max_body_size = 0, read_expiry = 0, write_expiry = 0,
     ignore_default_route = False\<rparr>"

definition new_layer :: "('h, 'a) layer" where
  "new_layer = Layer new_data [] None"

definition map_data ::
  "(('h, 'a) layer_data \<Rightarrow> ('h, 'a) layer_data) \<Rightarrow> ('h, 'a) layer \<Rightarrow> ('h, 'a) layer" where
  "map_data f l = Layer (f (ldata l)) (lmap l) (default_route l)"

section \<open>Operations of a node\<close>

definition SetMaxBodySize :: "size_t \<Rightarrow> ('h, 'a) layer \<Rightarrow> ('h, 'a) layer" where
  "SetMaxBodySize n = map_data (\<lambda>d. d\<lparr>max_body_size := n\<rparr>)"

definition SetReadExpiry :: "size_t \<Rightarrow> ('h, 'a) layer \<Rightarrow> ('h, 'a) layer" where
  "SetReadExpiry expiry = map_data (\<lambda>d. d\<lparr>read_expiry := expiry\<rparr>)"

definition SetWriteExpiry :: "size_t \<Rightarrow> ('h, 'a) layer \<Rightarrow> ('h, 'a) layer" where
  "SetWriteExpiry expiry = map_data (\<lambda>d. d\<lparr>write_expiry := expiry\<rparr>)"

definition SetHandler :: "'h option \<Rightarrow> ('h, 'a) layer \<Rightarrow> bool \<times> ('h, 'a) layer" where
  "SetHandler h l =
     (case h of None \<Rightarrow> (False, l) | Some _ \<Rightarrow> (True, map_data (\<lambda>d. d\<lparr>handler := h\<rparr>) l))"

definition SetDefaultRoute ::
  "('h, 'a) layer option \<Rightarrow> ('h, 'a) layer \<Rightarrow> bool \<times> ('h, 'a) layer" where
  "SetDefaultRoute route l =
     (case route of
        None \<Rightarrow> (False, l)
      | Some _ \<Rightarrow> (True, Layer (ldata l) (lmap l) route))"

definition SetRoute ::
  "string \<Rightarrow> ('h, 'a) layer option \<Rightarrow> ('h, 'a) layer \<Rightarrow> bool \<times> ('h, 'a) layer" where
  "SetRoute key link l =
     (if key = [] then (False, l)
      else case link of
        None \<Rightarrow> (False, l)
      | Some c \<Rightarrow> (True, Layer (ldata l) (insert_or_assign key c (lmap l)) (default_route l)))"

definition SetIgnoreDefaultRoute :: "bool \<Rightarrow> ('h, 'a) layer \<Rightarrow> ('h, 'a) layer" where
  "SetIgnoreDefaultRoute flag = map_data (\<lambda>d. d\<lparr>ignore_default_route := flag\<rparr>)"

definition GetRoute :: "string \<Rightarrow> ('h, 'a) layer \<Rightarrow> ('h, 'a) layer option" where
  "GetRoute key l = map_of (lmap l) key"

definition SetParamNames :: "string list \<Rightarrow> ('h, 'a) layer \<Rightarrow> ('h, 'a) layer" where
  "SetParamNames names = map_data (\<lambda>d. d\<lparr>param_names := names\<rparr>)"

definition SetRouteTemplate :: "string \<Rightarrow> ('h, 'a) layer \<Rightarrow> ('h, 'a) layer" where
  "SetRouteTemplate template = map_data (\<lambda>d. d\<lparr>route_template := template\<rparr>)"

definition AddAspect :: "'a \<Rightarrow> ('h, 'a) layer \<Rightarrow> ('h, 'a) layer" where
  "AddAspect aspect = map_data (\<lambda>d. d\<lparr>aspects := aspects d @ [aspect]\<rparr>)"

definition AddTerminalAspect :: "'a \<Rightarrow> ('h, 'a) layer \<Rightarrow> ('h, 'a) layer" where
  "AddTerminalAspect aspect =
     map_data (\<lambda>d. d\<lparr>terminal_aspects := terminal_aspects d @ [aspect]\<rparr>)"

section \<open>Descending a target, creating the nodes that are missing\<close>

text \<open>
  \<open>get_or_create words f l\<close> walks \<open>words\<close> from \<open>l\<close> as the loop of
  \<^verbatim>\<open>GetOrCreateRouteTableLayer\<close> does and applies \<open>f\<close>, the writes the code performs through the
  pointer it obtained, to the node where the walk ends.
\<close>

fun get_or_create ::
  "string list \<Rightarrow> (('h, 'a) layer \<Rightarrow> ('h, 'a) layer) \<Rightarrow> ('h, 'a) layer \<Rightarrow> ('h, 'a) layer" where
  "get_or_create [] f l = f l"
| "get_or_create (word # words) f l =
     (if IsParameterSegment word then
        (case default_route l of
           Some next_layer \<Rightarrow>
             Layer (ldata l) (lmap l) (Some (get_or_create words f next_layer))
         | None \<Rightarrow> snd (SetDefaultRoute (Some (get_or_create words f new_layer)) l))
      else
        (case GetRoute word l of
           Some next_layer \<Rightarrow>
             Layer (ldata l) (insert_or_assign word (get_or_create words f next_layer) (lmap l))
               (default_route l)
         | None \<Rightarrow> snd (SetRoute word (Some (get_or_create words f new_layer)) l)))"

section \<open>Paths and the abstraction of a tree\<close>

datatype edge = Static string | Param

type_synonym path = "edge list"

definition edge_of :: "string \<Rightarrow> edge" where
  "edge_of word = (if IsParameterSegment word then Param else Static word)"

definition edges_of :: "string list \<Rightarrow> path" where
  "edges_of words = map edge_of words"

fun child :: "edge \<Rightarrow> ('h, 'a) layer \<Rightarrow> ('h, 'a) layer option" where
  "child (Static w) l = GetRoute w l"
| "child Param l = default_route l"

fun layer_at :: "path \<Rightarrow> ('h, 'a) layer \<Rightarrow> ('h, 'a) layer option" where
  "layer_at [] l = Some l"
| "layer_at (e # es) l = (case child e l of None \<Rightarrow> None | Some c \<Rightarrow> layer_at es c)"

definition data_at :: "('h, 'a) layer \<Rightarrow> path \<Rightarrow> ('h, 'a) layer_data option" where
  "data_at l p = map_option ldata (layer_at p l)"

definition child_or_new :: "edge \<Rightarrow> ('h, 'a) layer \<Rightarrow> ('h, 'a) layer" where
  "child_or_new e l = (case child e l of Some c \<Rightarrow> c | None \<Rightarrow> new_layer)"

text \<open>
  What a registration means for the abstraction: the data at its path is rewritten, the nodes on
  the way exist, and nothing else changes.
\<close>

definition spec_register ::
  "path \<Rightarrow> ('d \<Rightarrow> 'd) \<Rightarrow> 'd \<Rightarrow> (path \<Rightarrow> 'd option) \<Rightarrow> path \<Rightarrow> 'd option" where
  "spec_register es g fresh m p =
     (let old = (case m p of Some d \<Rightarrow> d | None \<Rightarrow> fresh)
      in if p = es then Some (g old) else if prefix p es then Some old else m p)"

section \<open>The contract of the tree\<close>

locale route_store =
  fixes lookup :: "'l \<Rightarrow> path \<Rightarrow> 'd option"
    and register :: "string list \<Rightarrow> ('d \<Rightarrow> 'd) \<Rightarrow> 'l \<Rightarrow> 'l"
    and fresh :: 'd
    and blank :: 'l
  assumes lookup_blank: "lookup blank p = (if p = [] then Some fresh else None)"
    and lookup_register:
      "list_all (\<lambda>w. w \<noteq> []) ws \<Longrightarrow>
        lookup (register ws g l) = spec_register (edges_of ws) g fresh (lookup l)"
begin

lemma register_same:
  assumes "list_all (\<lambda>w. w \<noteq> []) ws"
  shows "lookup (register ws g l) (edges_of ws)
    = Some (g (case lookup l (edges_of ws) of Some d \<Rightarrow> d | None \<Rightarrow> fresh))"
  using assms by (simp add: lookup_register spec_register_def)

lemma register_other:
  assumes "list_all (\<lambda>w. w \<noteq> []) ws" "p \<noteq> edges_of ws" "lookup l p = Some d"
  shows "lookup (register ws g l) p = Some d"
  using assms by (simp add: lookup_register spec_register_def)

lemma register_created:
  assumes "list_all (\<lambda>w. w \<noteq> []) ws" "p \<noteq> edges_of ws" "lookup l p = None"
    "lookup (register ws g l) p = Some d"
  shows "d = fresh \<and> prefix p (edges_of ws)"
  using assms by (auto simp: lookup_register spec_register_def split: if_splits)

lemma register_twice:
  assumes "list_all (\<lambda>w. w \<noteq> []) ws"
  shows "lookup (register ws g (register ws h l)) = lookup (register ws (g \<circ> h) l)"
  using assms by (auto simp: lookup_register spec_register_def fun_eq_iff Let_def split: option.splits)

lemma register_commute:
  assumes "list_all (\<lambda>w. w \<noteq> []) ws" "list_all (\<lambda>w. w \<noteq> []) vs" "edges_of ws \<noteq> edges_of vs"
  shows "lookup (register ws g (register vs h l)) = lookup (register vs h (register ws g l))"
  using assms by (auto simp: lookup_register spec_register_def fun_eq_iff Let_def split: option.splits)

end

section \<open>The tree keeps the contract\<close>

lemma ldata_simps [layer_simps]:
  "ldata (map_data f l) = f (ldata l)" "lmap (map_data f l) = lmap l"
  "default_route (map_data f l) = default_route l" "child e (map_data f l) = child e l"
  by (cases e; simp add: map_data_def GetRoute_def)+

lemma map_data_comp [layer_simps]: "map_data f (map_data g l) = map_data (f \<circ> g) l"
  by (simp add: map_data_def)

lemma child_new_layer [layer_simps]: "child e new_layer = None"
  by (cases e) (simp_all add: new_layer_def GetRoute_def)

lemma ldata_new_layer [layer_simps]: "ldata new_layer = new_data"
  by (simp add: new_layer_def)

lemma layer_at_new_layer [layer_simps]:
  "layer_at p new_layer = (if p = [] then Some new_layer else None)"
  by (cases p) (simp_all add: child_new_layer)

lemma get_or_create_Cons:
  assumes "word \<noteq> []"
  shows "ldata (get_or_create (word # words) f l) = ldata l"
    and "child e (get_or_create (word # words) f l)
      = (if e = edge_of word then Some (get_or_create words f (child_or_new e l)) else child e l)"
  using assms
  by (cases e; auto simp: SetDefaultRoute_def SetRoute_def child_or_new_def edge_of_def GetRoute_def
      map_simps split: option.splits)+

declare get_or_create.simps(2) [simp del]

lemma layer_at_child_or_new:
  "data_at (child_or_new e l) p
    = (case child e l of Some c \<Rightarrow> data_at c p | None \<Rightarrow> if p = [] then Some new_data else None)"
  by (auto simp: child_or_new_def data_at_def layer_simps split: option.splits)

lemma data_at_Nil [layer_simps]: "data_at l [] = Some (ldata l)"
  by (simp add: data_at_def)

lemma data_at_Cons [layer_simps]:
  "data_at l (e # es) = (case child e l of None \<Rightarrow> None | Some c \<Rightarrow> data_at c es)"
  by (auto simp: data_at_def split: option.splits)

lemma data_at_map_data:
  "data_at (map_data g l) p = (if p = [] then Some (g (ldata l)) else data_at l p)"
  by (cases p) (auto simp: layer_simps split: option.splits)

lemma get_or_create_refines:
  assumes "list_all (\<lambda>w. w \<noteq> []) ws"
  shows "data_at (get_or_create ws (map_data g) l) p
    = spec_register (edges_of ws) g new_data (data_at l) p"
  using assms
proof (induction ws arbitrary: l p)
  case Nil
  then show ?case
    by (cases p) (simp_all add: data_at_map_data spec_register_def edges_of_def layer_simps)
next
  case (Cons w ws)
  then have w: "w \<noteq> []" by simp
  show ?case
  proof (cases p)
    case Nil
    then show ?thesis
      using w by (simp add: layer_simps get_or_create_Cons edges_of_def spec_register_def)
  next
    case (Cons e es)
    show ?thesis
    proof (cases "e = edge_of w")
      case True
      then show ?thesis
        using Cons w Cons.IH [of "child_or_new e l" es] Cons.prems
        by (auto simp: layer_simps get_or_create_Cons edges_of_def spec_register_def Let_def
            layer_at_child_or_new split: option.splits)
    next
      case False
      then show ?thesis
        using Cons w by (simp add: layer_simps get_or_create_Cons edges_of_def spec_register_def)
    qed
  qed
qed

interpretation rtree: route_store data_at "\<lambda>ws g. get_or_create ws (map_data g)" new_data new_layer
proof
  show "data_at new_layer p = (if p = [] then Some new_data else None)" for p
    by (cases p) (simp_all add: layer_simps)
  show "data_at (get_or_create ws (map_data g) l) = spec_register (edges_of ws) g new_data (data_at l)"
    if "list_all (\<lambda>w. w \<noteq> []) ws" for ws g l
    using get_or_create_refines [OF that] by blast
qed

section \<open>Well-formed trees\<close>

text \<open>
  No map of the tree binds a key twice, and every key is a non-empty segment that is not a
  parameter.
\<close>

definition key_ok :: "string \<Rightarrow> bool" where
  "key_ok k \<longleftrightarrow> k \<noteq> [] \<and> \<not> IsParameterSegment k"

fun layer_ok :: "('h, 'a) layer \<Rightarrow> bool" where
  "layer_ok (Layer d m dr) \<longleftrightarrow>
     umap_ok m \<and> (\<forall>kc\<in>set m. key_ok (fst kc) \<and> layer_ok (snd kc)) \<and>
     (case dr of None \<Rightarrow> True | Some c \<Rightarrow> layer_ok c)"

lemma layer_ok_new_layer [simp, inv_intros]: "layer_ok new_layer"
  by (simp add: new_layer_def)

lemma layer_ok_map_data [simp]: "layer_ok (map_data f l) = layer_ok l"
  by (cases l) (simp add: map_data_def)

definition children_ok :: "(string \<times> ('h, 'a) layer) list \<Rightarrow> bool" where
  "children_ok m \<longleftrightarrow> umap_ok m \<and> (\<forall>kc\<in>set m. key_ok (fst kc) \<and> layer_ok (snd kc))"

lemma layer_ok_iff_children_ok:
  "layer_ok l \<longleftrightarrow> children_ok (lmap l) \<and> (case default_route l of None \<Rightarrow> True | Some c \<Rightarrow> layer_ok c)"
  by (cases l) (simp add: children_ok_def)

lemma children_ok_insert_or_assign [inv_intros]:
  "children_ok m \<Longrightarrow> key_ok k \<Longrightarrow> layer_ok c \<Longrightarrow> children_ok (insert_or_assign k c m)"
  by (auto simp: children_ok_def umap_ok_insert_or_assign dest!: set_insert_or_assign)

lemma children_ok_emplace [inv_intros]:
  "children_ok m \<Longrightarrow> key_ok k \<Longrightarrow> layer_ok c \<Longrightarrow> children_ok (emplace k c m)"
  using umap_ok_emplace [of m k c]
  by (auto simp: children_ok_def emplace_def split: option.splits)

lemma children_ok_lookup: "children_ok m \<Longrightarrow> map_of m k = Some c \<Longrightarrow> layer_ok c"
  using map_of_SomeD by (force simp: children_ok_def)

lemma layer_ok_child: "layer_ok l \<Longrightarrow> child e l = Some c \<Longrightarrow> layer_ok c"
  by (cases l; cases e) (auto simp: GetRoute_def dest!: map_of_SomeD)

lemma layer_ok_child_or_new: "layer_ok l \<Longrightarrow> layer_ok (child_or_new e l)"
  by (auto simp: child_or_new_def dest: layer_ok_child split: option.splits)

lemma layer_ok_set_child:
  assumes "layer_ok l" "layer_ok c" "key_ok k"
  shows "layer_ok (Layer (ldata l) (insert_or_assign k c (lmap l)) (default_route l))"
  using assms
  by (cases l) (auto simp: umap_ok_insert_or_assign dest!: set_insert_or_assign)

lemma layer_ok_set_default:
  "layer_ok l \<Longrightarrow> layer_ok c \<Longrightarrow> layer_ok (Layer (ldata l) (lmap l) (Some c))"
  by (cases l) auto

lemma layer_ok_get_or_create [inv_intros]:
  assumes "layer_ok l" "list_all (\<lambda>w. w \<noteq> []) ws" "\<And>l. layer_ok l \<Longrightarrow> layer_ok (f l)"
  shows "layer_ok (get_or_create ws f l)"
  using assms(1,2)
proof (induction ws arbitrary: l)
  case Nil
  then show ?case using assms(3) by simp
next
  case (Cons w ws)
  then have IH: "layer_ok (get_or_create ws f (child_or_new (edge_of w) l))"
    by (simp add: layer_ok_child_or_new)
  show ?case
  proof (cases "IsParameterSegment w")
    case True
    then have "get_or_create (w # ws) f l
        = Layer (ldata l) (lmap l) (Some (get_or_create ws f (child_or_new (edge_of w) l)))"
      by (auto simp: get_or_create.simps(2) SetDefaultRoute_def child_or_new_def edge_of_def
          split: option.splits)
    then show ?thesis using IH Cons.prems layer_ok_set_default by metis
  next
    case False
    then have "get_or_create (w # ws) f l = Layer (ldata l)
        (insert_or_assign w (get_or_create ws f (child_or_new (edge_of w) l)) (lmap l))
        (default_route l)"
      using Cons.prems
      by (auto simp: get_or_create.simps(2) SetRoute_def child_or_new_def edge_of_def
          split: option.splits)
    moreover have "key_ok w" using False Cons.prems by (simp add: key_ok_def)
    ultimately show ?thesis using IH Cons.prems layer_ok_set_child by metis
  qed
qed

end
