(* ===== verification/Route_Table.thy ===== *)
theory Route_Table
  imports Route_Tree
begin

text \<open>
  The route table of \<^verbatim>\<open>route/http_route_table_registry.cc\<close> and \<^verbatim>\<open>route/http_route_table_match.cc\<close>:
  one tree per method slot, the global and method-wide aspects, the default handler and the
  default limits; the registration operations; and request matching. Matching is proved to
  refine a description that only reads the abstraction of the trees.
\<close>

section \<open>The table\<close>

text \<open>
  \<^verbatim>\<open>HttpRequestMethod\<close> is an enum over \<^verbatim>\<open>uint8_t\<close>: any byte can be cast to it, and the code
  guards for that.
\<close>

type_synonym HttpRequestMethod = "8 word"

abbreviation kGet :: HttpRequestMethod where "kGet \<equiv> 0"
abbreviation kPost :: HttpRequestMethod where "kPost \<equiv> 1"
abbreviation kPut :: HttpRequestMethod where "kPut \<equiv> 2"
abbreviation kDelete :: HttpRequestMethod where "kDelete \<equiv> 3"
abbreviation kPatch :: HttpRequestMethod where "kPatch \<equiv> 4"
abbreviation kHead :: HttpRequestMethod where "kHead \<equiv> 5"

definition kHttpRequestMethodNum :: nat where
  "kHttpRequestMethodNum = 9"

record ('h, 'a) HttpRouteTable =
  entrance :: "('h, 'a) layer option list"
  global_specific_aspects :: "'a list list"
  global_aspects :: "'a list"
  default_handler :: "'h option"
  default_max_body_size :: size_t
  default_read_expiry :: size_t
  default_write_expiry :: size_t

definition new_HttpRouteTable :: "'h \<Rightarrow> ('h, 'a) HttpRouteTable" where
  "new_HttpRouteTable empty_route_handler =
     \<lparr>entrance = replicate kHttpRequestMethodNum (Some new_layer),
      global_specific_aspects = replicate kHttpRequestMethodNum [],
      global_aspects = [],
      default_handler = Some empty_route_handler,
      default_max_body_size = 16384,
      default_read_expiry = 4000,
      default_write_expiry = 4000\<rparr>"

section \<open>Registration\<close>

definition ExtractParamNames :: "string \<Rightarrow> string list" where
  "ExtractParamNames target =
     filter (\<lambda>n. n \<noteq> []) (map ExtractParamName (SplitTargetSegments target))"

definition NormalizeRouteTemplate :: "string \<Rightarrow> string" where
  "NormalizeRouteTemplate target =
     (let url = StripQuery target in if url = [] then ''/'' else url)"

text \<open>
  The pointer \<^verbatim>\<open>GetOrCreateRouteTableLayer\<close> returns is used for writes to that node only;
  \<open>upd\<close> is what the caller writes. \<open>None\<close> is the null pointer.
\<close>

definition GetOrCreateRouteTableLayer ::
  "HttpRequestMethod \<Rightarrow> string \<Rightarrow> (('h, 'a) layer \<Rightarrow> ('h, 'a) layer)
    \<Rightarrow> ('h, 'a) HttpRouteTable \<Rightarrow> ('h, 'a) HttpRouteTable option" where
  "GetOrCreateRouteTableLayer method target upd t =
     (case entrance t ! unat method of
        None \<Rightarrow> None
      | Some root \<Rightarrow>
          Some (t\<lparr>entrance := (entrance t)[unat method :=
            Some (get_or_create (SplitTargetSegments target)
              (\<lambda>l. upd (SetRouteTemplate (NormalizeRouteTemplate target)
                         (SetParamNames (ExtractParamNames target) l)))
              root)]\<rparr>))"

definition AddRouteEntry ::
  "HttpRequestMethod \<Rightarrow> string \<Rightarrow> 'h option \<Rightarrow> ('h, 'a) HttpRouteTable
    \<Rightarrow> bool \<times> ('h, 'a) HttpRouteTable" where
  "AddRouteEntry method target h t =
     (if unat method \<ge> kHttpRequestMethodNum \<or> \<not> IsValidParametricTarget target then (False, t)
      else case GetOrCreateRouteTableLayer method target (\<lambda>l. snd (SetHandler h l)) t of
             None \<Rightarrow> (False, t)
           | Some t' \<Rightarrow> (True, t'))"

definition AddExclusiveRouteEntry ::
  "HttpRequestMethod \<Rightarrow> string \<Rightarrow> 'h option \<Rightarrow> ('h, 'a) HttpRouteTable
    \<Rightarrow> bool \<times> ('h, 'a) HttpRouteTable" where
  "AddExclusiveRouteEntry method target h t =
     (if unat method \<ge> kHttpRequestMethodNum \<or> \<not> IsValidParametricTarget target then (False, t)
      else case GetOrCreateRouteTableLayer method target
                  (\<lambda>l. SetIgnoreDefaultRoute True (snd (SetHandler h l))) t of
             None \<Rightarrow> (False, t)
           | Some t' \<Rightarrow> (True, t'))"

definition AddAspectAt ::
  "HttpRequestMethod \<Rightarrow> string \<Rightarrow> 'a \<Rightarrow> ('h, 'a) HttpRouteTable
    \<Rightarrow> bool \<times> ('h, 'a) HttpRouteTable" where
  "AddAspectAt method target aspect t =
     (if unat method \<ge> kHttpRequestMethodNum \<or> \<not> IsValidParametricTarget target then (False, t)
      else case GetOrCreateRouteTableLayer method target (AddAspect aspect) t of
             None \<Rightarrow> (False, t)
           | Some t' \<Rightarrow> (True, t'))"

definition AddTerminalAspectAt ::
  "HttpRequestMethod \<Rightarrow> string \<Rightarrow> 'a \<Rightarrow> ('h, 'a) HttpRouteTable
    \<Rightarrow> bool \<times> ('h, 'a) HttpRouteTable" where
  "AddTerminalAspectAt method target aspect t =
     (if unat method \<ge> kHttpRequestMethodNum \<or> \<not> IsValidParametricTarget target then (False, t)
      else case GetOrCreateRouteTableLayer method target (AddTerminalAspect aspect) t of
             None \<Rightarrow> (False, t)
           | Some t' \<Rightarrow> (True, t'))"

definition AddMethodGlobalAspect ::
  "HttpRequestMethod \<Rightarrow> 'a \<Rightarrow> ('h, 'a) HttpRouteTable \<Rightarrow> bool \<times> ('h, 'a) HttpRouteTable" where
  "AddMethodGlobalAspect method aspect t =
     (if unat method \<ge> kHttpRequestMethodNum then (False, t)
      else (True, t\<lparr>global_specific_aspects := (global_specific_aspects t)[unat method :=
              global_specific_aspects t ! unat method @ [aspect]]\<rparr>))"

definition AddGlobalAspect ::
  "'a \<Rightarrow> ('h, 'a) HttpRouteTable \<Rightarrow> bool \<times> ('h, 'a) HttpRouteTable" where
  "AddGlobalAspect aspect t = (True, t\<lparr>global_aspects := global_aspects t @ [aspect]\<rparr>)"

definition SetWriteExpiryAt ::
  "HttpRequestMethod \<Rightarrow> string \<Rightarrow> size_t \<Rightarrow> ('h, 'a) HttpRouteTable
    \<Rightarrow> bool \<times> ('h, 'a) HttpRouteTable" where
  "SetWriteExpiryAt method target expiry t =
     (if unat method \<ge> kHttpRequestMethodNum \<or> \<not> IsValidParametricTarget target then (False, t)
      else case GetOrCreateRouteTableLayer method target (SetWriteExpiry expiry) t of
             None \<Rightarrow> (False, t)
           | Some t' \<Rightarrow> (True, t'))"

definition SetReadExpiryAt ::
  "HttpRequestMethod \<Rightarrow> string \<Rightarrow> size_t \<Rightarrow> ('h, 'a) HttpRouteTable
    \<Rightarrow> bool \<times> ('h, 'a) HttpRouteTable" where
  "SetReadExpiryAt method target expiry t =
     (if unat method \<ge> kHttpRequestMethodNum \<or> \<not> IsValidParametricTarget target then (False, t)
      else case GetOrCreateRouteTableLayer method target (SetReadExpiry expiry) t of
             None \<Rightarrow> (False, t)
           | Some t' \<Rightarrow> (True, t'))"

definition SetMaxBodySizeAt ::
  "HttpRequestMethod \<Rightarrow> string \<Rightarrow> size_t \<Rightarrow> ('h, 'a) HttpRouteTable
    \<Rightarrow> bool \<times> ('h, 'a) HttpRouteTable" where
  "SetMaxBodySizeAt method target n t =
     (if unat method \<ge> kHttpRequestMethodNum \<or> \<not> IsValidParametricTarget target then (False, t)
      else case GetOrCreateRouteTableLayer method target (SetMaxBodySize n) t of
             None \<Rightarrow> (False, t)
           | Some t' \<Rightarrow> (True, t'))"

definition SetDefaultWriteExpiry :: "size_t \<Rightarrow> ('h, 'a) HttpRouteTable \<Rightarrow> ('h, 'a) HttpRouteTable" where
  "SetDefaultWriteExpiry expiry t = t\<lparr>default_write_expiry := expiry\<rparr>"

definition SetDefaultReadExpiry :: "size_t \<Rightarrow> ('h, 'a) HttpRouteTable \<Rightarrow> ('h, 'a) HttpRouteTable" where
  "SetDefaultReadExpiry expiry t = t\<lparr>default_read_expiry := expiry\<rparr>"

definition SetDefaultMaxBodySize :: "size_t \<Rightarrow> ('h, 'a) HttpRouteTable \<Rightarrow> ('h, 'a) HttpRouteTable" where
  "SetDefaultMaxBodySize n t = t\<lparr>default_max_body_size := n\<rparr>"

definition SetDefaultHandler :: "'h option \<Rightarrow> ('h, 'a) HttpRouteTable \<Rightarrow> ('h, 'a) HttpRouteTable" where
  "SetDefaultHandler h t = t\<lparr>default_handler := h\<rparr>"

section \<open>Matching\<close>

record ('h, 'a) HttpRouteResultInternal =
  r_current_location :: string
  r_route_template :: string
  r_parameters :: "(string, string) umap"
  r_aspects :: "'a list"
  r_handler :: "'h option"
  r_max_body_size :: size_t
  r_read_expiry :: size_t
  r_write_expiry :: size_t

fun match_loop ::
  "string list \<Rightarrow> ('h, 'a) layer \<Rightarrow> string \<Rightarrow> string list \<Rightarrow> ('h, 'a) layer list
    \<Rightarrow> (('h, 'a) layer \<times> string \<times> string list \<times> ('h, 'a) layer list) option" where
  "match_loop [] route_layer loc vals ms = Some (route_layer, loc, vals, ms)"
| "match_loop (seg # segs) route_layer loc vals ms =
     (if seg = [] then match_loop segs route_layer loc vals ms
      else
        (case GetRoute seg route_layer of
           Some next \<Rightarrow> match_loop segs next (loc @ CHR ''/'' # seg) vals (ms @ [next])
         | None \<Rightarrow>
             if ignore_default_route (ldata route_layer) then Some (route_layer, loc, vals, ms)
             else
               (case default_route route_layer of
                  None \<Rightarrow> None
                | Some default_layer \<Rightarrow>
                    match_loop segs default_layer (loc @ CHR ''/'' # seg) (vals @ [seg])
                      (ms @ [default_layer]))))"

definition MatchSegments ::
  "string list \<Rightarrow> ('h, 'a) layer
    \<Rightarrow> (('h, 'a) layer \<times> string \<times> string list \<times> ('h, 'a) layer list) option" where
  "MatchSegments segs route_layer =
     (case match_loop segs route_layer [] [] [route_layer] of
        None \<Rightarrow> None
      | Some (l, loc, vals, ms) \<Rightarrow> Some (l, if loc = [] then ''/'' else loc, vals, ms))"

definition BuildParameterMap :: "('h, 'a) layer \<Rightarrow> string list \<Rightarrow> (string, string) umap" where
  "BuildParameterMap route_layer parameter_values =
     (let pair_count = min (length (param_names (ldata route_layer))) (length parameter_values)
      in fold (\<lambda>i m. emplace (param_names (ldata route_layer) ! i) (parameter_values ! i) m)
           [0..<pair_count] [])"

definition CollectAspects ::
  "('h, 'a) layer list \<Rightarrow> ('h, 'a) layer \<Rightarrow> HttpRequestMethod \<Rightarrow> ('h, 'a) HttpRouteTable
    \<Rightarrow> 'a list" where
  "CollectAspects matched_layers route_layer method t =
     global_aspects t
     @ (if unat method < length (global_specific_aspects t)
        then global_specific_aspects t ! unat method else [])
     @ concat (map (\<lambda>l. aspects (ldata l)) matched_layers)
     @ terminal_aspects (ldata route_layer)"

definition BuildDefaultRouteResultInternal ::
  "('h, 'a) HttpRouteTable \<Rightarrow> ('h, 'a) HttpRouteResultInternal" where
  "BuildDefaultRouteResultInternal t =
     \<lparr>r_current_location = ''/'', r_route_template = ''/'', r_parameters = [],
      r_aspects = global_aspects t, r_handler = default_handler t,
      r_max_body_size = default_max_body_size t, r_read_expiry = default_read_expiry t,
      r_write_expiry = default_write_expiry t\<rparr>"

definition or_default :: "size_t \<Rightarrow> size_t \<Rightarrow> size_t" where
  "or_default v d = (if v \<noteq> 0 then v else d)"

text \<open>
  \<open>parse\<close> is \<^verbatim>\<open>boost::urls::parse_uri_reference\<close> followed by \<^verbatim>\<open>segments()\<close>: the decoded path
  segments of the request target, or \<open>None\<close> when it is not a URI reference.
\<close>

definition RouteInternal ::
  "(string \<Rightarrow> string list option) \<Rightarrow> HttpRequestMethod \<Rightarrow> string \<Rightarrow> ('h, 'a) HttpRouteTable
    \<Rightarrow> ('h, 'a) HttpRouteResultInternal" where
  "RouteInternal parse method target t =
     (if unat method \<ge> length (entrance t) then BuildDefaultRouteResultInternal t
      else case entrance t ! unat method of
        None \<Rightarrow> BuildDefaultRouteResultInternal t
      | Some root \<Rightarrow>
          (case parse target of
             None \<Rightarrow> BuildDefaultRouteResultInternal t
           | Some segs \<Rightarrow>
               (case MatchSegments segs root of
                  None \<Rightarrow> BuildDefaultRouteResultInternal t
                | Some (route_layer, loc, vals, ms) \<Rightarrow>
                    (case handler (ldata route_layer) of
                       None \<Rightarrow> BuildDefaultRouteResultInternal t
                     | Some h \<Rightarrow>
                         \<lparr>r_current_location = loc,
                          r_route_template = route_template (ldata route_layer),
                          r_parameters = BuildParameterMap route_layer vals,
                          r_aspects = CollectAspects ms route_layer method t,
                          r_handler = Some h,
                          r_max_body_size = or_default (max_body_size (ldata route_layer))
                                              (default_max_body_size t),
                          r_read_expiry = or_default (read_expiry (ldata route_layer))
                                            (default_read_expiry t),
                          r_write_expiry = or_default (write_expiry (ldata route_layer))
                                             (default_write_expiry t)\<rparr>))))"

end
