(* ===== verification/Route_Match.thy ===== *)
theory Route_Match
  imports Route_Table
begin

text \<open>
  What registration and matching promise. \<open>spec_route\<close> describes the result of a request from
  the abstraction of the trees alone; \<^const>\<open>RouteInternal\<close> refines it, and the registration
  operations are updates of that abstraction. The end-to-end properties follow from the two.
\<close>

section \<open>Well-formed tables\<close>

definition table_ok :: "('h, 'a) HttpRouteTable \<Rightarrow> bool" where
  "table_ok t \<longleftrightarrow>
     length (entrance t) = kHttpRequestMethodNum \<and>
     length (global_specific_aspects t) = kHttpRequestMethodNum \<and>
     (\<forall>root\<in>set (entrance t). case root of None \<Rightarrow> False | Some l \<Rightarrow> layer_ok l)"

definition root_of :: "HttpRequestMethod \<Rightarrow> ('h, 'a) HttpRouteTable \<Rightarrow> ('h, 'a) layer" where
  "root_of method t = the (entrance t ! unat method)"

lemma table_ok_new [inv_intros]: "table_ok (new_HttpRouteTable h)"
  by (simp add: table_ok_def new_HttpRouteTable_def kHttpRequestMethodNum_def)

lemma table_ok_root:
  assumes "table_ok t" "unat method < kHttpRequestMethodNum"
  shows "entrance t ! unat method = Some (root_of method t)" "layer_ok (root_of method t)"
proof -
  have "entrance t ! unat method \<in> set (entrance t)"
    using assms by (simp add: table_ok_def)
  then obtain l where "entrance t ! unat method = Some l" "layer_ok l"
    using assms(1) by (auto simp: table_ok_def split: option.splits)
  then show "entrance t ! unat method = Some (root_of method t)" "layer_ok (root_of method t)"
    by (simp_all add: root_of_def)
qed

lemma segments_nonempty: "list_all (\<lambda>w. w \<noteq> []) (SplitTargetSegments target)"
  using segment_chars by (force simp: list_all_iff)

lemma table_ok_get_or_create [inv_intros]:
  assumes "table_ok t" "GetOrCreateRouteTableLayer method target upd t = Some t'"
    "\<And>l. layer_ok l \<Longrightarrow> layer_ok (upd l)"
  shows "table_ok t'"
proof (cases "unat method < length (entrance t)")
  case True
  then have m: "unat method < kHttpRequestMethodNum" using assms(1) by (simp add: table_ok_def)
  note root = table_ok_root [OF assms(1) m]
  let ?l = "get_or_create (SplitTargetSegments target)
      (\<lambda>l. upd (SetRouteTemplate (NormalizeRouteTemplate target)
        (SetParamNames (ExtractParamNames target) l))) (root_of method t)"
  have "layer_ok ?l"
    using root(2) segments_nonempty
    by (rule layer_ok_get_or_create) (simp add: assms(3) SetRouteTemplate_def SetParamNames_def)
  moreover have "t' = t\<lparr>entrance := (entrance t)[unat method := Some ?l]\<rparr>"
    using assms(2) root(1) by (simp add: GetOrCreateRouteTableLayer_def)
  ultimately show ?thesis
    using assms(1) by (auto simp: table_ok_def dest!: set_update_subset_insert [THEN subsetD])
next
  case False
  then show ?thesis
    using assms(1,2)
    by (auto simp: GetOrCreateRouteTableLayer_def list_update_beyond split: option.splits)
qed

section \<open>Matching over the abstraction\<close>

text \<open>
  The path chosen for a list of decoded segments, the segments it consumed, and the values bound
  to parameter edges: an existing static edge first, then, unless the node is exclusive, the
  parameter edge. The choice is never revised.
\<close>

fun spec_walk ::
  "(path \<Rightarrow> ('h, 'a) layer_data option) \<Rightarrow> path \<Rightarrow> string list
    \<Rightarrow> (path \<times> string list \<times> string list) option" where
  "spec_walk m p [] = Some (p, [], [])"
| "spec_walk m p (seg # segs) =
     (if seg = [] then spec_walk m p segs
      else if m (p @ [Static seg]) \<noteq> None then
        map_option (\<lambda>(q, used, vs). (q, seg # used, vs)) (spec_walk m (p @ [Static seg]) segs)
      else if (case m p of Some d \<Rightarrow> ignore_default_route d | None \<Rightarrow> False) then
        Some (p, [], [])
      else if m (p @ [Param]) \<noteq> None then
        map_option (\<lambda>(q, used, vs). (q, seg # used, seg # vs)) (spec_walk m (p @ [Param]) segs)
      else None)"

definition inherited :: "(path \<Rightarrow> ('h, 'a) layer_data option) \<Rightarrow> path \<Rightarrow> 'a list" where
  "inherited m p = concat (map (\<lambda>q. case m q of Some d \<Rightarrow> aspects d | None \<Rightarrow> []) (prefixes p))"

definition spec_route ::
  "(path \<Rightarrow> ('h, 'a) layer_data option) \<Rightarrow> string list \<Rightarrow> HttpRequestMethod
    \<Rightarrow> ('h, 'a) HttpRouteTable \<Rightarrow> ('h, 'a) HttpRouteResultInternal" where
  "spec_route m segs method t =
     (case spec_walk m [] segs of
        None \<Rightarrow> BuildDefaultRouteResultInternal t
      | Some (q, used, vs) \<Rightarrow>
          (case m q of
             None \<Rightarrow> BuildDefaultRouteResultInternal t
           | Some d \<Rightarrow>
               (case handler d of
                  None \<Rightarrow> BuildDefaultRouteResultInternal t
                | Some h \<Rightarrow>
                    \<lparr>r_current_location = (if used = [] then ''/'' else join_segments used),
                     r_route_template = route_template d,
                     r_parameters = fold (\<lambda>(k, v) m. emplace k v m) (zip (param_names d) vs) [],
                     r_aspects = global_aspects t @ global_specific_aspects t ! unat method
                                 @ inherited m q @ terminal_aspects d,
                     r_handler = Some h,
                     r_max_body_size = or_default (max_body_size d) (default_max_body_size t),
                     r_read_expiry = or_default (read_expiry d) (default_read_expiry t),
                     r_write_expiry = or_default (write_expiry d) (default_write_expiry t)\<rparr>)))"

lemma layer_at_append:
  "layer_at (p @ q) l = (case layer_at p l of None \<Rightarrow> None | Some c \<Rightarrow> layer_at q c)"
  by (induction p arbitrary: l) (auto split: option.splits)

lemma data_at_snoc:
  assumes "layer_at p root = Some l"
  shows "layer_at (p @ [e]) root = child e l" "data_at root (p @ [e]) = map_option ldata (child e l)"
  using assms by (simp_all add: layer_at_append data_at_def split: option.splits)

lemma inherited_snoc:
  assumes "layer_at p root = Some l" "child e l = Some c"
  shows "inherited (data_at root) (p @ [e]) = inherited (data_at root) p @ aspects (ldata c)"
  using data_at_snoc(2) [OF assms(1), of e] assms(2) by (simp add: inherited_def prefixes_snoc)

lemma join_segments_Cons [simp]: "join_segments (s # ss) = CHR ''/'' # s @ join_segments ss"
  by (simp add: join_segments_def)

lemma match_loop_refines:
  assumes "layer_at p root = Some l"
    "concat (map (\<lambda>l. aspects (ldata l)) ms) = inherited (data_at root) p"
  shows "case spec_walk (data_at root) p segs of
      None \<Rightarrow> match_loop segs l loc vals ms = None
    | Some (q, used, vs) \<Rightarrow>
        (\<exists>l' ms'. match_loop segs l loc vals ms = Some (l', loc @ join_segments used, vals @ vs, ms') \<and>
          layer_at q root = Some l' \<and>
          concat (map (\<lambda>l. aspects (ldata l)) ms') = inherited (data_at root) q)"
  using assms
proof (induction segs arbitrary: p l loc vals ms)
  case Nil
  then show ?case by (simp add: join_segments_def)
next
  case (Cons seg segs)
  have d: "data_at root p = Some (ldata l)" using Cons.prems by (simp add: data_at_def)
  note s = data_at_snoc [OF Cons.prems(1)]
  show ?case
  proof (cases "seg = []")
    case False
    show ?thesis
    proof (cases "child (Static seg) l")
      case (Some c)
      note IH = Cons.IH [of "p @ [Static seg]" c "ms @ [c]" "loc @ CHR ''/'' # seg" vals]
      show ?thesis
        using IH Cons.prems Some False s [of "Static seg"]
          inherited_snoc [OF Cons.prems(1) Some]
        by (auto split: option.splits)
    next
      case None
      show ?thesis
      proof (cases "ignore_default_route (ldata l) \<or> child Param l = None")
        case True
        then show ?thesis
          using None False d s [of "Static seg"] s [of Param] Cons.prems
          by (auto simp: join_segments_def split: option.splits)
      next
        case nd: False
        then obtain c where c: "child Param l = Some c" by auto
        note IH = Cons.IH [of "p @ [Param]" c "ms @ [c]" "loc @ CHR ''/'' # seg" "vals @ [seg]"]
        show ?thesis
          using IH Cons.prems None c nd False d s [of "Static seg"] s [of Param]
            inherited_snoc [OF Cons.prems(1) c]
          by (auto split: option.splits)
      qed
    qed
  next
    case True
    then show ?thesis using Cons.IH [OF Cons.prems, of loc vals] by (auto split: option.splits)
  qed
qed

lemma BuildParameterMap_eq:
  "BuildParameterMap l vs = fold (\<lambda>(k, v) m. emplace k v m) (zip (param_names (ldata l)) vs) []"
proof -
  have "zip ns vs = map (\<lambda>i. (ns ! i, vs ! i)) [0..<min (length ns) (length vs)]" for ns :: "string list"
    by (rule nth_equalityI) auto
  then show ?thesis
    by (simp add: BuildParameterMap_def fold_map comp_def)
qed

lemma RouteInternal_refines:
  assumes "table_ok t" "unat method < kHttpRequestMethodNum" "parse target = Some segs"
  shows "RouteInternal parse method target t
    = spec_route (data_at (root_of method t)) segs method t"
proof -
  note root = table_ok_root(1) [OF assms(1,2)]
  have len: "unat method < length (entrance t)" "unat method < length (global_specific_aspects t)"
    using assms(1,2) by (simp_all add: table_ok_def)
  let ?m = "data_at (root_of method t)"
  have top: "concat (map (\<lambda>l. aspects (ldata l)) [root_of method t]) = inherited ?m []"
    by (simp add: inherited_def layer_simps)
  have ref: "case spec_walk ?m [] segs of
      None \<Rightarrow> match_loop segs (root_of method t) [] [] [root_of method t] = None
    | Some (q, used, vs) \<Rightarrow>
        (\<exists>l' ms'. match_loop segs (root_of method t) [] [] [root_of method t]
            = Some (l', join_segments used, vs, ms') \<and>
          layer_at q (root_of method t) = Some l' \<and>
          concat (map (\<lambda>l. aspects (ldata l)) ms') = inherited ?m q)"
    using match_loop_refines [OF _ top, where segs = segs and loc = "[]" and vals = "[]"]
    by (simp split: option.splits prod.splits)
  show ?thesis
  proof (cases "spec_walk ?m [] segs")
    case None
    then show ?thesis
      using ref len root assms(3)
      by (simp add: RouteInternal_def MatchSegments_def spec_route_def)
  next
    case (Some w)
    obtain q used vs where w: "w = (q, used, vs)" by (cases w)
    from ref Some w obtain l' ms' where
      "match_loop segs (root_of method t) [] [] [root_of method t]
        = Some (l', join_segments used, vs, ms')"
      "layer_at q (root_of method t) = Some l'"
      "concat (map (\<lambda>l. aspects (ldata l)) ms') = inherited ?m q" by auto
    moreover have "join_segments used = [] \<longleftrightarrow> used = []" by (cases used) (simp_all add: join_segments_def)
    ultimately show ?thesis
      using Some w len root assms(3)
      by (auto simp: RouteInternal_def MatchSegments_def spec_route_def data_at_def
          CollectAspects_def BuildParameterMap_eq split: option.splits)
  qed
qed

section \<open>Registrations over the abstraction\<close>

definition stamp :: "string \<Rightarrow> ('h, 'a) layer_data \<Rightarrow> ('h, 'a) layer_data" where
  "stamp target d =
     d\<lparr>param_names := ExtractParamNames target, route_template := NormalizeRouteTemplate target\<rparr>"

abbreviation target_path :: "string \<Rightarrow> path" where
  "target_path target \<equiv> edges_of (SplitTargetSegments target)"

lemma GetOrCreate_refines:
  assumes "table_ok t" "unat method < kHttpRequestMethodNum" "\<And>l. upd l = map_data g l"
  obtains t' where "GetOrCreateRouteTableLayer method target upd t = Some t'"
    "table_ok t'"
    "data_at (root_of method t')
      = spec_register (target_path target) (g \<circ> stamp target) new_data (data_at (root_of method t))"
    "\<And>m'. m' \<noteq> method \<Longrightarrow> root_of m' t' = root_of m' t"
    "t' = t\<lparr>entrance := entrance t'\<rparr>"
proof -
  note root = table_ok_root(1) [OF assms(1,2)]
  have upd: "(\<lambda>l. upd (SetRouteTemplate (NormalizeRouteTemplate target)
      (SetParamNames (ExtractParamNames target) l))) = map_data (g \<circ> stamp target)"
    by (auto simp: fun_eq_iff assms(3) SetRouteTemplate_def SetParamNames_def layer_simps
        stamp_def intro!: arg_cong2 [where f = map_data])
  let ?l = "get_or_create (SplitTargetSegments target) (map_data (g \<circ> stamp target)) (root_of method t)"
  let ?t = "t\<lparr>entrance := (entrance t)[unat method := Some ?l]\<rparr>"
  have eq: "GetOrCreateRouteTableLayer method target upd t = Some ?t"
    using root by (simp add: GetOrCreateRouteTableLayer_def upd)
  have r: "root_of method ?t = ?l"
    using assms(1,2) by (simp add: root_of_def table_ok_def)
  show thesis
  proof (rule that [OF eq])
    show "table_ok ?t"
      by (rule table_ok_get_or_create [OF assms(1) eq]) (simp add: assms(3))
    show "data_at (root_of method ?t)
      = spec_register (target_path target) (g \<circ> stamp target) new_data (data_at (root_of method t))"
      unfolding r by (rule rtree.lookup_register [OF segments_nonempty])
    show "root_of m' ?t = root_of m' t" if "m' \<noteq> method" for m'
    proof -
      have "unat m' \<noteq> unat method" using that unsigned_word_eqI by blast
      then show ?thesis by (simp add: root_of_def)
    qed
  qed simp
qed

lemma SetHandler_map_data:
  "snd (SetHandler h l) = map_data (\<lambda>d. if h = None then d else d\<lparr>handler := h\<rparr>) l"
  by (cases h) (auto simp: SetHandler_def map_data_def)

lemma op_success:
  assumes "(if unat method \<ge> kHttpRequestMethodNum \<or> \<not> IsValidParametricTarget target then (False, t)
      else case GetOrCreateRouteTableLayer method target upd t of
             None \<Rightarrow> (False, t) | Some t' \<Rightarrow> (True, t')) = (True, t')"
  shows "unat method < kHttpRequestMethodNum" "IsValidParametricTarget target"
    "GetOrCreateRouteTableLayer method target upd t = Some t'"
  using assms by (auto split: if_splits option.splits)

lemma op_refines:
  assumes "(if unat method \<ge> kHttpRequestMethodNum \<or> \<not> IsValidParametricTarget target then (False, t)
      else case GetOrCreateRouteTableLayer method target upd t of
             None \<Rightarrow> (False, t) | Some t' \<Rightarrow> (True, t')) = (True, t')"
    "table_ok t" "\<And>l. upd l = map_data g l"
  shows "unat method < kHttpRequestMethodNum" "table_ok t'"
    "data_at (root_of method t')
      = spec_register (target_path target) (g \<circ> stamp target) new_data (data_at (root_of method t))"
    "t' = t\<lparr>entrance := entrance t'\<rparr>"
  using op_success [OF assms(1)] GetOrCreate_refines [OF assms(2) op_success(1) [OF assms(1)] assms(3)]
  by (metis option.inject)+

text \<open>
  A request instantiates a registered path when the static edges agree and, at each parameter
  edge, no static sibling claims the segment and the node is not exclusive. \<open>bound_values\<close> are
  the segments at the parameter edges.
\<close>

fun unshadowed ::
  "(path \<Rightarrow> ('h, 'a) layer_data option) \<Rightarrow> path \<Rightarrow> path \<Rightarrow> string list \<Rightarrow> bool" where
  "unshadowed m p [] segs \<longleftrightarrow> segs = []"
| "unshadowed m p (e # es) [] \<longleftrightarrow> False"
| "unshadowed m p (Static w # es) (s # segs) \<longleftrightarrow> s = w \<and> unshadowed m (p @ [Static w]) es segs"
| "unshadowed m p (Param # es) (s # segs) \<longleftrightarrow>
     m (p @ [Static s]) = None \<and>
     (case m p of Some d \<Rightarrow> \<not> ignore_default_route d | None \<Rightarrow> True) \<and>
     unshadowed m (p @ [Param]) es segs"

fun bound_values :: "path \<Rightarrow> string list \<Rightarrow> string list" where
  "bound_values (Static w # es) (s # segs) = bound_values es segs"
| "bound_values (Param # es) (s # segs) = s # bound_values es segs"
| "bound_values _ _ = []"

lemma spec_walk_filter: "spec_walk m p (filter (\<lambda>s. s \<noteq> []) segs) = spec_walk m p segs"
  by (induction segs arbitrary: p) auto

lemma spec_register_prefix:
  "p \<noteq> es \<Longrightarrow> prefix p es \<Longrightarrow>
    spec_register es g fresh m p = Some (case m p of Some d \<Rightarrow> d | None \<Rightarrow> fresh)"
  by (simp add: spec_register_def)

lemma spec_register_off:
  "\<not> prefix p es \<Longrightarrow> spec_register es g fresh m p = m p"
  by (auto simp: spec_register_def Let_def)

lemma spec_register_defined:
  "prefix p es \<Longrightarrow> spec_register es g fresh m p \<noteq> None"
  by (simp add: spec_register_def Let_def)

lemma ignore_new_data [simp]: "ignore_default_route new_data = False"
  by (simp add: new_data_def)

lemma spec_walk_registered:
  assumes "unshadowed m p es segs" "list_all (\<lambda>s. s \<noteq> []) segs"
  shows "spec_walk (spec_register (p @ es) g new_data m) p (segs @ rest)
    = map_option (\<lambda>(q, used, vs). (q, segs @ used, bound_values es segs @ vs))
        (spec_walk (spec_register (p @ es) g new_data m) (p @ es) rest)"
  using assms
proof (induction m p es segs rule: unshadowed.induct)
  case (1 m p segs)
  then show ?case by (simp add: option.map_ident split_def)
next
  case (3 m p w es s segs)
  have "spec_register (p @ Static w # es) g new_data m (p @ [Static w]) \<noteq> None"
    by (rule spec_register_defined) simp
  then show ?case
    using 3 by (auto simp: option.map_comp comp_def split_def)
next
  case (4 m p es s segs)
  let ?m = "spec_register (p @ Param # es) g new_data m"
  have "?m (p @ [Static s]) = None"
    using 4 by (subst spec_register_off) auto
  moreover have "?m (p @ [Param]) \<noteq> None"
    by (rule spec_register_defined) simp
  moreover have "?m p = Some (case m p of Some d \<Rightarrow> d | None \<Rightarrow> new_data)"
    by (rule spec_register_prefix) auto
  ultimately show ?case
    using 4 by (auto simp: option.map_comp comp_def split_def split: option.splits)
qed simp

lemma list_all_filter_nonempty: "list_all (\<lambda>s. s \<noteq> []) (filter (\<lambda>s. s \<noteq> []) segs)"
  by (simp add: list_all_iff)

lemma map_of_fold_emplace: "map_of (fold (\<lambda>(k, v) m. emplace k v m) kvs []) = map_of kvs"
  by (simp add: fun_eq_iff fold_emplace_map_of)

lemma spec_walk_extends: "spec_walk m p segs = Some (q, used, vs) \<Longrightarrow> prefix p q"
  by (induction segs arbitrary: p q used vs)
     (fastforce split: if_splits option.splits dest: append_prefixD)+

lemma data_at_prefix_closed: "data_at l q \<noteq> None \<Longrightarrow> prefix p q \<Longrightarrow> data_at l p \<noteq> None"
  by (auto simp: data_at_def prefix_def layer_at_append split: option.splits)

lemma spec_register_None: "spec_register es g fresh m p = None \<Longrightarrow> m p = None"
  by (auto simp: spec_register_def Let_def split: if_splits)

lemma spec_register_ignore:
  assumes "spec_register es g fresh m p = Some d" "m p = Some d0"
    "\<And>d. ignore_default_route (g d) = ignore_default_route d"
  shows "ignore_default_route d = ignore_default_route d0"
  using assms by (auto simp: spec_register_def Let_def split: if_splits)

text \<open>
  A walk that ends in a node the tree had before a registration is the walk the tree gave before.
\<close>

lemma spec_walk_stable:
  assumes "\<And>d. ignore_default_route (g d) = ignore_default_route d"
    "\<And>p q. m q \<noteq> None \<Longrightarrow> prefix p q \<Longrightarrow> m p \<noteq> None"
    "spec_walk (spec_register es g fresh m) p segs = Some (q, used, vs)" "m q \<noteq> None"
  shows "spec_walk m p segs = Some (q, used, vs)"
  using assms(3,4)
proof (induction segs arbitrary: p q used vs)
  case (Cons seg segs)
  let ?m = "spec_register es g fresh m"
  have old: "m p' \<noteq> None" if "prefix p' q" for p'
    using assms(2) Cons.prems(2) that by blast
  have p: "prefix p q" using spec_walk_extends Cons.prems(1) by blast
  consider "seg = []" | (st) "seg \<noteq> []" "?m (p @ [Static seg]) \<noteq> None"
    | (ign) "seg \<noteq> []" "?m (p @ [Static seg]) = None"
      "case ?m p of Some d \<Rightarrow> ignore_default_route d | None \<Rightarrow> False"
    | (par) "seg \<noteq> []" "?m (p @ [Static seg]) = None"
      "\<not> (case ?m p of Some d \<Rightarrow> ignore_default_route d | None \<Rightarrow> False)" by blast
  then show ?case
  proof cases
    case 1
    then show ?thesis using Cons by simp
  next
    case st
    with Cons.prems obtain u where u: "spec_walk ?m (p @ [Static seg]) segs = Some (q, u, vs)"
      "used = seg # u" by auto
    then have "m (p @ [Static seg]) \<noteq> None" using old spec_walk_extends by blast
    then show ?thesis using st u Cons.IH [OF u(1) Cons.prems(2)] by simp
  next
    case ign
    then obtain d d0 where d: "?m p = Some d" "ignore_default_route d" "m p = Some d0"
      using old [OF p] by (auto split: option.splits)
    then have "ignore_default_route d0" using spec_register_ignore [OF d(1,3) assms(1)] by simp
    then show ?thesis
      using ign d Cons.prems spec_register_None [OF ign(2)] by auto
  next
    case par
    obtain d0 where d0: "m p = Some d0" using old [OF p] by auto
    have "\<not> ignore_default_route d0"
      using par(3) d0 spec_register_ignore [where g = g and m = m and p = p and es = es, OF _ d0 assms(1)]
        spec_register_None [of es g fresh m p]
      by (auto split: option.splits)
    moreover from par Cons.prems obtain u v where
      u: "spec_walk ?m (p @ [Param]) segs = Some (q, u, v)" "used = seg # u" "vs = seg # v"
      by (auto split: if_splits)
    moreover from u have "m (p @ [Param]) \<noteq> None" using old spec_walk_extends by blast
    ultimately show ?thesis
      using par d0 spec_register_None [OF par(2)] Cons.IH [OF u(1) Cons.prems(2)] by simp
  qed
qed simp

lemma inherited_spec_register:
  assumes "\<And>d. aspects (g d) = aspects d"
  shows "inherited (spec_register es g new_data m) q = inherited m q"
proof -
  have "(case spec_register es g new_data m p of None \<Rightarrow> [] | Some d \<Rightarrow> aspects d)
      = (case m p of None \<Rightarrow> [] | Some d \<Rightarrow> aspects d)" for p
    using assms by (auto simp: spec_register_def Let_def new_data_def split: option.splits)
  then show ?thesis by (simp add: inherited_def)
qed

lemma inherited_append:
  "\<exists>below. inherited m (p @ q) = inherited m p @ below"
proof (induction q rule: rev_induct)
  case (snoc e q)
  then obtain below where "inherited m (p @ q) = inherited m p @ below" by blast
  moreover have "inherited m (p @ q @ [e])
      = inherited m (p @ q) @ (case m (p @ q @ [e]) of None \<Rightarrow> [] | Some d \<Rightarrow> aspects d)"
    using prefixes_snoc [of "p @ q" e] by (simp add: inherited_def)
  ultimately show ?case by auto
qed simp

lemma inherited_register_at:
  assumes "\<And>d. aspects (g d) = aspects d @ [a]"
  shows "inherited (spec_register p g new_data m) p = inherited m p @ [a]"
proof (cases p rule: rev_exhaust)
  case Nil
  then show ?thesis
    using assms by (simp add: inherited_def spec_register_def new_data_def split: option.splits)
next
  case (snoc p' e)
  have "(case spec_register p g new_data m r of None \<Rightarrow> [] | Some d \<Rightarrow> aspects d)
      = (case m r of None \<Rightarrow> [] | Some d \<Rightarrow> aspects d)" if "r \<in> set (prefixes p')" for r
  proof -
    have "r \<noteq> p" using that snoc by auto
    then show ?thesis by (auto simp: spec_register_def Let_def new_data_def split: option.splits)
  qed
  then have "concat (map (\<lambda>q. case spec_register p g new_data m q of None \<Rightarrow> [] | Some d \<Rightarrow> aspects d)
      (prefixes p')) = concat (map (\<lambda>q. case m q of None \<Rightarrow> [] | Some d \<Rightarrow> aspects d) (prefixes p'))"
    by (metis (mono_tags, lifting) map_cong)
  moreover have "(case spec_register p g new_data m p of None \<Rightarrow> [] | Some d \<Rightarrow> aspects d)
      = (case m p of None \<Rightarrow> [] | Some d \<Rightarrow> aspects d) @ [a]"
    using assms by (simp add: spec_register_def new_data_def split: option.splits)
  ultimately show ?thesis
    unfolding inherited_def snoc prefixes_snoc by (simp add: snoc)
qed

lemma registered_route_result:
  assumes "table_ok t" "AddRouteEntry method target (Some h) t = (True, t')"
    "parse request = Some segs" "ss = filter (\<lambda>s. s \<noteq> []) segs"
    "unshadowed (data_at (root_of method t)) [] (target_path target) ss"
    "r = RouteInternal parse method request t'"
  shows "r_handler r = Some h \<and> r_route_template r = NormalizeRouteTemplate target \<and>
    r_current_location r = (if ss = [] then ''/'' else join_segments ss) \<and>
    map_of (r_parameters r)
      = map_of (zip (ExtractParamNames target) (bound_values (target_path target) ss))"
proof -
  note op = op_refines [OF assms(2) [unfolded AddRouteEntry_def] assms(1) SetHandler_map_data, simplified]
  let ?m = "data_at (root_of method t')"
  have ne: "list_all (\<lambda>s. s \<noteq> []) ss"
    unfolding assms(4) by (rule list_all_filter_nonempty)
  have "spec_walk ?m [] ss = Some (target_path target, ss, bound_values (target_path target) ss)"
    using spec_walk_registered [OF assms(5) ne, where rest = "[]"] by (simp add: op(3))
  then have w: "spec_walk ?m [] segs
      = Some (target_path target, ss, bound_values (target_path target) ss)"
    by (simp add: assms(4) spec_walk_filter)
  obtain d where d: "?m (target_path target) = Some (stamp target d\<lparr>handler := Some h\<rparr>)"
    by (simp add: op(3) spec_register_def Let_def)
  have R: "r = spec_route ?m segs method t'"
    using assms(6) RouteInternal_refines [where parse = parse and target = request, OF op(2,1) assms(3)]
    by simp
  show ?thesis
    by (simp add: R spec_route_def w d stamp_def map_of_fold_emplace)
qed

lemma unshadowed_length: "unshadowed m p es ss \<Longrightarrow> length ss = length es"
  by (induction m p es ss rule: unshadowed.induct) auto

lemma bound_values_params:
  assumes "length ss = length words"
    "\<forall>w\<in>set words. IsParameterSegment w \<longrightarrow> ExtractParamName w \<noteq> []"
  shows "zip (filter (\<lambda>n. n \<noteq> []) (map ExtractParamName words)) (bound_values (edges_of words) ss)
      = map (\<lambda>(w, s). (ExtractParamName w, s)) (filter (\<lambda>(w, s). IsParameterSegment w) (zip words ss))"
  using assms
proof (induction words arbitrary: ss)
  case (Cons w words)
  obtain s ss' where ss: "ss = s # ss'"
    using Cons.prems(1) by (cases ss) auto
  have "\<not> IsParameterSegment w \<Longrightarrow> ExtractParamName w = []" by (simp add: ExtractParamName_def)
  then show ?case
    using Cons ss by (auto simp: edges_of_def edge_of_def)
qed simp

lemma map_of_filter_zip:
  assumes "i < length words" "length ss = length words" "P (words ! i)"
    "distinct (map f (filter P words))"
  shows "map_of (map (\<lambda>(w, s). (f w, s)) (filter (\<lambda>(w, s). P w) (zip words ss))) (f (words ! i))
    = Some (ss ! i)"
  using assms
proof (induction words arbitrary: ss i)
  case (Cons w words)
  obtain s ss' where ss: "ss = s # ss'" using Cons.prems by (cases ss) auto
  show ?case
  proof (cases i)
    case (Suc j)
    then have "f (words ! j) \<in> f ` set (filter P words)" using Cons.prems by auto
    then have "P w \<Longrightarrow> f w \<noteq> f (words ! j)" using Cons.prems(4) by auto
    moreover have "distinct (map f (filter P words))"
      using Cons.prems(4) by (simp split: if_splits)
    ultimately show ?thesis using Cons.IH [of j ss'] Cons.prems(1-3) ss Suc by auto
  qed (use Cons.prems ss in simp)
qed simp

section \<open>Properties\<close>

text \<open>
  (C1) Matching refines the description that reads nothing but the node data by path: two
  well-formed tables with the same abstraction and the same table-wide settings answer every
  request alike. The static edge is preferred at each depth, the parameter edge is the fallback,
  an exclusive node ends the walk, aspects come in the order global, method, root to leaf,
  terminal, and zero limits mean the table's defaults.
\<close>

theorem RouteInternal_refines_spec:
  assumes "table_ok t" "unat method < kHttpRequestMethodNum" "parse target = Some segs"
  shows "RouteInternal parse method target t
    = spec_route (data_at (root_of method t)) segs method t"
  using assms by (rule RouteInternal_refines)

theorem RouteInternal_refines_spec_witness:
  "let t = snd (AddRouteEntry kGet ''/a'' (Some 7) (new_HttpRouteTable 0)) :: (nat, nat) HttpRouteTable
   in RouteInternal (\<lambda>_. Some [''a'']) kGet ''/a'' t
     = spec_route (data_at (root_of kGet t)) [''a''] kGet t"
  unfolding Let_def by (rule RouteInternal_refines_spec) code_simp+

text \<open>
  (C17) A route that was just registered is the one that answers: for every request whose
  segments instantiate its target (without a static sibling or an exclusive node in the way), the
  result carries its handler and its template, the location is the request path, and each of
  its parameter names is bound to the segment at its position.
\<close>

theorem registered_route_is_reached:
  assumes "table_ok t" "AddRouteEntry method target (Some h) t = (True, t')"
    "parse request = Some segs" "ss = filter (\<lambda>s. s \<noteq> []) segs"
    "unshadowed (data_at (root_of method t)) [] (target_path target) ss"
    "r = RouteInternal parse method request t'"
  shows "r_handler r = Some h \<and> r_route_template r = NormalizeRouteTemplate target \<and>
    r_current_location r = (if ss = [] then ''/'' else join_segments ss) \<and>
    map_of (r_parameters r)
      = map_of (zip (ExtractParamNames target) (bound_values (target_path target) ss))"
  using assms by (rule registered_route_result)

theorem registered_route_is_reached_witness:
  "let t = new_HttpRouteTable 0 :: (nat, nat) HttpRouteTable;
       t' = snd (AddRouteEntry kGet ''/users/{id}'' (Some 7) t);
       r = RouteInternal (\<lambda>_. Some [''users'', [], ''42'']) kGet ''/users//42'' t'
   in r_handler r = Some 7 \<and> map_of (r_parameters r) ''id'' = Some ''42''"
proof -
  let ?t = "new_HttpRouteTable 0 :: (nat, nat) HttpRouteTable"
  have "AddRouteEntry kGet ''/users/{id}'' (Some 7) ?t
      = (True, snd (AddRouteEntry kGet ''/users/{id}'' (Some 7) ?t))" by code_simp
  moreover have "unshadowed (data_at (root_of kGet ?t)) [] (target_path ''/users/{id}'')
      (filter (\<lambda>s. s \<noteq> []) [''users'', [], ''42''])" by code_simp
  moreover have "map_of (zip (ExtractParamNames ''/users/{id}'')
      (bound_values (target_path ''/users/{id}'')
        (filter (\<lambda>s. s \<noteq> []) [''users'', [], ''42'']))) ''id'' = Some ''42''" by code_simp
  ultimately show ?thesis
    using registered_route_is_reached [OF table_ok_new _ _ refl _ refl,
        of kGet "''/users/{id}''" 7 0 _ "\<lambda>_. Some [''users'', [], ''42'']"]
    unfolding Let_def by metis
qed

text \<open>
  When the parameters of a target are all named and named apart, each name is bound to the
  request segment at the very position where the target declares it.
\<close>

theorem parameter_bound_to_its_segment:
  assumes "table_ok t" "AddRouteEntry method target (Some h) t = (True, t')"
    "parse request = Some segs" "ss = filter (\<lambda>s. s \<noteq> []) segs"
    "unshadowed (data_at (root_of method t)) [] (target_path target) ss"
    "words = SplitTargetSegments target" "i < length words" "IsParameterSegment (words ! i)"
    "\<forall>w\<in>set words. IsParameterSegment w \<longrightarrow> ExtractParamName w \<noteq> []"
    "distinct (map ExtractParamName (filter IsParameterSegment words))"
  shows "map_of (r_parameters (RouteInternal parse method request t')) (ExtractParamName (words ! i))
    = Some (ss ! i)"
proof -
  have len: "length ss = length words"
    using unshadowed_length [OF assms(5)] by (simp add: assms(6) edges_of_def)
  have "map_of (r_parameters (RouteInternal parse method request t'))
      = map_of (zip (ExtractParamNames target) (bound_values (target_path target) ss))"
    using registered_route_result [OF assms(1,2) _ assms(4,5) refl] assms(3) by blast
  also have "\<dots> = map_of (map (\<lambda>(w, s). (ExtractParamName w, s))
      (filter (\<lambda>(w, s). IsParameterSegment w) (zip words ss)))"
    using bound_values_params [OF len assms(9)] by (simp add: ExtractParamNames_def assms(6))
  finally show ?thesis
    using map_of_filter_zip [OF assms(7) len assms(8,10)] by simp
qed

theorem parameter_bound_to_its_segment_witness:
  "map_of (r_parameters (RouteInternal (\<lambda>_. Some [''u'', ''7'', ''p'', ''9'']) kGet ''/u/7/p/9''
      (snd (AddRouteEntry kGet ''/u/{uid}/p/{pid}'' (Some 1)
        (new_HttpRouteTable 0 :: (nat, nat) HttpRouteTable))))) ''pid'' = Some ''9''"
proof -
  let ?t = "new_HttpRouteTable 0 :: (nat, nat) HttpRouteTable"
  let ?w = "SplitTargetSegments ''/u/{uid}/p/{pid}''"
  let ?ss = "filter (\<lambda>s. s \<noteq> []) [''u'', ''7'', ''p'', ''9'']"
  have "AddRouteEntry kGet ''/u/{uid}/p/{pid}'' (Some 1) ?t
      = (True, snd (AddRouteEntry kGet ''/u/{uid}/p/{pid}'' (Some 1) ?t))"
    "unshadowed (data_at (root_of kGet ?t)) [] (target_path ''/u/{uid}/p/{pid}'') ?ss"
    "3 < length ?w" "IsParameterSegment (?w ! 3)"
    "\<forall>w\<in>set ?w. IsParameterSegment w \<longrightarrow> ExtractParamName w \<noteq> []"
    "distinct (map ExtractParamName (filter IsParameterSegment ?w))"
    by code_simp+
  note w = parameter_bound_to_its_segment
    [where parse = "\<lambda>_. Some [''u'', ''7'', ''p'', ''9'']" and request = "''/u/7/p/9''",
      OF table_ok_new this(1) refl refl this(2) refl this(3-6)]
  have "ExtractParamName (?w ! 3) = ''pid''" "?ss ! 3 = ''9''" by code_simp+
  with w show ?thesis by simp
qed

text \<open>
  An exclusive route answers everything below it that no static child claims, whatever
  follows in the request path.
\<close>

theorem exclusive_route_captures_subtree:
  assumes "table_ok t" "AddExclusiveRouteEntry method target (Some h) t = (True, t')"
    "parse request = Some segs" "filter (\<lambda>s. s \<noteq> []) segs = ss @ x # rest"
    "unshadowed (data_at (root_of method t)) [] (target_path target) ss"
    "data_at (root_of method t) (target_path target @ [Static x]) = None"
    "r = RouteInternal parse method request t'"
  shows "r_handler r = Some h \<and>
    r_current_location r = (if ss = [] then ''/'' else join_segments ss)"
proof -
  have upd: "SetIgnoreDefaultRoute True (snd (SetHandler (Some h) l))
      = map_data (\<lambda>d. d\<lparr>handler := Some h, ignore_default_route := True\<rparr>) l" for l :: "('a, 'b) layer"
    by (simp add: SetIgnoreDefaultRoute_def SetHandler_def map_data_def)
  note op = op_refines [OF assms(2) [unfolded AddExclusiveRouteEntry_def] assms(1) upd]
  let ?m = "data_at (root_of method t')"
  have ne: "list_all (\<lambda>s. s \<noteq> []) ss" "x \<noteq> []"
    using list_all_filter_nonempty [of segs] assms(4) by auto
  obtain d where d: "?m (target_path target)
      = Some (stamp target d\<lparr>handler := Some h, ignore_default_route := True\<rparr>)"
    by (simp add: op(3) spec_register_def Let_def)
  have "?m (target_path target @ [Static x]) = None"
    using assms(6) by (simp add: op(3) spec_register_off)
  then have "spec_walk ?m (target_path target) (x # rest) = Some (target_path target, [], [])"
    using ne d by simp
  then have "spec_walk ?m [] (ss @ x # rest)
      = Some (target_path target, ss, bound_values (target_path target) ss)"
    using spec_walk_registered [OF assms(5) ne(1), where rest = "x # rest"] by (simp add: op(3))
  then have w: "spec_walk ?m [] segs
      = Some (target_path target, ss, bound_values (target_path target) ss)"
    using spec_walk_filter [of ?m "[]" segs] by (simp add: assms(4))
  have R: "r = spec_route ?m segs method t'"
    using assms(7) RouteInternal_refines [where parse = parse and target = request, OF op(2,1) assms(3)]
    by simp
  show ?thesis
    by (simp add: R spec_route_def w d stamp_def)
qed

theorem exclusive_route_captures_subtree_witness:
  "let t = new_HttpRouteTable 0 :: (nat, nat) HttpRouteTable;
       t' = snd (AddExclusiveRouteEntry kGet ''/static'' (Some 7) t);
       r = RouteInternal (\<lambda>_. Some [''static'', ''css'', ''a.css'']) kGet ''/static/css/a.css'' t'
   in r_handler r = Some 7 \<and> r_current_location r = ''/static''"
proof -
  let ?t = "new_HttpRouteTable 0 :: (nat, nat) HttpRouteTable"
  have "AddExclusiveRouteEntry kGet ''/static'' (Some 7) ?t
      = (True, snd (AddExclusiveRouteEntry kGet ''/static'' (Some 7) ?t))" by code_simp
  moreover have "unshadowed (data_at (root_of kGet ?t)) [] (target_path ''/static'') [''static'']"
    "data_at (root_of kGet ?t) (target_path ''/static'' @ [Static ''css'']) = None" by code_simp+
  ultimately show ?thesis
    using exclusive_route_captures_subtree [OF table_ok_new _ _ _ _ _ refl,
        of kGet "''/static''" 7 0 _ "\<lambda>_. Some [''static'', ''css'', ''a.css'']" _
           "[''static'', ''css'', ''a.css'']" "[''static'']" "''css''" "[''a.css'']"]
    by (simp add: Let_def join_segments_def)
qed



text \<open>
  A subtree aspect registered at a target runs for every request whose walk passes through
  that node and ends in a handler: after the global aspects, the method's aspects and all aspects
  that were already inherited there, and before everything deeper and the terminal aspects.
\<close>

theorem subtree_aspect_is_inherited:
  assumes "table_ok t" "AddAspectAt method target a t = (True, t')" "parse request = Some segs"
    "spec_walk (data_at (root_of method t')) [] segs = Some (q, used, vs)"
    "q = target_path target @ deeper" "data_at (root_of method t') q = Some d" "handler d \<noteq> None"
  shows "\<exists>below. r_aspects (RouteInternal parse method request t')
    = global_aspects t @ global_specific_aspects t ! unat method
      @ inherited (data_at (root_of method t)) (target_path target) @ a # below @ terminal_aspects d"
proof -
  note op = op_refines [OF assms(2) [unfolded AddAspectAt_def] assms(1) AddAspect_def [THEN fun_cong]]
  let ?m = "data_at (root_of method t)" and ?m' = "data_at (root_of method t')"
  have g: "global_aspects t' = global_aspects t"
    "global_specific_aspects t' = global_specific_aspects t"
    by (subst op(4), simp)+
  have "inherited ?m' (target_path target) = inherited ?m (target_path target) @ [a]"
    unfolding op(3) by (rule inherited_register_at) (simp add: stamp_def)
  then obtain below where
    "inherited ?m' q = inherited ?m (target_path target) @ a # below"
    using inherited_append [of ?m' "target_path target" deeper] assms(5) by auto
  then show ?thesis
    using assms(4,6,7) g
      RouteInternal_refines [where parse = parse and target = request, OF op(2,1) assms(3)]
    by (auto simp: spec_route_def)
qed

theorem subtree_aspect_is_inherited_witness:
  "\<exists>below. r_aspects (RouteInternal (\<lambda>_. Some [''a'', ''b'']) kGet ''/a/b''
      (snd (AddAspectAt kGet ''/a'' 5
        (snd (AddRouteEntry kGet ''/a/b'' (Some 7) (new_HttpRouteTable 0)) :: (nat, nat) HttpRouteTable))))
    = 5 # below"
proof -
  let ?t = "snd (AddRouteEntry kGet ''/a/b'' (Some 7) (new_HttpRouteTable 0)) :: (nat, nat) HttpRouteTable"
  let ?t' = "snd (AddAspectAt kGet ''/a'' 5 ?t)"
  have "table_ok ?t" "AddAspectAt kGet ''/a'' 5 ?t = (True, ?t')"
    "spec_walk (data_at (root_of kGet ?t')) [] [''a'', ''b'']
      = Some ([Static ''a'', Static ''b''], [''a'', ''b''], [])"
    "[Static ''a'', Static ''b''] = target_path ''/a'' @ [Static ''b'']"
    "data_at (root_of kGet ?t') [Static ''a'', Static ''b'']
      = Some (the (data_at (root_of kGet ?t') [Static ''a'', Static ''b'']))"
    "handler (the (data_at (root_of kGet ?t') [Static ''a'', Static ''b''])) \<noteq> None"
    by code_simp+
  note w = subtree_aspect_is_inherited [where parse = "\<lambda>_. Some [''a'', ''b'']" and request = "''/a/b''",
      OF this(1,2) refl this(3-6)]
  have "global_aspects ?t @ global_specific_aspects ?t ! unat kGet
      @ inherited (data_at (root_of kGet ?t)) (target_path ''/a'') = []" by code_simp
  with w show ?thesis by (metis append_Cons append_assoc append_Nil)
qed

end
