(* ===== verification/Route_Mount.thy ===== *)
theory Route_Mount
  imports Route_Match "HOL-Library.Multiset"
begin

text \<open>
  Mounting one table below a prefix of another (\<^verbatim>\<open>route/http_route_table_mount.cc\<close>), cloning a
  tree, and the iterative teardown of a tree (\<^verbatim>\<open>route/http_route_table_registry.cc\<close>). Each tree
  operation is characterised by what it does to the map from paths to node data.
\<close>

section \<open>Templates\<close>

definition has_terminal :: "('h, 'a) layer_data \<Rightarrow> bool" where
  "has_terminal d \<longleftrightarrow>
     handler d \<noteq> None \<or> terminal_aspects d \<noteq> [] \<or> max_body_size d \<noteq> 0 \<or>
     read_expiry d \<noteq> 0 \<or> write_expiry d \<noteq> 0"

definition HasTerminalConfiguration :: "('h, 'a) layer \<Rightarrow> bool" where
  "HasTerminalConfiguration l = has_terminal (ldata l)"

definition JoinRouteTemplate :: "string \<Rightarrow> string \<Rightarrow> string" where
  "JoinRouteTemplate pre template =
     (let normalized_prefix = NormalizeRouteTemplate pre;
          normalized_route = NormalizeRouteTemplate template;
          normalized_prefix =
            (if length normalized_prefix > 1 \<and> last normalized_prefix = CHR ''/''
             then butlast normalized_prefix else normalized_prefix)
      in if normalized_prefix = ''/'' then normalized_route
         else if normalized_route = ''/'' then normalized_prefix
         else normalized_prefix @ normalized_route)"

definition prefix_data :: "string \<Rightarrow> ('h, 'a) layer_data \<Rightarrow> ('h, 'a) layer_data" where
  "prefix_data pre d =
     (if has_terminal d then d\<lparr>route_template := JoinRouteTemplate pre (route_template d)\<rparr> else d)"

fun PrefixRouteTemplates :: "string \<Rightarrow> ('h, 'a) layer \<Rightarrow> ('h, 'a) layer" where
  "PrefixRouteTemplates pre (Layer d m dr) =
     Layer (prefix_data pre d)
       (map (\<lambda>kc. (fst kc, PrefixRouteTemplates pre (snd kc))) m)
       (map_option (PrefixRouteTemplates pre) dr)"

section \<open>Merging\<close>

fun CanMergeLayer :: "('h, 'a) layer \<Rightarrow> ('h, 'a) layer \<Rightarrow> bool" where
  "CanMergeLayer dst (Layer d m dr) =
     (if has_terminal d \<and> HasTerminalConfiguration dst then False
      else if (case dr of
                 None \<Rightarrow> False
               | Some src_default \<Rightarrow>
                   (case default_route dst of
                      None \<Rightarrow> False
                    | Some dst_default \<Rightarrow> \<not> CanMergeLayer dst_default src_default)) then False
      else list_all (\<lambda>kc. case GetRoute (fst kc) dst of
                            None \<Rightarrow> True
                          | Some dst_child \<Rightarrow> CanMergeLayer dst_child (snd kc)) m)"

definition merge_data ::
  "('h, 'a) layer_data \<Rightarrow> ('h, 'a) layer_data \<Rightarrow> ('h, 'a) layer_data" where
  "merge_data dst src =
     (let dst1 = (if handler src \<noteq> None
                  then dst\<lparr>handler := handler src, param_names := param_names src,
                           route_template := route_template src\<rparr>
                  else dst);
          dst2 = dst1\<lparr>aspects := aspects dst1 @ aspects src\<rparr>;
          dst3 = (if terminal_aspects src \<noteq> []
                  then dst2\<lparr>terminal_aspects := terminal_aspects src\<rparr> else dst2);
          dst4 = (if max_body_size src \<noteq> 0
                  then dst3\<lparr>max_body_size := max_body_size src\<rparr> else dst3);
          dst5 = (if read_expiry src \<noteq> 0 then dst4\<lparr>read_expiry := read_expiry src\<rparr> else dst4);
          dst6 = (if write_expiry src \<noteq> 0 then dst5\<lparr>write_expiry := write_expiry src\<rparr> else dst5)
      in if ignore_default_route src then dst6\<lparr>ignore_default_route := True\<rparr> else dst6)"

fun MoveMergeLayer :: "('h, 'a) layer \<Rightarrow> ('h, 'a) layer \<Rightarrow> ('h, 'a) layer" where
  "MoveMergeLayer dst (Layer d m dr) =
     Layer (merge_data (ldata dst) d)
       (fold (\<lambda>kc acc. case map_of acc (fst kc) of
                          None \<Rightarrow> emplace (fst kc) (snd kc) acc
                        | Some dst_child \<Rightarrow>
                            insert_or_assign (fst kc) (MoveMergeLayer dst_child (snd kc)) acc)
          m (lmap dst))
       (case dr of
          None \<Rightarrow> default_route dst
        | Some src_default \<Rightarrow>
            (case default_route dst of
               None \<Rightarrow> Some src_default
             | Some dst_default \<Rightarrow> Some (MoveMergeLayer dst_default src_default)))"

section \<open>Cloning\<close>

text \<open>
  \<open>clone_h\<close> and \<open>clone_a\<close> are the \<^verbatim>\<open>dynamic_cast\<close> to the cloneable interface followed by
  \<^verbatim>\<open>Clone()\<close>: \<open>None\<close> for an object that does not implement it.
\<close>

definition clone_data ::
  "('h \<Rightarrow> 'h option) \<Rightarrow> ('a \<Rightarrow> 'a option) \<Rightarrow> ('h, 'a) layer_data \<Rightarrow> ('h, 'a) layer_data option" where
  "clone_data clone_h clone_a d =
     (case (case handler d of None \<Rightarrow> Some None | Some h \<Rightarrow> map_option Some (clone_h h)) of
        None \<Rightarrow> None
      | Some h \<Rightarrow>
          (case those (map clone_a (aspects d)) of
             None \<Rightarrow> None
           | Some as \<Rightarrow>
               (case those (map clone_a (terminal_aspects d)) of
                  None \<Rightarrow> None
                | Some ts \<Rightarrow> Some (d\<lparr>handler := h, aspects := as, terminal_aspects := ts\<rparr>))))"

fun CloneLayer ::
  "('h \<Rightarrow> 'h option) \<Rightarrow> ('a \<Rightarrow> 'a option) \<Rightarrow> ('h, 'a) layer \<Rightarrow> ('h, 'a) layer option" where
  "CloneLayer clone_h clone_a (Layer d m dr) =
     (case clone_data clone_h clone_a d of
        None \<Rightarrow> None
      | Some d' \<Rightarrow>
          (case (case dr of None \<Rightarrow> Some None
                 | Some c \<Rightarrow> map_option Some (CloneLayer clone_h clone_a c)) of
             None \<Rightarrow> None
           | Some dr' \<Rightarrow>
               (case those (map (\<lambda>kc. map_option (Pair (fst kc)) (CloneLayer clone_h clone_a (snd kc))) m) of
                  None \<Rightarrow> None
                | Some m' \<Rightarrow> Some (Layer d' m' dr'))))"

section \<open>Mounting\<close>

text \<open>
  The first loop of \<^verbatim>\<open>MountAt\<close>: slot by slot it prefixes the templates of the source, creates the
  mount node in the destination and tests for conflicts. Both tables come back as the loop left
  them. A null slot cannot occur in a constructed table.
\<close>

fun mount_check ::
  "string \<Rightarrow> ('h, 'a) layer option list \<Rightarrow> ('h, 'a) layer option list
    \<Rightarrow> bool \<times> ('h, 'a) layer option list \<times> ('h, 'a) layer option list" where
  "mount_check pre (Some d # ds) (Some s # ss) =
     (let s' = PrefixRouteTemplates pre s;
          words = SplitTargetSegments pre;
          d' = get_or_create words id d
      in case layer_at (edges_of words) d' of
           None \<Rightarrow> (False, Some d' # ds, Some s' # ss)
         | Some mount_root \<Rightarrow>
             if \<not> CanMergeLayer mount_root s' then (False, Some d' # ds, Some s' # ss)
             else (case mount_check pre ds ss of
                     (ok, ds', ss') \<Rightarrow> (ok, Some d' # ds', Some s' # ss')))"
| "mount_check pre [] [] = (True, [], [])"
| "mount_check pre ds ss = (False, ds, ss)"

fun mount_merge ::
  "string \<Rightarrow> ('h, 'a) layer option list \<Rightarrow> ('h, 'a) layer option list \<Rightarrow> ('h, 'a) layer option list" where
  "mount_merge pre (Some d # ds) (Some s # ss) =
     Some (get_or_create (SplitTargetSegments pre) (\<lambda>mount_root. MoveMergeLayer mount_root s) d)
       # mount_merge pre ds ss"
| "mount_merge pre ds ss = ds"

definition MountAt ::
  "string \<Rightarrow> ('h, 'a) HttpRouteTable \<Rightarrow> ('h, 'a) HttpRouteTable \<Rightarrow> bool \<times> ('h, 'a) HttpRouteTable" where
  "MountAt pre source t =
     (if \<not> IsValidParametricTarget pre then (False, t)
      else case mount_check pre (entrance t) (entrance source) of
             (ok, ds, ss) \<Rightarrow>
               if \<not> ok then (False, t\<lparr>entrance := ds\<rparr>)
               else (True, t\<lparr>entrance := mount_merge pre ds ss\<rparr>))"

definition MountAtClone ::
  "('h \<Rightarrow> 'h option) \<Rightarrow> ('a \<Rightarrow> 'a option) \<Rightarrow> 'h \<Rightarrow> string \<Rightarrow> ('h, 'a) HttpRouteTable
    \<Rightarrow> ('h, 'a) HttpRouteTable \<Rightarrow> bool \<times> ('h, 'a) HttpRouteTable" where
  "MountAtClone clone_h clone_a empty_route_handler pre source t =
     (if \<not> IsValidParametricTarget pre then (False, t)
      else case those (map (\<lambda>root. case root of
                               None \<Rightarrow> None
                             | Some l \<Rightarrow> map_option Some (CloneLayer clone_h clone_a l)) (entrance source)) of
             None \<Rightarrow> (False, t)
           | Some roots \<Rightarrow>
               MountAt pre ((new_HttpRouteTable empty_route_handler)\<lparr>entrance := roots\<rparr>) t)"

section \<open>Teardown\<close>

definition CollectChildLayers ::
  "('h, 'a) layer \<Rightarrow> ('h, 'a) layer list \<Rightarrow> ('h, 'a) layer list" where
  "CollectChildLayers l pending =
     pending @ (case default_route l of None \<Rightarrow> [] | Some c \<Rightarrow> [c]) @ map snd (lmap l)"

text \<open>The data of every node of a tree, each node once.\<close>

fun layer_nodes :: "('h, 'a) layer \<Rightarrow> ('h, 'a) layer_data list" where
  "layer_nodes (Layer d m dr) =
     d # (case dr of None \<Rightarrow> [] | Some c \<Rightarrow> layer_nodes c)
       @ concat (map (\<lambda>kc. layer_nodes (snd kc)) m)"

lemma layer_nodes_children:
  "mset (layer_nodes l) = add_mset (ldata l) (mset (concat (map layer_nodes (CollectChildLayers l []))))"
  by (cases l) (simp add: CollectChildLayers_def comp_def split: option.splits)

lemma CollectChildLayers_append: "CollectChildLayers l pending = pending @ CollectChildLayers l []"
  by (simp add: CollectChildLayers_def)

lemma pending_nodes:
  assumes "pending \<noteq> []"
  shows "mset (concat (map layer_nodes pending)) = add_mset (ldata (last pending))
    (mset (concat (map layer_nodes (CollectChildLayers (last pending) (butlast pending)))))"
proof (cases pending rule: rev_cases)
  case (snoc xs x)
  then show ?thesis
    by (simp add: layer_nodes_children [of x] CollectChildLayers_append [of x xs])
qed (use assms in simp)

function destroy_loop ::
  "('h, 'a) layer list \<Rightarrow> ('h, 'a) layer_data list \<Rightarrow> ('h, 'a) layer_data list" where
  "destroy_loop pending freed =
     (if pending = [] then freed
      else destroy_loop (CollectChildLayers (last pending) (butlast pending))
             (freed @ [ldata (last pending)]))"
  by pat_completeness auto
termination
proof (relation "measure (\<lambda>(pending, _). length (concat (map layer_nodes pending)))")
  fix pending :: "('a, 'b) layer list" and freed :: "('a, 'b) layer_data list"
  assume "pending \<noteq> []"
  then have "size (mset (concat (map layer_nodes pending))) = Suc (size (mset (concat
      (map layer_nodes (CollectChildLayers (last pending) (butlast pending))))))"
    by (simp add: pending_nodes)
  then show "((CollectChildLayers (last pending) (butlast pending), freed @ [ldata (last pending)]),
      pending, freed) \<in> measure (\<lambda>(pending, _). length (concat (map layer_nodes pending)))"
    by simp
qed simp

declare destroy_loop.simps [simp del]

definition DestroyLayerTreeIterative :: "('h, 'a) layer option \<Rightarrow> ('h, 'a) layer_data list" where
  "DestroyLayerTreeIterative root = (case root of None \<Rightarrow> [] | Some l \<Rightarrow> destroy_loop [l] [])"

lemma destroy_loop_frees:
  "mset (destroy_loop pending freed) = mset freed + mset (concat (map layer_nodes pending))"
proof (induction pending freed rule: destroy_loop.induct)
  case (1 pending freed)
  then show ?case
    by (subst destroy_loop.simps) (simp add: pending_nodes)
qed

section \<open>Effects on the abstraction\<close>

lemma map_of_map_snd: "map_of (map (\<lambda>kc. (fst kc, f (snd kc))) m) k = map_option f (map_of m k)"
  by (induction m) auto

lemma child_PrefixRouteTemplates:
  "child e (PrefixRouteTemplates pre l) = map_option (PrefixRouteTemplates pre) (child e l)"
  by (cases l; cases e) (simp_all add: GetRoute_def map_of_map_snd)

lemma ldata_PrefixRouteTemplates: "ldata (PrefixRouteTemplates pre l) = prefix_data pre (ldata l)"
  by (cases l) simp

lemma data_at_PrefixRouteTemplates:
  "data_at (PrefixRouteTemplates pre l) p = map_option (prefix_data pre) (data_at l p)"
  by (induction p arbitrary: l)
     (auto simp: layer_simps ldata_PrefixRouteTemplates child_PrefixRouteTemplates split: option.splits)

lemma layer_ok_PrefixRouteTemplates [inv_intros]:
  "layer_ok l \<Longrightarrow> layer_ok (PrefixRouteTemplates pre l)"
  by (induction pre l rule: PrefixRouteTemplates.induct)
     (auto simp: umap_ok_def comp_def split: option.splits)

definition merge_entry ::
  "('h, 'a) layer \<Rightarrow> ('h, 'a) layer option \<Rightarrow> ('h, 'a) layer" where
  "merge_entry c dst = (case dst of None \<Rightarrow> c | Some d \<Rightarrow> MoveMergeLayer d c)"

lemma map_of_merge_fold:
  assumes "umap_ok m"
  shows "map_of (fold (\<lambda>kc acc. case map_of acc (fst kc) of
                          None \<Rightarrow> emplace (fst kc) (snd kc) acc
                        | Some dst_child \<Rightarrow>
                            insert_or_assign (fst kc) (MoveMergeLayer dst_child (snd kc)) acc)
          m acc) k
    = (case map_of m k of None \<Rightarrow> map_of acc k | Some c \<Rightarrow> Some (merge_entry c (map_of acc k)))"
  using assms
proof (induction m arbitrary: acc)
  case (Cons kc m)
  obtain k' c where kc: "kc = (k', c)" by (cases kc)
  let ?acc = "case map_of acc k' of None \<Rightarrow> emplace k' c acc
    | Some dst_child \<Rightarrow> insert_or_assign k' (MoveMergeLayer dst_child c) acc"
  have acc: "map_of ?acc j = (if j = k' then Some (merge_entry c (map_of acc k')) else map_of acc j)" for j
    by (auto simp: merge_entry_def map_simps split: option.splits)
  have "map_of m k' = None" "umap_ok m" using Cons.prems kc by (auto simp: umap_ok_Cons)
  then show ?case using Cons.IH [of ?acc] acc kc by (auto split: option.splits)
qed simp

lemma child_MoveMergeLayer:
  assumes "layer_ok src"
  shows "child e (MoveMergeLayer dst src)
    = (case child e src of None \<Rightarrow> child e dst | Some c \<Rightarrow> Some (merge_entry c (child e dst)))"
proof (cases src)
  case (Layer d m dr)
  then have "umap_ok m" using assms by simp
  then show ?thesis
    using Layer map_of_merge_fold [of m "lmap dst"]
    by (cases e) (auto simp: GetRoute_def merge_entry_def split: option.splits)
qed

lemma ldata_MoveMergeLayer: "ldata (MoveMergeLayer dst src) = merge_data (ldata dst) (ldata src)"
  by (cases src) simp

text \<open>The merge of two trees, path by path.\<close>

definition merge_at ::
  "('h, 'a) layer_data option \<Rightarrow> ('h, 'a) layer_data option \<Rightarrow> ('h, 'a) layer_data option" where
  "merge_at dst src =
     (case src of
        None \<Rightarrow> dst
      | Some s \<Rightarrow> (case dst of None \<Rightarrow> Some s | Some d \<Rightarrow> Some (merge_data d s)))"

lemma data_at_MoveMergeLayer:
  assumes "layer_ok src"
  shows "data_at (MoveMergeLayer dst src) p = merge_at (data_at dst p) (data_at src p)"
  using assms
proof (induction p arbitrary: dst src)
  case Nil
  then show ?case by (simp add: layer_simps merge_at_def ldata_MoveMergeLayer)
next
  case (Cons e p)
  show ?case
  proof (cases "child e src")
    case None
    then show ?thesis
      using Cons.prems by (simp add: layer_simps child_MoveMergeLayer merge_at_def)
  next
    case (Some c)
    then have c: "layer_ok c" using Cons.prems layer_ok_child by blast
    show ?thesis
      using Some Cons.prems Cons.IH [OF c]
      by (cases "child e dst")
         (simp_all add: layer_simps child_MoveMergeLayer merge_entry_def merge_at_def split: option.splits)
  qed
qed

text \<open>Two trees are compatible when no path ends in terminal configuration in both.\<close>

definition compatible ::
  "(path \<Rightarrow> ('h, 'a) layer_data option) \<Rightarrow> (path \<Rightarrow> ('h, 'a) layer_data option) \<Rightarrow> bool" where
  "compatible dst src \<longleftrightarrow>
     (\<forall>p d s. dst p = Some d \<longrightarrow> src p = Some s \<longrightarrow> \<not> (has_terminal d \<and> has_terminal s))"

lemma compatible_step:
  "compatible (data_at dst) (data_at src) \<longleftrightarrow>
    \<not> (has_terminal (ldata dst) \<and> has_terminal (ldata src)) \<and>
    (\<forall>e c c'. child e dst = Some c \<longrightarrow> child e src = Some c' \<longrightarrow> compatible (data_at c) (data_at c'))"
  (is "?L \<longleftrightarrow> ?R")
proof
  assume L: ?L
  have "\<not> (has_terminal (ldata dst) \<and> has_terminal (ldata src))"
    using L unfolding compatible_def by (metis data_at_Nil)
  moreover have "compatible (data_at c) (data_at c')"
    if "child e dst = Some c" "child e src = Some c'" for e c c'
    unfolding compatible_def
  proof (intro allI impI)
    fix p d s assume "data_at c p = Some d" "data_at c' p = Some s"
    then have "data_at dst (e # p) = Some d" "data_at src (e # p) = Some s"
      using that by (simp_all add: data_at_Cons)
    then show "\<not> (has_terminal d \<and> has_terminal s)" using L unfolding compatible_def by blast
  qed
  ultimately show ?R by blast
next
  assume R: ?R
  show ?L
    unfolding compatible_def
  proof (intro allI impI)
    fix p d s assume a: "data_at dst p = Some d" "data_at src p = Some s"
    show "\<not> (has_terminal d \<and> has_terminal s)"
    proof (cases p)
      case Nil
      then show ?thesis using R a by (simp add: data_at_Nil)
    next
      case (Cons e q)
      then obtain c c' where c: "child e dst = Some c" "child e src = Some c'"
        "data_at c q = Some d" "data_at c' q = Some s"
        using a by (auto simp: data_at_Cons split: option.splits)
      then show ?thesis using R unfolding compatible_def by blast
    qed
  qed
qed

lemma CanMergeLayer_step:
  assumes "layer_ok src"
  shows "CanMergeLayer dst src \<longleftrightarrow>
    \<not> (has_terminal (ldata dst) \<and> has_terminal (ldata src)) \<and>
    (\<forall>e c c'. child e dst = Some c \<longrightarrow> child e src = Some c' \<longrightarrow> CanMergeLayer c c')"
proof (cases src)
  case (Layer d m dr)
  then have "umap_ok m" using assms by simp
  then have m: "(k, c) \<in> set m \<longleftrightarrow> map_of m k = Some c" for k c
    by (rule umap_ok_in_set)
  have "list_all (\<lambda>kc. case GetRoute (fst kc) dst of None \<Rightarrow> True | Some c \<Rightarrow> CanMergeLayer c (snd kc)) m
      \<longleftrightarrow> (\<forall>k c c'. GetRoute k dst = Some c \<longrightarrow> map_of m k = Some c' \<longrightarrow> CanMergeLayer c c')"
    using m by (fastforce simp: list_all_iff split: option.splits)
  moreover have "(\<forall>e c c'. child e dst = Some c \<longrightarrow> child e src = Some c' \<longrightarrow> CanMergeLayer c c')
      \<longleftrightarrow> (\<forall>k c c'. GetRoute k dst = Some c \<longrightarrow> map_of m k = Some c' \<longrightarrow> CanMergeLayer c c') \<and>
          (\<forall>c c'. default_route dst = Some c \<longrightarrow> dr = Some c' \<longrightarrow> CanMergeLayer c c')"
    using Layer by (metis GetRoute_def child.simps edge.exhaust layer.sel(2) layer.sel(3))
  ultimately show ?thesis
    using Layer by (auto simp: HasTerminalConfiguration_def split: option.splits)
qed

lemma child_in_layer:
  "child e (Layer d m dr) = Some c \<Longrightarrow> (\<exists>k. (k, c) \<in> set m) \<or> dr = Some c"
  by (cases e) (auto simp: GetRoute_def dest: map_of_SomeD)

lemma CanMergeLayer_iff:
  "layer_ok src \<Longrightarrow> CanMergeLayer dst src \<longleftrightarrow> compatible (data_at dst) (data_at src)"
proof (induction src arbitrary: dst)
  case (Layer d m dr)
  have "CanMergeLayer c c' \<longleftrightarrow> compatible (data_at c) (data_at c')"
    if "child e (Layer d m dr) = Some c'" for e c c'
  proof -
    have ok: "layer_ok c'" using Layer.prems that layer_ok_child by blast
    from child_in_layer [OF that] show ?thesis
    proof
      assume "\<exists>k. (k, c') \<in> set m"
      then obtain k where "(k, c') \<in> set m" by blast
      then show ?thesis using Layer.IH(1) [of "(k, c')" c'] ok by simp
    next
      assume "dr = Some c'"
      then show ?thesis using Layer.IH(2) ok by auto
    qed
  qed
  then show ?case
    unfolding CanMergeLayer_step [OF Layer.prems] compatible_step [of dst "Layer d m dr"] by blast
qed

lemma layer_ok_MoveMergeLayer [inv_intros]:
  "layer_ok dst \<Longrightarrow> layer_ok src \<Longrightarrow> layer_ok (MoveMergeLayer dst src)"
proof (induction src arbitrary: dst)
  case (Layer d m dr)
  let ?step = "\<lambda>kc acc. case map_of acc (fst kc) of
      None \<Rightarrow> emplace (fst kc) (snd kc) acc
    | Some dst_child \<Rightarrow> insert_or_assign (fst kc) (MoveMergeLayer dst_child (snd kc)) acc"
  have step: "children_ok (?step kc acc)" if acc: "children_ok acc" and kc: "kc \<in> set m" for kc acc
  proof (cases "map_of acc (fst kc)")
    case None
    then show ?thesis using acc kc Layer.prems(2) by (simp add: children_ok_emplace)
  next
    case (Some c)
    have "layer_ok (MoveMergeLayer c (snd kc))"
      using Layer.IH(1) [OF kc, of "snd kc" c] children_ok_lookup [OF acc Some] kc Layer.prems(2)
      by (simp add: prod_set_defs)
    then show ?thesis using Some acc kc Layer.prems(2) by (simp add: children_ok_insert_or_assign)
  qed
  have "children_ok (fold ?step xs acc)" if "children_ok acc" "set xs \<subseteq> set m" for xs acc
    using that
  proof (induction xs arbitrary: acc)
    case (Cons kc xs)
    then show ?case using step [of acc kc] by simp
  qed simp
  moreover have "children_ok (lmap dst)" using Layer.prems(1) by (simp add: layer_ok_iff_children_ok)
  ultimately have "children_ok (fold ?step m (lmap dst))" by blast
  moreover have "case default_route (MoveMergeLayer dst (Layer d m dr)) of None \<Rightarrow> True | Some c \<Rightarrow> layer_ok c"
  proof (cases dr)
    case None
    then show ?thesis using Layer.prems(1) by (simp add: layer_ok_iff_children_ok)
  next
    case (Some c)
    then have "layer_ok c" using Layer.prems(2) by simp
    moreover have "layer_ok n \<Longrightarrow> layer_ok (MoveMergeLayer n c)" for n
      using Layer.IH(2) [of c n] Some \<open>layer_ok c\<close> by simp
    ultimately show ?thesis
      using Some Layer.prems(1) by (simp add: layer_ok_iff_children_ok [of dst] split: option.splits)
  qed
  ultimately show ?case by (simp add: layer_ok_iff_children_ok)
qed

lemma get_or_create_below:
  assumes "list_all (\<lambda>w. w \<noteq> []) ws"
  shows "layer_at (edges_of ws @ q) (get_or_create ws f l)
      = layer_at q (f (case layer_at (edges_of ws) l of Some n \<Rightarrow> n | None \<Rightarrow> new_layer))"
  using assms
proof (induction ws arbitrary: l)
  case (Cons w ws)
  have "layer_at (edges_of ws @ q) (get_or_create ws f (child_or_new (edge_of w) l))
      = layer_at q (f (case layer_at (edges_of ws) (child_or_new (edge_of w) l) of
          Some n \<Rightarrow> n | None \<Rightarrow> new_layer))"
    using Cons by simp
  moreover have "w \<noteq> []" using Cons.prems by simp
  ultimately show ?case
    by (cases "child (edge_of w) l")
       (auto simp: edges_of_def get_or_create_Cons child_or_new_def layer_simps)
qed (simp add: edges_of_def)

lemma get_or_create_beside:
  assumes "list_all (\<lambda>w. w \<noteq> []) ws" "\<not> prefix (edges_of ws) p"
  shows "data_at (get_or_create ws f l) p
      = (if prefix p (edges_of ws) then Some (case data_at l p of Some d \<Rightarrow> d | None \<Rightarrow> new_data)
         else data_at l p)"
  using assms
proof (induction ws arbitrary: l p)
  case (Cons w ws)
  then have w: "w \<noteq> []" by simp
  show ?case
  proof (cases p)
    case Nil
    then show ?thesis using w by (simp add: layer_simps get_or_create_Cons)
  next
    case p: (Cons e es)
    then show ?thesis
      using w Cons.prems Cons.IH [of es "child_or_new e l"]
      by (auto simp: edges_of_def layer_simps get_or_create_Cons layer_at_child_or_new split: option.splits)
  qed
qed (simp add: edges_of_def)

section \<open>What a mount does, slot by slot\<close>

definition slot_ok :: "('h, 'a) layer option \<Rightarrow> bool" where
  "slot_ok s \<longleftrightarrow> (case s of None \<Rightarrow> False | Some l \<Rightarrow> layer_ok l)"

abbreviation mount_path :: "string \<Rightarrow> path" where
  "mount_path pre \<equiv> edges_of (SplitTargetSegments pre)"

lemma mount_node_exists:
  "layer_at (mount_path pre) (get_or_create (SplitTargetSegments pre) id d)
    = Some (case layer_at (mount_path pre) d of Some n \<Rightarrow> n | None \<Rightarrow> new_layer)"
  using get_or_create_below [OF segments_nonempty, of pre "[]" id d] by simp

lemma get_or_create_id_twice:
  "data_at (get_or_create (SplitTargetSegments pre) f (get_or_create (SplitTargetSegments pre) id d))
    = data_at (get_or_create (SplitTargetSegments pre) f d)"
proof
  fix p
  let ?ws = "SplitTargetSegments pre"
  show "data_at (get_or_create ?ws f (get_or_create ?ws id d)) p = data_at (get_or_create ?ws f d) p"
  proof (cases "prefix (mount_path pre) p")
    case True
    then obtain q where "p = mount_path pre @ q" by (auto simp: prefix_def)
    then show ?thesis
      using mount_node_exists [of pre d]
      by (simp add: data_at_def get_or_create_below [OF segments_nonempty])
  next
    case False
    then show ?thesis
      by (simp add: get_or_create_beside [OF segments_nonempty] split: option.splits)
  qed
qed

definition slot_mergeable :: "string \<Rightarrow> ('h, 'a) layer option \<Rightarrow> ('h, 'a) layer option \<Rightarrow> bool" where
  "slot_mergeable pre d s \<longleftrightarrow>
     d \<noteq> None \<and> s \<noteq> None \<and>
     CanMergeLayer (case layer_at (mount_path pre) (the d) of Some n \<Rightarrow> n | None \<Rightarrow> new_layer)
       (PrefixRouteTemplates pre (the s))"

lemma mount_check_ok:
  "mount_check pre ds ss = (True, ds', ss') \<Longrightarrow>
    ds' = map (map_option (get_or_create (SplitTargetSegments pre) id)) ds \<and>
    ss' = map (map_option (PrefixRouteTemplates pre)) ss \<and> list_all2 (slot_mergeable pre) ds ss"
proof (induction pre ds ss arbitrary: ds' ss' rule: mount_check.induct)
  case (1 pre d ds s ss)
  obtain ok es ts where rest: "mount_check pre ds ss = (ok, es, ts)" by (metis prod_cases3)
  from 1(2) have can: "CanMergeLayer (case layer_at (mount_path pre) d of Some n \<Rightarrow> n | None \<Rightarrow> new_layer)
      (PrefixRouteTemplates pre s)"
    by (auto simp: mount_node_exists Let_def split: if_splits)
  with 1(2) rest have "ok" "ds' = Some (get_or_create (SplitTargetSegments pre) id d) # es"
    "ss' = Some (PrefixRouteTemplates pre s) # ts"
    by (auto simp: mount_node_exists Let_def)
  moreover have "es = map (map_option (get_or_create (SplitTargetSegments pre) id)) ds \<and>
      ts = map (map_option (PrefixRouteTemplates pre)) ss \<and> list_all2 (slot_mergeable pre) ds ss"
    by (rule 1(1) [OF refl refl refl mount_node_exists]) (use can rest \<open>ok\<close> in auto)
  moreover have "slot_mergeable pre (Some d) (Some s)" using can by (simp add: slot_mergeable_def)
  ultimately show ?case by (simp only: list.map option.map list_all2_Cons simp_thms)
qed auto

lemma mount_merge_nth:
  assumes "length ds = length ss" "\<And>i. i < length ds \<Longrightarrow> ds ! i \<noteq> None \<and> ss ! i \<noteq> None"
    "i < length ds" "ds ! i = Some d" "ss ! i = Some s"
  shows "mount_merge pre ds ss ! i
    = Some (get_or_create (SplitTargetSegments pre) (\<lambda>mount_root. MoveMergeLayer mount_root s) d)"
  using assms
proof (induction pre ds ss arbitrary: i rule: mount_merge.induct)
  case (1 pre d ds s ss)
  then show ?case
  proof (cases i)
    case (Suc j)
    have "\<And>i. i < length ds \<Longrightarrow> ds ! i \<noteq> None \<and> ss ! i \<noteq> None"
      using 1(3) by (metis Suc_less_eq length_Cons nth_Cons_Suc)
    then show ?thesis using 1 Suc by simp
  qed simp
qed (fastforce simp: nth_Cons split: nat.splits)+

text \<open>The abstraction of a destination slot after a mount.\<close>

definition spec_mount ::
  "string \<Rightarrow> (path \<Rightarrow> ('h, 'a) layer_data option) \<Rightarrow> (path \<Rightarrow> ('h, 'a) layer_data option)
    \<Rightarrow> path \<Rightarrow> ('h, 'a) layer_data option" where
  "spec_mount pre src dst p =
     (let mp = mount_path pre;
          old = (if prefix p mp then Some (case dst p of Some d \<Rightarrow> d | None \<Rightarrow> new_data) else dst p)
      in if prefix mp p then merge_at old (map_option (prefix_data pre) (src (drop (length mp) p)))
         else old)"

lemma data_at_append:
  "data_at l (p @ q) = (case layer_at p l of None \<Rightarrow> None | Some n \<Rightarrow> data_at n q)"
  by (simp add: data_at_def layer_at_append split: option.splits)

lemma mount_slot_refines:
  assumes "layer_ok s"
  shows "data_at (get_or_create (SplitTargetSegments pre)
      (\<lambda>mount_root. MoveMergeLayer mount_root (PrefixRouteTemplates pre s)) d) p
    = spec_mount pre (data_at s) (data_at d) p"
proof (cases "prefix (mount_path pre) p")
  case True
  then obtain q where q: "p = mount_path pre @ q" by (auto simp: prefix_def)
  let ?n = "case layer_at (mount_path pre) d of Some n \<Rightarrow> n | None \<Rightarrow> new_layer"
  have "data_at (get_or_create (SplitTargetSegments pre)
      (\<lambda>mount_root. MoveMergeLayer mount_root (PrefixRouteTemplates pre s)) d) p
    = data_at (MoveMergeLayer ?n (PrefixRouteTemplates pre s)) q"
    by (simp add: q data_at_def get_or_create_below [OF segments_nonempty])
  also have "\<dots> = merge_at (data_at ?n q) (map_option (prefix_data pre) (data_at s q))"
    using data_at_MoveMergeLayer [OF layer_ok_PrefixRouteTemplates [OF assms]]
    by (simp add: data_at_PrefixRouteTemplates)
  also have "data_at ?n q = (if prefix p (mount_path pre)
      then Some (case data_at d p of Some d \<Rightarrow> d | None \<Rightarrow> new_data) else data_at d p)"
    by (cases q; cases "layer_at (mount_path pre) d")
       (auto simp: q layer_at_append layer_simps data_at_def)
  finally show ?thesis by (simp add: spec_mount_def q)
next
  case False
  then show ?thesis
    by (simp add: spec_mount_def get_or_create_beside [OF segments_nonempty])
qed

lemma MountAt_refines:
  assumes "table_ok t" "table_ok source" "MountAt pre source t = (True, t')"
    "unat method < kHttpRequestMethodNum"
  shows "data_at (root_of method t')
      = spec_mount pre (data_at (root_of method source)) (data_at (root_of method t))"
    and "compatible
      (data_at (case layer_at (mount_path pre) (root_of method t) of Some n \<Rightarrow> n | None \<Rightarrow> new_layer))
      (map_option (prefix_data pre) \<circ> data_at (root_of method source))"
proof -
  let ?i = "unat method" and ?ws = "SplitTargetSegments pre"
  obtain ok ds ss where c: "mount_check pre (entrance t) (entrance source) = (ok, ds, ss)"
    by (metis prod_cases3)
  with assms(3) have ok: "mount_check pre (entrance t) (entrance source) = (True, ds, ss)"
    and t': "t' = t\<lparr>entrance := mount_merge pre ds ss\<rparr>"
    by (auto simp: MountAt_def split: if_splits)
  note r = table_ok_root [OF assms(1,4)] table_ok_root [OF assms(2,4)]
  have len: "?i < length (entrance t)" "?i < length (entrance source)"
    "length (entrance t) = length (entrance source)"
    using assms by (simp_all add: table_ok_def)
  note mc = mount_check_ok [OF ok]
  have ds: "ds ! ?i = Some (get_or_create ?ws id (root_of method t))"
    and ss: "ss ! ?i = Some (PrefixRouteTemplates pre (root_of method source))"
    using mc len r by simp_all
  have "mount_merge pre ds ss ! ?i = Some (get_or_create ?ws
      (\<lambda>mount_root. MoveMergeLayer mount_root (PrefixRouteTemplates pre (root_of method source)))
      (get_or_create ?ws id (root_of method t)))"
  proof (rule mount_merge_nth [OF _ _ _ ds ss])
    show "length ds = length ss" "?i < length ds" using mc len by auto
    show "ds ! i \<noteq> None \<and> ss ! i \<noteq> None" if "i < length ds" for i
      using mc that len(3) by (auto simp: list_all2_conv_all_nth slot_mergeable_def)
  qed
  then show "data_at (root_of method t')
      = spec_mount pre (data_at (root_of method source)) (data_at (root_of method t))"
    by (simp add: fun_eq_iff root_of_def t' get_or_create_id_twice mount_slot_refines [OF r(4), unfolded root_of_def])
  have "slot_mergeable pre (entrance t ! ?i) (entrance source ! ?i)"
    using mc len by (simp add: list_all2_conv_all_nth)
  then have "CanMergeLayer (case layer_at (mount_path pre) (root_of method t) of Some n \<Rightarrow> n | None \<Rightarrow> new_layer)
      (PrefixRouteTemplates pre (root_of method source))"
    using r by (simp add: slot_mergeable_def)
  then show "compatible
      (data_at (case layer_at (mount_path pre) (root_of method t) of Some n \<Rightarrow> n | None \<Rightarrow> new_layer))
      (map_option (prefix_data pre) \<circ> data_at (root_of method source))"
    by (simp add: CanMergeLayer_iff [OF layer_ok_PrefixRouteTemplates [OF r(4)]] comp_def
        data_at_PrefixRouteTemplates [abs_def])
qed

lemma merge_data_src_handler:
  "handler s \<noteq> None \<Longrightarrow> handler (merge_data d s) = handler s \<and> param_names (merge_data d s) = param_names s
    \<and> route_template (merge_data d s) = route_template s"
  by (simp add: merge_data_def Let_def)

lemma merge_data_dst_handler:
  "handler s = None \<Longrightarrow> handler (merge_data d s) = handler d \<and> param_names (merge_data d s) = param_names d
    \<and> route_template (merge_data d s) = route_template d"
  by (simp add: merge_data_def Let_def)

lemma prefix_data_handler [simp]:
  "handler (prefix_data pre d) = handler d" "param_names (prefix_data pre d) = param_names d"
  "has_terminal (prefix_data pre d) = has_terminal d"
  by (simp_all add: prefix_data_def has_terminal_def)

lemma mount_check_slots:
  "mount_check pre ds ss = (ok, ds', ss') \<Longrightarrow> i < length ds \<Longrightarrow>
    ds' ! i = ds ! i \<or> ds' ! i = map_option (get_or_create (SplitTargetSegments pre) id) (ds ! i)"
proof (induction pre ds ss arbitrary: ok ds' ss' i rule: mount_check.induct)
  case (1 pre d ds s ss)
  obtain ok1 es ts where rest: "mount_check pre ds ss = (ok1, es, ts)" by (metis prod_cases3)
  let ?can = "CanMergeLayer (case layer_at (mount_path pre) d of Some n \<Rightarrow> n | None \<Rightarrow> new_layer)
      (PrefixRouteTemplates pre s)"
  have ds': "ds' = Some (get_or_create (SplitTargetSegments pre) id d) # (if ?can then es else ds)"
    using 1(2) rest by (auto simp: mount_node_exists Let_def split: if_splits)
  show ?case
  proof (cases i)
    case 0
    then show ?thesis by (simp only: ds' nth_Cons_0 option.map simp_thms)
  next
    case (Suc j)
    have "es ! j = ds ! j \<or> es ! j = map_option (get_or_create (SplitTargetSegments pre) id) (ds ! j)"
      if ?can
      by (rule 1(1) [OF refl refl refl mount_node_exists _ rest]) (use that 1(3) Suc in auto)
    then show ?thesis using Suc by (simp only: ds' nth_Cons_Suc split: if_splits) blast
  qed
qed auto

lemma get_or_create_id_data:
  "data_at (get_or_create (SplitTargetSegments pre) id l) p = data_at l p \<or>
    data_at l p = None \<and> data_at (get_or_create (SplitTargetSegments pre) id l) p = Some new_data \<and>
    prefix p (mount_path pre)"
proof (cases "prefix (mount_path pre) p")
  case True
  then obtain q where q: "p = mount_path pre @ q" by (auto simp: prefix_def)
  have "data_at (get_or_create (SplitTargetSegments pre) id l) p
      = data_at (case layer_at (mount_path pre) l of Some n \<Rightarrow> n | None \<Rightarrow> new_layer) q"
    by (simp add: q data_at_def get_or_create_below [OF segments_nonempty])
  then show ?thesis
    by (cases "layer_at (mount_path pre) l"; cases q)
       (auto simp: q data_at_append layer_simps data_at_def layer_at_append)
next
  case False
  then show ?thesis
    by (auto simp: get_or_create_beside [OF segments_nonempty] split: option.splits)
qed

section \<open>Clones, node by node\<close>

lemma those_None_iff: "those xs = None \<longleftrightarrow> None \<in> set xs"
  by (induction xs) (auto split: option.splits)

lemma those_Some_iff: "those xs = Some ys \<longleftrightarrow> xs = map Some ys"
  by (induction xs arbitrary: ys) (auto split: option.splits)

lemma CloneLayer_nodes:
  "CloneLayer clone_h clone_a l = None \<longleftrightarrow> (\<exists>d\<in>set (layer_nodes l). clone_data clone_h clone_a d = None)"
proof (induction l)
  case (Layer d m dr)
  let ?bad = "\<lambda>l. \<exists>d\<in>set (layer_nodes l). clone_data clone_h clone_a d = None"
  have kids: "CloneLayer clone_h clone_a (snd kc) = None \<longleftrightarrow> ?bad (snd kc)" if "kc \<in> set m" for kc
    using Layer.IH(1) [OF that, of "snd kc"] by (simp add: prod_set_defs)
  then have m: "those (map (\<lambda>kc. map_option (Pair (fst kc)) (CloneLayer clone_h clone_a (snd kc))) m) = None
      \<longleftrightarrow> (\<exists>kc\<in>set m. ?bad (snd kc))"
    unfolding those_None_iff by (simp add: image_iff eq_commute [of None])
  have "(case dr of None \<Rightarrow> Some None | Some c \<Rightarrow> map_option Some (CloneLayer clone_h clone_a c)) = None
      \<longleftrightarrow> (\<exists>c. dr = Some c \<and> ?bad c)"
    using Layer.IH(2) by (cases dr) auto
  moreover have "?bad (Layer d m dr) \<longleftrightarrow> clone_data clone_h clone_a d = None \<or>
      (\<exists>c. dr = Some c \<and> ?bad c) \<or> (\<exists>kc\<in>set m. ?bad (snd kc))"
    by (cases dr) auto
  ultimately show ?case
    unfolding CloneLayer.simps using m by (auto split: option.splits)
qed

lemma map_of_clone_children:
  "map (\<lambda>kc. map_option (Pair (fst kc)) (f (snd kc))) m = map Some m' \<Longrightarrow>
    map_of m' k = Option.bind (map_of m k) f"
  by (induction m arbitrary: m') auto

lemma child_CloneLayer:
  assumes "CloneLayer clone_h clone_a l = Some l'"
  shows "child e l' = Option.bind (child e l) (CloneLayer clone_h clone_a)"
  using assms
  by (cases l; cases e)
     (auto simp: GetRoute_def those_Some_iff map_of_clone_children split: option.splits)

lemma layer_nodes_child: "child e l = Some c \<Longrightarrow> set (layer_nodes c) \<subseteq> set (layer_nodes l)"
  by (cases l; cases e) (force simp: GetRoute_def dest: map_of_SomeD)+

lemma CloneLayer_data_at:
  "CloneLayer clone_h clone_a l = Some l' \<Longrightarrow>
    data_at l' p = Option.bind (data_at l p) (clone_data clone_h clone_a)"
proof (induction p arbitrary: l l')
  case Nil
  then show ?case by (cases l) (auto simp: layer_simps split: option.splits)
next
  case (Cons e p)
  show ?case
  proof (cases "child e l")
    case None
    then show ?thesis using child_CloneLayer [OF Cons.prems, of e] by (simp add: layer_simps)
  next
    case (Some c)
    show ?thesis
    proof (cases "CloneLayer clone_h clone_a c")
      case None
      then obtain d where "d \<in> set (layer_nodes c)" "clone_data clone_h clone_a d = None"
        by (auto simp: CloneLayer_nodes)
      then have "CloneLayer clone_h clone_a l = None"
        using layer_nodes_child [OF Some] CloneLayer_nodes by blast
      then show ?thesis using Cons.prems by simp
    next
      case (Some c')
      then show ?thesis using child_CloneLayer [OF Cons.prems, of e] \<open>child e l = Some c\<close> Cons.IH
        by (simp add: layer_simps)
    qed
  qed
qed

section \<open>Every constructible table\<close>

lemma mount_check_keeps:
  "mount_check pre ds ss = (ok, ds', ss') \<Longrightarrow> list_all slot_ok ds \<Longrightarrow> list_all slot_ok ss \<Longrightarrow>
    length ds' = length ds \<and> list_all slot_ok ds' \<and> list_all slot_ok ss'"
proof (induction pre ds ss arbitrary: ok ds' ss' rule: mount_check.induct)
  case (1 pre d ds s ss)
  obtain ok1 es ts where rest: "mount_check pre ds ss = (ok1, es, ts)" by (metis prod_cases3)
  let ?can = "CanMergeLayer (case layer_at (mount_path pre) d of Some n \<Rightarrow> n | None \<Rightarrow> new_layer)
      (PrefixRouteTemplates pre s)"
  have res: "ds' = Some (get_or_create (SplitTargetSegments pre) id d) # (if ?can then es else ds)"
    "ss' = Some (PrefixRouteTemplates pre s) # (if ?can then ts else ss)"
    using 1(2) rest by (auto simp: mount_node_exists Let_def split: if_splits)
  have "length es = length ds \<and> list_all slot_ok es \<and> list_all slot_ok ts" if ?can
    by (rule 1(1) [OF refl refl refl mount_node_exists _ rest]) (use that 1(3,4) in auto)
  moreover have "slot_ok (Some (get_or_create (SplitTargetSegments pre) id d))"
    "slot_ok (Some (PrefixRouteTemplates pre s))"
    using 1(3,4) layer_ok_get_or_create [OF _ segments_nonempty, of d id]
    by (auto simp: slot_ok_def layer_ok_PrefixRouteTemplates)
  ultimately show ?case using 1(3,4) by (simp add: res)
qed auto

lemma mount_merge_keeps:
  "list_all slot_ok ds \<Longrightarrow> list_all slot_ok ss \<Longrightarrow>
    length (mount_merge pre ds ss) = length ds \<and> list_all slot_ok (mount_merge pre ds ss)"
proof (induction pre ds ss rule: mount_merge.induct)
  case (1 pre d ds s ss)
  have "layer_ok (get_or_create (SplitTargetSegments pre) (\<lambda>mount_root. MoveMergeLayer mount_root s) d)"
    by (rule layer_ok_get_or_create [OF _ segments_nonempty])
       (use 1 in \<open>auto simp: slot_ok_def layer_ok_MoveMergeLayer\<close>)
  then show ?case using 1 by (simp add: slot_ok_def)
qed auto

lemma table_ok_slots:
  "table_ok t \<longleftrightarrow> length (entrance t) = kHttpRequestMethodNum \<and>
    length (global_specific_aspects t) = kHttpRequestMethodNum \<and> list_all slot_ok (entrance t)"
  by (simp add: table_ok_def slot_ok_def list_all_iff)

lemma table_ok_MountAt [inv_intros]:
  assumes "table_ok t" "table_ok source"
  shows "table_ok (snd (MountAt pre source t))"
proof -
  obtain ok ds ss where c: "mount_check pre (entrance t) (entrance source) = (ok, ds, ss)"
    by (metis prod_cases3)
  note k = mount_check_keeps [OF c]
  show ?thesis
    using assms k mount_merge_keeps [of ds ss pre] by (auto simp: table_ok_slots MountAt_def c)
qed

lemma clone_children_keys:
  "map (\<lambda>kc. map_option (Pair (fst kc)) (f (snd kc))) m = map Some m' \<Longrightarrow> map fst m' = map fst m"
  by (induction m arbitrary: m') auto

lemma clone_children_mem:
  "map (\<lambda>kc. map_option (Pair (fst kc)) (f (snd kc))) m = map Some m' \<Longrightarrow> kc' \<in> set m' \<Longrightarrow>
   \<exists>kc \<in> set m. fst kc' = fst kc \<and> f (snd kc) = Some (snd kc')"
  by (induction m arbitrary: m') auto

lemma CloneLayer_parts:
  assumes "CloneLayer clone_h clone_a (Layer d m dr) = Some l'"
  obtains d' m' dr' where "l' = Layer d' m' dr'"
    "dr' = None \<and> dr = None \<or> (\<exists>c c'. dr = Some c \<and> dr' = Some c' \<and> CloneLayer clone_h clone_a c = Some c')"
    "map (\<lambda>kc. map_option (Pair (fst kc)) (CloneLayer clone_h clone_a (snd kc))) m = map Some m'"
  using assms by (cases dr) (auto simp: those_Some_iff split: option.splits)

lemma layer_ok_CloneLayer: "CloneLayer clone_h clone_a l = Some l' \<Longrightarrow> layer_ok l \<Longrightarrow> layer_ok l'"
proof (induction l arbitrary: l')
  case (Layer d m dr)
  obtain d' m' dr' where l': "l' = Layer d' m' dr'"
    and dr: "dr' = None \<and> dr = None \<or> (\<exists>c c'. dr = Some c \<and> dr' = Some c' \<and> CloneLayer clone_h clone_a c = Some c')"
    and m: "map (\<lambda>kc. map_option (Pair (fst kc)) (CloneLayer clone_h clone_a (snd kc))) m = map Some m'"
    using CloneLayer_parts [OF Layer.prems(1)] by blast
  have "key_ok (fst kc') \<and> layer_ok (snd kc')" if kc': "kc' \<in> set m'" for kc'
  proof -
    obtain kc where kc: "kc \<in> set m" "fst kc' = fst kc" "CloneLayer clone_h clone_a (snd kc) = Some (snd kc')"
      using clone_children_mem [OF m kc'] by blast
    have "layer_ok (snd kc')" by (rule Layer.IH(1) [OF kc(1) _ kc(3)]) (use Layer.prems(2) kc(1) in \<open>auto simp: snds.simps\<close>)
    then show ?thesis using kc Layer.prems(2) by auto
  qed
  moreover have "case dr' of None \<Rightarrow> True | Some c \<Rightarrow> layer_ok c"
    using dr Layer.IH(2) Layer.prems(2) by auto
  moreover have "umap_ok m'" using clone_children_keys [OF m] Layer.prems(2) by (simp add: umap_ok_def)
  ultimately show ?case by (simp add: l')
qed
definition clone_root ::
  "('h \<Rightarrow> 'h option) \<Rightarrow> ('a \<Rightarrow> 'a option) \<Rightarrow> ('h, 'a) layer option \<Rightarrow> ('h, 'a) layer option option" where
  "clone_root clone_h clone_a root = (case root of None \<Rightarrow> None | Some l \<Rightarrow> map_option Some (CloneLayer clone_h clone_a l))"

lemma clone_roots_ok:
  "map (clone_root clone_h clone_a) slots = map Some roots \<Longrightarrow> list_all slot_ok slots \<Longrightarrow> list_all slot_ok roots"
proof (induction slots arbitrary: roots)
  case (Cons x slots)
  then obtain l l' rs where "x = Some l" "CloneLayer clone_h clone_a l = Some l'" "roots = Some l' # rs"
    "map (clone_root clone_h clone_a) slots = map Some rs"
    by (cases roots; cases x) (auto simp: clone_root_def [of _ _ "Some _"] clone_root_def [of _ _ None])
  then show ?case using Cons layer_ok_CloneLayer by (auto simp: slot_ok_def)
qed simp

lemma table_ok_MountAtClone [inv_intros]:
  assumes "table_ok t" "table_ok source"
  shows "table_ok (snd (MountAtClone clone_h clone_a eh pre source t))"
proof -
  have "table_ok ((new_HttpRouteTable eh)\<lparr>entrance := roots\<rparr>)"
    if r: "map (clone_root clone_h clone_a) (entrance source) = map Some roots" for roots
    using clone_roots_ok [OF r] arg_cong [OF r, of length] assms(2) table_ok_new [of eh] by (auto simp: table_ok_slots)
  then show ?thesis using assms(1)
    by (auto simp: MountAtClone_def those_Some_iff clone_root_def [abs_def] intro!: table_ok_MountAt split: option.split)
qed

text \<open>A registration script: the calls a program makes on a table, mounts of other scripts included.\<close>

datatype ('h, 'a) table_op =
    OpRoute HttpRequestMethod string "'h option"
  | OpExclusiveRoute HttpRequestMethod string "'h option"
  | OpAspect HttpRequestMethod string 'a
  | OpTerminalAspect HttpRequestMethod string 'a
  | OpMethodGlobalAspect HttpRequestMethod 'a
  | OpGlobalAspect 'a
  | OpWriteExpiry HttpRequestMethod string size_t
  | OpReadExpiry HttpRequestMethod string size_t
  | OpMaxBodySize HttpRequestMethod string size_t
  | OpDefaults size_t size_t size_t "'h option"
  | OpMount string "('h, 'a) table_op list"

fun apply_op :: "'h \<Rightarrow> ('h, 'a) table_op \<Rightarrow> ('h, 'a) HttpRouteTable \<Rightarrow> ('h, 'a) HttpRouteTable" where
  "apply_op eh (OpRoute m target h) t = snd (AddRouteEntry m target h t)"
| "apply_op eh (OpExclusiveRoute m target h) t = snd (AddExclusiveRouteEntry m target h t)"
| "apply_op eh (OpAspect m target a) t = snd (AddAspectAt m target a t)"
| "apply_op eh (OpTerminalAspect m target a) t = snd (AddTerminalAspectAt m target a t)"
| "apply_op eh (OpMethodGlobalAspect m a) t = snd (AddMethodGlobalAspect m a t)"
| "apply_op eh (OpGlobalAspect a) t = snd (AddGlobalAspect a t)"
| "apply_op eh (OpWriteExpiry m target n) t = snd (SetWriteExpiryAt m target n t)"
| "apply_op eh (OpReadExpiry m target n) t = snd (SetReadExpiryAt m target n t)"
| "apply_op eh (OpMaxBodySize m target n) t = snd (SetMaxBodySizeAt m target n t)"
| "apply_op eh (OpDefaults w r b h) t =
     SetDefaultHandler h (SetDefaultMaxBodySize b (SetDefaultReadExpiry r (SetDefaultWriteExpiry w t)))"
| "apply_op eh (OpMount pre ops) t =
     snd (MountAt pre (fold (apply_op eh) ops (new_HttpRouteTable eh)) t)"

lemmas table_ops = AddRouteEntry_def AddExclusiveRouteEntry_def AddAspectAt_def AddTerminalAspectAt_def
  SetWriteExpiryAt_def SetReadExpiryAt_def SetMaxBodySizeAt_def

lemma layer_ok_ops [simp]:
  "layer_ok (snd (SetHandler h l)) = layer_ok l" "layer_ok (SetIgnoreDefaultRoute b l) = layer_ok l"
  "layer_ok (AddAspect a l) = layer_ok l" "layer_ok (AddTerminalAspect a l) = layer_ok l"
  "layer_ok (SetWriteExpiry n l) = layer_ok l" "layer_ok (SetReadExpiry n l) = layer_ok l"
  "layer_ok (SetMaxBodySize n l) = layer_ok l"
  by (simp_all add: SetHandler_map_data SetIgnoreDefaultRoute_def AddAspect_def AddTerminalAspect_def
      SetWriteExpiry_def SetReadExpiry_def SetMaxBodySize_def)

lemma table_ok_fold: "table_ok t \<Longrightarrow> (\<And>op t. op \<in> set ops \<Longrightarrow> table_ok t \<Longrightarrow> table_ok (f op t))
    \<Longrightarrow> table_ok (fold f ops t)"
  by (induction ops arbitrary: t) auto

lemma table_ok_settings [simp]:
  "table_ok (t\<lparr>global_aspects := x\<rparr>) = table_ok t"
  "table_ok (t\<lparr>global_specific_aspects := (global_specific_aspects t)[i := ys]\<rparr>) = table_ok t"
  "table_ok (t\<lparr>default_handler := h\<rparr>) = table_ok t"
  "table_ok (t\<lparr>default_max_body_size := n\<rparr>) = table_ok t"
  "table_ok (t\<lparr>default_read_expiry := n\<rparr>) = table_ok t"
  "table_ok (t\<lparr>default_write_expiry := n\<rparr>) = table_ok t"
  by (simp_all add: table_ok_def)

lemma table_ok_apply_op: "table_ok t \<Longrightarrow> table_ok (apply_op eh op t)"
proof (induction eh op t rule: apply_op.induct)
  case (11 eh pre ops t)
  have "table_ok (fold (apply_op eh) ops (new_HttpRouteTable eh))"
    by (rule table_ok_fold [OF table_ok_new]) (use 11 in blast)
  then show ?case using 11 table_ok_MountAt by simp
qed (auto simp: table_ops AddMethodGlobalAspect_def AddGlobalAspect_def SetDefaultHandler_def
    SetDefaultMaxBodySize_def SetDefaultReadExpiry_def SetDefaultWriteExpiry_def
    intro: table_ok_get_or_create split: option.splits)

section \<open>Properties\<close>



text \<open>
  A mount that is refused changes no node that existed: it leaves behind, at most, blank
  nodes on the way to the mount point, and the table-wide settings are untouched.
\<close>

theorem refused_mount_adds_only_blank_nodes:
  assumes "table_ok t" "table_ok source" "MountAt pre source t = (False, t')"
    "unat method < kHttpRequestMethodNum"
  shows "t' = t\<lparr>entrance := entrance t'\<rparr> \<and>
    (data_at (root_of method t') p = data_at (root_of method t) p \<or>
     data_at (root_of method t) p = None \<and> data_at (root_of method t') p = Some new_data \<and>
     prefix p (mount_path pre))"
proof (cases "IsValidParametricTarget pre")
  case True
  obtain ok ds ss where c: "mount_check pre (entrance t) (entrance source) = (ok, ds, ss)"
    by (metis prod_cases3)
  with assms(3) True have t': "t' = t\<lparr>entrance := ds\<rparr>"
    by (auto simp: MountAt_def split: if_splits)
  have "unat method < length (entrance t)" using assms(1,4) by (simp add: table_ok_def)
  with mount_check_slots [OF c, of "unat method"]
  have "ds ! unat method = Some (root_of method t) \<or>
      ds ! unat method = Some (get_or_create (SplitTargetSegments pre) id (root_of method t))"
    unfolding table_ok_root(1) [OF assms(1,4)] option.map by blast
  then have "root_of method t' = root_of method t \<or>
      root_of method t' = get_or_create (SplitTargetSegments pre) id (root_of method t)"
    unfolding t' by (auto simp: root_of_def)
  then show ?thesis
    using get_or_create_id_data [of pre "root_of method t" p] t' by auto
next
  case False
  then show ?thesis using assms(3) by (simp add: MountAt_def)
qed

theorem refused_mount_adds_only_blank_nodes_witness:
  "let t = snd (AddRouteEntry kGet ''/api/a'' (Some 1) (new_HttpRouteTable 0)) :: (nat, nat) HttpRouteTable;
       s = snd (AddRouteEntry kGet ''/a'' (Some 2) (new_HttpRouteTable 0));
       t' = snd (MountAt ''/api'' s t)
   in data_at (root_of kGet t') [Static ''api'', Static ''a'']
     = data_at (root_of kGet t) [Static ''api'', Static ''a'']"
proof -
  let ?t = "snd (AddRouteEntry kGet ''/api/a'' (Some 1) (new_HttpRouteTable 0)) :: (nat, nat) HttpRouteTable"
  let ?s = "snd (AddRouteEntry kGet ''/a'' (Some 2) (new_HttpRouteTable 0)) :: (nat, nat) HttpRouteTable"
  have f: "table_ok ?t" "table_ok ?s" "MountAt ''/api'' ?s ?t = (False, snd (MountAt ''/api'' ?s ?t))"
    "unat kGet < kHttpRequestMethodNum" by code_simp+
  have "\<not> prefix [Static ''api'', Static ''a''] (mount_path ''/api'')" by code_simp
  then show ?thesis
    using refused_mount_adds_only_blank_nodes [OF f, of "[Static ''api'', Static ''a'']"]
    unfolding Let_def by blast
qed


text \<open> A clone has the shape of the original: cloning succeeds exactly when the data of every
  node can be cloned, and then the data at every path is the clone of the data at that path.
\<close>

theorem clone_is_pathwise:
  assumes "layer_ok l"
  shows "case CloneLayer clone_h clone_a l of
      None \<Rightarrow> \<exists>d\<in>set (layer_nodes l). clone_data clone_h clone_a d = None
    | Some l' \<Rightarrow> (\<forall>d\<in>set (layer_nodes l). clone_data clone_h clone_a d \<noteq> None) \<and>
        (\<forall>p. data_at l' p = Option.bind (data_at l p) (clone_data clone_h clone_a))"
  using CloneLayer_nodes [of clone_h clone_a l] CloneLayer_data_at [of clone_h clone_a l]
  by (auto split: option.splits)

theorem clone_is_pathwise_witness:
  "case CloneLayer (\<lambda>h. Some h) (\<lambda>a. None) (map_data (\<lambda>d. d\<lparr>aspects := [3]\<rparr>) new_layer :: (nat, nat) layer) of
      None \<Rightarrow> True | Some l' \<Rightarrow> False"
  using clone_is_pathwise [of "map_data (\<lambda>d. d\<lparr>aspects := [3]\<rparr>) new_layer :: (nat, nat) layer"
      "\<lambda>h. Some h" "\<lambda>a. None"]
  by (simp add: map_data_def new_layer_def clone_data_def split: option.splits)

text \<open>
  (C22) The iterative teardown ends and destroys every node of the tree exactly once.
\<close>

theorem teardown_frees_each_node_once:
  "mset (DestroyLayerTreeIterative root) = (case root of None \<Rightarrow> {#} | Some l \<Rightarrow> mset (layer_nodes l))"
  by (simp add: DestroyLayerTreeIterative_def destroy_loop_frees split: option.splits)


end
