(* ===== verification/Session_Heap.thy ===== *)
theory Session_Heap
  imports Prelude "HOL-Library.Multiset"
begin

text \<open>
  The binary heap of \<^verbatim>\<open>session/.../detail/heap.h\<close>: a vector whose slot 0 is an unused sentinel,
  the children of slot \<open>i\<close> being \<open>2 * i\<close> and \<open>2 * i + 1\<close>. The sift loops move elements into a hole
  and write the moved element once at the end; they are proved equal to loops of swaps, which
  keep the multiset, and then to restore the heap order. The result is the contract
  \<open>priority_queue\<close>, which the session map uses.
\<close>

section \<open>The container\<close>

type_synonym 'a heap = "'a list"

definition new_heap :: "'a \<Rightarrow> 'a heap" where
  "new_heap sentinel = [sentinel]"

definition IsEmpty :: "'a heap \<Rightarrow> bool" where
  "IsEmpty c \<longleftrightarrow> length c \<le> 1"

definition GetSize :: "'a heap \<Rightarrow> nat" where
  "GetSize c = length c - 1"

definition Top :: "'a heap \<Rightarrow> 'a" where
  "Top c = c ! 1"

function push_loop :: "('a \<Rightarrow> 'a \<Rightarrow> bool) \<Rightarrow> 'a list \<Rightarrow> nat \<Rightarrow> nat \<Rightarrow> 'a \<Rightarrow> 'a list" where
  "push_loop cmp c child parent tmp =
     (if parent \<noteq> 0 then
        (if cmp (c ! parent) tmp
         then push_loop cmp (c[child := c ! parent]) parent (parent div 2) tmp
         else c[child := tmp])
      else c[child := tmp])"
  by pat_completeness auto
termination
  by (relation "measure (\<lambda>(_, _, _, parent, _). parent)") auto

definition Push :: "('a \<Rightarrow> 'a \<Rightarrow> bool) \<Rightarrow> 'a \<Rightarrow> 'a heap \<Rightarrow> 'a heap" where
  "Push cmp v c =
     (let curr_idx = length c;
          c = c @ [v];
          tmp = last c
      in push_loop cmp c curr_idx (curr_idx div 2) tmp)"

text \<open>
  The loop starts at slot 1 and only moves to children, so its test \<open>1 \<le> cur\<close> never fails; it
  makes the recursion well-founded for every argument.
\<close>

function pop_loop :: "('a \<Rightarrow> 'a \<Rightarrow> bool) \<Rightarrow> 'a list \<Rightarrow> nat \<Rightarrow> nat \<Rightarrow> 'a \<Rightarrow> 'a list" where
  "pop_loop cmp c last_idx cur tmp =
     (if 1 \<le> cur \<and> cur * 2 \<le> last_idx then
        (let left = cur * 2; right = left + 1
         in if right > last_idx then
              (if cmp tmp (c ! left)
               then pop_loop cmp (c[cur := c ! left]) last_idx left tmp
               else c[cur := tmp])
            else
              (let to_comp = (if cmp (c ! left) (c ! right) then right else left)
               in if cmp tmp (c ! to_comp)
                  then pop_loop cmp (c[cur := c ! to_comp]) last_idx to_comp tmp
                  else c[cur := tmp]))
      else c[cur := tmp])"
  by pat_completeness auto
termination
  by (relation "measure (\<lambda>(_, _, last_idx, cur, _). Suc last_idx - cur)") (auto simp: Let_def)

definition Pop :: "('a \<Rightarrow> 'a \<Rightarrow> bool) \<Rightarrow> 'a heap \<Rightarrow> 'a \<times> 'a heap" where
  "Pop cmp c =
     (let last_idx = length c - 1;
          result = c ! 1;
          tmp = c ! last_idx;
          c = butlast c;
          last_idx = last_idx - 1
      in if last_idx < 1 then (result, c)
         else (result, pop_loop cmp c last_idx 1 tmp))"

declare push_loop.simps [simp del] pop_loop.simps [simp del]

section \<open>The loops as loops of swaps\<close>

definition swap :: "nat \<Rightarrow> nat \<Rightarrow> 'a list \<Rightarrow> 'a list" where
  "swap i j d = d[i := d ! j, j := d ! i]"

function sift_up :: "('a \<Rightarrow> 'a \<Rightarrow> bool) \<Rightarrow> 'a list \<Rightarrow> nat \<Rightarrow> 'a list" where
  "sift_up cmp d i =
     (if i div 2 \<noteq> 0 \<and> cmp (d ! (i div 2)) (d ! i)
      then sift_up cmp (swap i (i div 2) d) (i div 2) else d)"
  by pat_completeness auto
termination
  by (relation "measure (\<lambda>(_, _, i). i)") auto

definition larger_child :: "('a \<Rightarrow> 'a \<Rightarrow> bool) \<Rightarrow> 'a list \<Rightarrow> nat \<Rightarrow> nat \<Rightarrow> nat" where
  "larger_child cmp d n i =
     (if i * 2 + 1 > n then i * 2
      else if cmp (d ! (i * 2)) (d ! (i * 2 + 1)) then i * 2 + 1 else i * 2)"

function sift_down :: "('a \<Rightarrow> 'a \<Rightarrow> bool) \<Rightarrow> 'a list \<Rightarrow> nat \<Rightarrow> nat \<Rightarrow> 'a list" where
  "sift_down cmp d n i =
     (if 1 \<le> i \<and> i * 2 \<le> n \<and> cmp (d ! i) (d ! larger_child cmp d n i)
      then sift_down cmp (swap i (larger_child cmp d n i) d) n (larger_child cmp d n i) else d)"
  by pat_completeness auto
termination
  by (relation "measure (\<lambda>(_, _, n, i). Suc n - i)") (auto simp: larger_child_def)

declare sift_up.simps [simp del] sift_down.simps [simp del]

lemma swap_hole:
  assumes "i \<noteq> j" "i < length c" "j < length c"
  shows "(c[i := c ! j])[j := x] = swap i j (c[i := x])"
  using assms by (simp add: swap_def list_update_swap)

lemma length_swap [simp]: "length (swap i j d) = length d"
  by (simp add: swap_def)

lemma mset_swap_eq: "i < length d \<Longrightarrow> j < length d \<Longrightarrow> mset (swap i j d) = mset d"
  using mset_swap [of j d i] by (simp add: swap_def)

lemma nth_swap:
  assumes "i < length d" "j < length d" "i \<noteq> j"
  shows "swap i j d ! k = (if k = i then d ! j else if k = j then d ! i else d ! k)"
  using assms by (simp add: swap_def nth_list_update)

lemma push_loop_sift_up:
  assumes "child < length c"
  shows "push_loop cmp c child (child div 2) tmp = sift_up cmp (c[child := tmp]) child"
  using assms
proof (induction child arbitrary: c rule: less_induct)
  case (less child)
  let ?p = "child div 2" and ?d = "c[child := tmp]"
  show ?case
  proof (cases "?p \<noteq> 0 \<and> cmp (c ! ?p) tmp")
    case True
    then have p: "?p < child" "?p < length c" "?p \<noteq> child" using less.prems by auto
    have "push_loop cmp c child ?p tmp = push_loop cmp (c[child := c ! ?p]) ?p (?p div 2) tmp"
      using True by (simp add: push_loop.simps [of cmp c])
    also have "\<dots> = sift_up cmp ((c[child := c ! ?p])[?p := tmp]) ?p"
      using less.IH [OF p(1)] p(2) by simp
    also have "(c[child := c ! ?p])[?p := tmp] = swap child ?p ?d"
      using p less.prems by (intro swap_hole) auto
    also have "sift_up cmp (swap child ?p ?d) ?p = sift_up cmp ?d child"
      using True p less.prems by (simp add: sift_up.simps [of cmp ?d])
    finally show ?thesis .
  next
    case False
    then show ?thesis
      using less.prems by (auto simp: push_loop.simps [of cmp c] sift_up.simps [of cmp ?d])
  qed
qed

lemma larger_child_range:
  assumes "1 \<le> i" "i * 2 \<le> n"
  shows "i < larger_child cmp d n i" "larger_child cmp d n i \<le> n" "larger_child cmp d n i div 2 = i"
  using assms by (auto simp: larger_child_def)

lemma larger_child_cong:
  assumes "\<And>k. k > i \<Longrightarrow> d ! k = c ! k" "1 \<le> i"
  shows "larger_child cmp d n i = larger_child cmp c n i"
  using assms by (simp add: larger_child_def)

lemma pop_loop_unfold:
  "pop_loop cmp c n i tmp =
     (if 1 \<le> i \<and> i * 2 \<le> n \<and> cmp tmp (c ! larger_child cmp c n i)
      then pop_loop cmp (c[i := c ! larger_child cmp c n i]) n (larger_child cmp c n i) tmp
      else c[i := tmp])"
  by (subst pop_loop.simps) (simp add: larger_child_def Let_def)

lemma pop_loop_sift_down:
  assumes "1 \<le> i" "n < length c" "i \<le> n"
  shows "pop_loop cmp c n i tmp = sift_down cmp (c[i := tmp]) n i"
  using assms
proof (induction "Suc n - i" arbitrary: c i rule: less_induct)
  case less
  let ?d = "c[i := tmp]"
  let ?j = "larger_child cmp c n i"
  have j: "larger_child cmp ?d n i = ?j"
    using less.prems by (intro larger_child_cong) auto
  show ?case
  proof (cases "i * 2 \<le> n \<and> cmp tmp (c ! ?j)")
    case True
    then have r: "i < ?j" "?j \<le> n" using less.prems larger_child_range [of i n cmp c] by auto
    have "pop_loop cmp c n i tmp = pop_loop cmp (c[i := c ! ?j]) n ?j tmp"
      using True less.prems by (subst pop_loop_unfold) simp
    also have "\<dots> = sift_down cmp ((c[i := c ! ?j])[?j := tmp]) n ?j"
      using less.hyps [of ?j "c[i := c ! ?j]"] r less.prems by simp
    also have "(c[i := c ! ?j])[?j := tmp] = swap i ?j ?d"
      using r less.prems by (intro swap_hole) auto
    also have "sift_down cmp (swap i ?j ?d) n ?j = sift_down cmp ?d n i"
      using True r less.prems j by (subst (2) sift_down.simps) simp
    finally show ?thesis .
  next
    case False
    then show ?thesis
      using less.prems j larger_child_range [of i n cmp c]
      by (subst pop_loop_unfold, subst sift_down.simps) auto
  qed
qed

section \<open>Heap order\<close>

definition heap_elems :: "'a heap \<Rightarrow> 'a multiset" where
  "heap_elems c = mset (tl c)"

text \<open>No element is smaller, in the comparator's sense, than one below it.\<close>

definition heap_ok :: "('a \<Rightarrow> 'a \<Rightarrow> bool) \<Rightarrow> 'a heap \<Rightarrow> bool" where
  "heap_ok cmp c \<longleftrightarrow> c \<noteq> [] \<and> (\<forall>i\<in>{2..<length c}. \<not> cmp (c ! (i div 2)) (c ! i))"

text \<open>The order with one exception: at slot \<open>i\<close> while sifting up, below slot \<open>i\<close> while sifting down.\<close>

definition heap_but_up :: "('a \<Rightarrow> 'a \<Rightarrow> bool) \<Rightarrow> 'a list \<Rightarrow> nat \<Rightarrow> bool" where
  "heap_but_up cmp d i \<longleftrightarrow>
     (\<forall>k\<in>{2..<length d}. (k \<noteq> i \<longrightarrow> \<not> cmp (d ! (k div 2)) (d ! k)) \<and>
       (k div 2 = i \<longrightarrow> 2 \<le> i \<longrightarrow> \<not> cmp (d ! (i div 2)) (d ! k)))"

definition heap_but_down :: "('a \<Rightarrow> 'a \<Rightarrow> bool) \<Rightarrow> 'a list \<Rightarrow> nat \<Rightarrow> bool" where
  "heap_but_down cmp d i \<longleftrightarrow>
     (\<forall>k\<in>{2..<length d}. (k div 2 \<noteq> i \<longrightarrow> \<not> cmp (d ! (k div 2)) (d ! k)) \<and>
       (k div 2 = i \<longrightarrow> 2 \<le> i \<longrightarrow> \<not> cmp (d ! (i div 2)) (d ! k)))"

lemma mset_sentinel: "x \<noteq> [] \<Longrightarrow> mset x = add_mset (x ! 0) (heap_elems x)"
  by (cases x) (simp_all add: heap_elems_def)

locale weak_order =
  fixes cmp :: "'a \<Rightarrow> 'a \<Rightarrow> bool"
  assumes asym: "cmp x y \<Longrightarrow> \<not> cmp y x"
    and neg_trans: "\<not> cmp x y \<Longrightarrow> \<not> cmp y z \<Longrightarrow> \<not> cmp x z"
begin

lemma irrefl: "\<not> cmp x x"
  using asym by blast

lemma below_top:
  assumes "heap_ok cmp c" "1 \<le> i" "i < length c"
  shows "\<not> cmp (c ! 1) (c ! i)"
  using assms(2,3)
proof (induction i rule: less_induct)
  case (less i)
  show ?case
  proof (cases "i = 1")
    case False
    then have "\<not> cmp (c ! 1) (c ! (i div 2))" using less by simp
    moreover have "\<not> cmp (c ! (i div 2)) (c ! i)"
      using assms(1) less.prems False by (simp add: heap_ok_def)
    ultimately show ?thesis by (rule neg_trans)
  qed (simp add: irrefl)
qed

lemma swap_up_ok:
  assumes "heap_but_up cmp d i" "i < length d" "i div 2 \<noteq> 0" "cmp (d ! (i div 2)) (d ! i)"
  shows "heap_but_up cmp (swap i (i div 2) d) (i div 2)"
  unfolding heap_but_up_def
proof (intro ballI conjI impI)
  let ?p = "i div 2" and ?e = "swap i (i div 2) d"
  have p: "?p < i" "?p < length d" "i \<noteq> ?p" "2 \<le> i" using assms(2,3) by auto
  note e = nth_swap [OF assms(2) p(2) p(3)]
  have parent_ok: "\<not> cmp (d ! (?p div 2)) (d ! ?p)" if "2 \<le> ?p"
    using assms(1) p that unfolding heap_but_up_def by auto
  fix k assume k: "k \<in> {2..<length ?e}"
  have ok: "k \<noteq> i \<Longrightarrow> \<not> cmp (d ! (k div 2)) (d ! k)" "k div 2 = i \<Longrightarrow> \<not> cmp (d ! ?p) (d ! k)"
    using assms(1) k p(4) unfolding heap_but_up_def by auto
  show "\<not> cmp (?e ! (k div 2)) (?e ! k)" if "k \<noteq> ?p"
  proof -
    consider "k = i" | "k \<noteq> i" "k div 2 = ?p" | "k div 2 = i" | "k \<noteq> i" "k div 2 \<noteq> ?p" "k div 2 \<noteq> i"
      by blast
    then show ?thesis
    proof cases
      case 2
      then have "\<not> cmp (d ! ?p) (d ! k)" using ok by metis
      then have "\<not> cmp (d ! i) (d ! k)" using asym [OF assms(4)] neg_trans by blast
      then show ?thesis using 2 that p by (simp add: e)
    qed (use that p ok asym [OF assms(4)] in \<open>auto simp: e\<close>)
  qed
  show "\<not> cmp (?e ! (?p div 2)) (?e ! k)" if "k div 2 = ?p" "2 \<le> ?p"
  proof -
    have "?p div 2 \<noteq> i" "?p div 2 \<noteq> ?p" "k \<noteq> ?p" using p that k by auto
    moreover have "\<not> cmp (d ! (?p div 2)) (d ! k)" if "k \<noteq> i"
      using ok(1) [OF that] \<open>k div 2 = ?p\<close> parent_ok [OF \<open>2 \<le> ?p\<close>] neg_trans by metis
    ultimately show ?thesis using parent_ok [OF that(2)] by (simp add: e)
  qed
qed

lemma sift_up_ok:
  assumes "heap_but_up cmp d i" "i < length d" "1 \<le> i"
  shows "heap_ok cmp (sift_up cmp d i) \<and> mset (sift_up cmp d i) = mset d \<and>
    length (sift_up cmp d i) = length d \<and> sift_up cmp d i ! 0 = d ! 0"
  using assms
proof (induction i arbitrary: d rule: less_induct)
  case (less i)
  let ?p = "i div 2"
  show ?case
  proof (cases "?p \<noteq> 0 \<and> cmp (d ! ?p) (d ! i)")
    case True
    then have p: "?p < i" "?p < length d" "i \<noteq> ?p" using less.prems by auto
    have s: "heap_but_up cmp (swap i ?p d) ?p" using True less.prems swap_up_ok by blast
    have IH: "heap_ok cmp (sift_up cmp (swap i ?p d) ?p) \<and>
        mset (sift_up cmp (swap i ?p d) ?p) = mset (swap i ?p d) \<and>
        length (sift_up cmp (swap i ?p d) ?p) = length (swap i ?p d) \<and>
        sift_up cmp (swap i ?p d) ?p ! 0 = swap i ?p d ! 0"
      using less.IH [OF p(1) s] p True by simp
    moreover have "swap i ?p d ! 0 = d ! 0" using nth_swap [OF less.prems(2) p(2) p(3)] True by auto
    ultimately show ?thesis
      using True mset_swap_eq [OF less.prems(2) p(2)] by (simp add: sift_up.simps [of cmp d])
  next
    case False
    have "\<not> cmp (d ! (k div 2)) (d ! k)" if "k \<in> {2..<length d}" for k
      using less.prems(1) False that unfolding heap_but_up_def by (cases "k = i") auto
    then show ?thesis
      using False less.prems(2) by (auto simp: sift_up.simps [of cmp d] heap_ok_def)
  qed
qed

lemma Push_ok:
  assumes "heap_ok cmp c"
  shows "heap_ok cmp (Push cmp v c)" "heap_elems (Push cmp v c) = add_mset v (heap_elems c)"
proof -
  have c: "c \<noteq> []" "1 \<le> length c" using assms by (auto simp: heap_ok_def Suc_le_eq)
  have but: "heap_but_up cmp (c @ [v]) (length c)"
    using assms by (auto simp: heap_but_up_def heap_ok_def nth_append)
  have eq: "Push cmp v c = sift_up cmp (c @ [v]) (length c)"
    using push_loop_sift_up [of "length c" "c @ [v]" cmp v] by (simp add: Push_def)
  note s = sift_up_ok [OF but _ c(2)]
  show "heap_ok cmp (Push cmp v c)" using s by (simp add: eq)
  have "mset (Push cmp v c) = add_mset v (mset c)" "Push cmp v c ! 0 = c ! 0" "Push cmp v c \<noteq> []"
    using s c(1) by (auto simp: eq nth_append simp flip: length_greater_0_conv)
  then have "add_mset (c ! 0) (heap_elems (Push cmp v c)) = add_mset v (add_mset (c ! 0) (heap_elems c))"
    using c(1) mset_sentinel by metis
  then show "heap_elems (Push cmp v c) = add_mset v (heap_elems c)"
    by (simp add: add_mset_commute [of v])
qed

lemma larger_child_max:
  assumes "k div 2 = i" "2 \<le> k" "k \<le> n"
  shows "\<not> cmp (d ! larger_child cmp d n i) (d ! k)"
proof (cases "k = i * 2")
  case True
  then show ?thesis using irrefl asym by (simp add: larger_child_def)
next
  case False
  then have "k = i * 2 + 1" using assms(1) by auto
  then show ?thesis using assms(3) irrefl by (simp add: larger_child_def)
qed

lemma swap_down_ok:
  assumes "heap_but_down cmp d i" "n = length d - 1" "1 \<le> i" "i * 2 \<le> n"
    "cmp (d ! i) (d ! larger_child cmp d n i)"
  shows "heap_but_down cmp (swap i (larger_child cmp d n i) d) (larger_child cmp d n i)"
  unfolding heap_but_down_def
proof (intro ballI conjI impI)
  let ?j = "larger_child cmp d n i"
  let ?e = "swap i ?j d"
  have j: "i < ?j" "?j < length d" "?j div 2 = i" "i \<noteq> ?j" "i < length d"
    using larger_child_range [OF assms(3,4), of cmp d] assms(2,4) by auto
  note e = nth_swap [OF j(5,2,4)]
  fix k assume k: "k \<in> {2..<length ?e}"
  have ok: "k div 2 \<noteq> i \<Longrightarrow> \<not> cmp (d ! (k div 2)) (d ! k)"
    using assms(1) k unfolding heap_but_down_def by auto
  have sib: "\<not> cmp (d ! ?j) (d ! k)" if "k div 2 = i"
    using that k assms(2) by (intro larger_child_max) auto
  have up: "\<not> cmp (d ! (i div 2)) (d ! ?j)" if "2 \<le> i"
    using assms(1) j that unfolding heap_but_down_def by auto
  show "\<not> cmp (?e ! (k div 2)) (?e ! k)" if "k div 2 \<noteq> ?j"
  proof -
    consider "k = ?j" | "k = i" | "k div 2 = i" "k \<noteq> ?j" | "k \<noteq> i" "k \<noteq> ?j" "k div 2 \<noteq> i" by blast
    then show ?thesis
    proof cases
      case 2
      then have "2 \<le> i" "i div 2 \<noteq> i" "i div 2 \<noteq> ?j" using k j by auto
      then show ?thesis using 2 up by (simp add: e)
    qed (use that j ok sib asym [OF assms(5)] k in \<open>auto simp: e\<close>)
  qed
  show "\<not> cmp (?e ! (?j div 2)) (?e ! k)" if "k div 2 = ?j"
  proof -
    have "k \<noteq> i" "k \<noteq> ?j" "k div 2 \<noteq> i" using that j k by auto
    then show ?thesis using ok that j by (simp add: e)
  qed
qed

lemma sift_down_ok:
  assumes "heap_but_down cmp d i" "n = length d - 1" "1 \<le> i" "d \<noteq> []" "i \<le> n"
  shows "heap_ok cmp (sift_down cmp d n i) \<and> mset (sift_down cmp d n i) = mset d \<and>
    length (sift_down cmp d n i) = length d \<and> sift_down cmp d n i ! 0 = d ! 0"
  using assms
proof (induction "Suc n - i" arbitrary: d i rule: less_induct)
  case less
  let ?j = "larger_child cmp d n i"
  show ?case
  proof (cases "i * 2 \<le> n \<and> cmp (d ! i) (d ! ?j)")
    case True
    then have j: "i < ?j" "?j \<le> n" "?j < length d" "i < length d" "i \<noteq> ?j"
      using larger_child_range [of i n cmp d] less.prems by auto
    have "heap_but_down cmp (swap i ?j d) ?j" using True less.prems swap_down_ok by blast
    then have IH: "heap_ok cmp (sift_down cmp (swap i ?j d) n ?j) \<and>
        mset (sift_down cmp (swap i ?j d) n ?j) = mset (swap i ?j d) \<and>
        length (sift_down cmp (swap i ?j d) n ?j) = length (swap i ?j d) \<and>
        sift_down cmp (swap i ?j d) n ?j ! 0 = swap i ?j d ! 0"
      using less.prems j by (intro less.hyps) (auto simp flip: length_greater_0_conv)
    moreover have "swap i ?j d ! 0 = d ! 0" using nth_swap [OF j(4,3,5)] j less.prems by auto
    ultimately show ?thesis
      using True less.prems mset_swap_eq [OF j(4,3)] by (simp add: sift_down.simps [of cmp d])
  next
    case False
    have "\<not> cmp (d ! (k div 2)) (d ! k)" if k: "k \<in> {2..<length d}" for k
    proof (cases "k div 2 = i")
      case True
      then have "i * 2 \<le> n" using k less.prems by auto
      then have "\<not> cmp (d ! i) (d ! ?j)" using False by blast
      moreover have "\<not> cmp (d ! ?j) (d ! k)"
        using True k less.prems(2) by (intro larger_child_max) auto
      ultimately show ?thesis using True neg_trans by metis
    next
      case False
      then show ?thesis using less.prems(1) k unfolding heap_but_down_def by auto
    qed
    then have "heap_ok cmp d" using less.prems by (simp add: heap_ok_def)
    then show ?thesis using False less.prems by (auto simp: sift_down.simps [of cmp d])
  qed
qed

lemma heap_ok_fill_root:
  assumes "heap_ok cmp c" "3 \<le> length c"
  shows "heap_but_down cmp ((butlast c)[1 := x]) 1"
  unfolding heap_but_down_def
proof (intro ballI conjI impI)
  fix k assume k: "k \<in> {2..<length ((butlast c)[1 := x])}" "k div 2 \<noteq> 1"
  then have "k div 2 < length (butlast c)" "k < length c" by auto
  then show "\<not> cmp ((butlast c)[1 := x] ! (k div 2)) ((butlast c)[1 := x] ! k)"
    using assms k by (auto simp: heap_ok_def nth_butlast)
qed simp

lemma mset_fill_root:
  assumes "3 \<le> length c"
  shows "add_mset (c ! 1) (mset ((butlast c)[1 := last c])) = mset c"
proof -
  obtain s x xs y where c: "c = s # x # xs @ [y]"
  proof -
    have "c \<noteq> []" using assms by auto
    then obtain bs y where b: "c = bs @ [y]" by (metis rev_exhaust)
    with assms obtain s x xs where "bs = s # x # xs"
      by (cases bs; cases "tl bs") auto
    with b that show thesis by simp
  qed
  then have "(butlast c)[1 := last c] = s # y # xs" by (simp add: butlast_append)
  then show ?thesis by (simp add: c)
qed

lemma Pop_ok:
  assumes "heap_ok cmp c" "\<not> IsEmpty c" "Pop cmp c = (v, c')"
  shows "v = Top c" "heap_ok cmp c'" "heap_elems c = add_mset v (heap_elems c')"
proof -
  have len: "2 \<le> length c" using assms(2) by (simp add: IsEmpty_def)
  show v: "v = Top c" using assms(3) by (auto simp: Pop_def Top_def Let_def split: if_splits)
  have "heap_ok cmp c' \<and> heap_elems c = add_mset v (heap_elems c')"
  proof (cases "length c = 2")
    case True
    then obtain s x where "c = [s, x]" by (metis One_nat_def Suc_1 length_0_conv length_Suc_conv)
    then show ?thesis
      using assms(3) by (auto simp: Pop_def heap_ok_def heap_elems_def)
  next
    case False
    then have l3: "3 \<le> length c" using len by simp
    let ?n = "length c - 2" and ?d = "(butlast c)[1 := last c]"
    have "c \<noteq> []" using len by auto
    then have "c ! (length c - 1) = last c" by (simp add: last_conv_nth)
    then have c': "c' = sift_down cmp ?d ?n 1"
      using assms(3) l3 pop_loop_sift_down [of 1 ?n "butlast c" cmp "last c"]
      by (auto simp: Pop_def Let_def numeral_2_eq_2 split: if_splits)
    have n: "?n = length ?d - 1" "1 \<le> (1::nat)" "?d \<noteq> []" "1 \<le> ?n"
      using l3 by (auto simp flip: length_greater_0_conv)
    have s: "heap_ok cmp c'" "mset c' = mset ?d" "c' ! 0 = ?d ! 0"
      using sift_down_ok [OF heap_ok_fill_root [OF assms(1) l3] n] unfolding c' by blast+
    have "mset c = add_mset (c ! 1) (mset c')" using mset_fill_root [OF l3] s by simp
    moreover have "c' ! 0 = c ! 0" "c' \<noteq> []" "c \<noteq> []"
      using s len by (auto simp: nth_butlast heap_ok_def)
    ultimately have "add_mset (c ! 0) (heap_elems c) = add_mset (c ! 1) (add_mset (c ! 0) (heap_elems c'))"
      using mset_sentinel by metis
    then show ?thesis using s v by (simp add: Top_def add_mset_commute [of "c ! 1"])
  qed
  then show "heap_ok cmp c'" "heap_elems c = add_mset v (heap_elems c')" by auto
qed

lemma Top_maximal:
  assumes "heap_ok cmp c" "x \<in># heap_elems c"
  shows "\<not> cmp (Top c) x"
proof -
  from assms(2) obtain i where "i < length (tl c)" "x = tl c ! i"
    by (auto simp: heap_elems_def in_set_conv_nth)
  then have "x = c ! Suc i" "Suc i < length c" by (simp_all add: nth_tl)
  then show ?thesis using below_top [OF assms(1), of "Suc i"] by (simp add: Top_def)
qed

end

section \<open>The contract of a priority queue\<close>

text \<open>
  What the session map relies on: the queue is a multiset of entries, pushing adds one, the top
  is never smaller in the comparator's sense than another entry, and popping removes the top.
\<close>

locale priority_queue =
  fixes push :: "'a \<Rightarrow> 'q \<Rightarrow> 'q" and pop :: "'q \<Rightarrow> 'a \<times> 'q" and top_of :: "'q \<Rightarrow> 'a"
    and is_empty :: "'q \<Rightarrow> bool" and size_of :: "'q \<Rightarrow> nat"
    and elems :: "'q \<Rightarrow> 'a multiset" and inv :: "'q \<Rightarrow> bool" and cmp :: "'a \<Rightarrow> 'a \<Rightarrow> bool"
  assumes push_inv: "inv q \<Longrightarrow> inv (push v q)"
    and push_elems: "inv q \<Longrightarrow> elems (push v q) = add_mset v (elems q)"
    and empty_elems: "inv q \<Longrightarrow> is_empty q \<longleftrightarrow> elems q = {#}"
    and size_elems: "inv q \<Longrightarrow> size_of q = size (elems q)"
    and pop_top: "inv q \<Longrightarrow> \<not> is_empty q \<Longrightarrow> pop q = (v, q') \<Longrightarrow> v = top_of q"
    and pop_inv: "inv q \<Longrightarrow> \<not> is_empty q \<Longrightarrow> pop q = (v, q') \<Longrightarrow> inv q'"
    and pop_elems: "inv q \<Longrightarrow> \<not> is_empty q \<Longrightarrow> pop q = (v, q') \<Longrightarrow> elems q = add_mset v (elems q')"
    and top_max: "inv q \<Longrightarrow> x \<in># elems q \<Longrightarrow> \<not> cmp (top_of q) x"
begin

lemma pop_size:
  assumes "inv q" "\<not> is_empty q" "pop q = (v, q')"
  shows "size_of q = Suc (size_of q')"
  using assms pop_inv [OF assms] pop_elems [OF assms] by (simp add: size_elems)

lemma top_in: "inv q \<Longrightarrow> \<not> is_empty q \<Longrightarrow> top_of q \<in># elems q"
  using pop_top [of q] pop_elems [of q] by (cases "pop q") auto

end

sublocale weak_order \<subseteq> priority_queue "Push cmp" "Pop cmp" Top IsEmpty GetSize heap_elems
  "heap_ok cmp" cmp
proof
  show "heap_ok cmp q \<Longrightarrow> IsEmpty q \<longleftrightarrow> heap_elems q = {#}" for q
    by (cases q) (auto simp: IsEmpty_def heap_elems_def heap_ok_def)
  show "heap_ok cmp q \<Longrightarrow> GetSize q = size (heap_elems q)" for q
    by (simp add: GetSize_def heap_elems_def)
qed (use Push_ok Pop_ok Top_maximal in blast)+

lemma heap_ok_new [simp]: "heap_ok cmp (new_heap s)" "heap_elems (new_heap s) = {#}"
  by (simp_all add: heap_ok_def new_heap_def heap_elems_def)

section \<open>Properties\<close>

text \<open>
  The heap sorts: for any strict weak order, pushing adds exactly the pushed element and
  popping a non-empty heap returns an element no other element is above and removes exactly that
  one, the heap order being restored each time.
\<close>

theorem heap_push_pop:
  assumes "\<And>x y. cmp x y \<Longrightarrow> \<not> cmp y x" "\<And>x y z. \<not> cmp x y \<Longrightarrow> \<not> cmp y z \<Longrightarrow> \<not> cmp x z"
    "heap_ok cmp c" "Pop cmp (Push cmp v c) = (u, c')"
  shows "heap_ok cmp (Push cmp v c) \<and> heap_elems (Push cmp v c) = add_mset v (heap_elems c) \<and>
    heap_ok cmp c' \<and> add_mset u (heap_elems c') = add_mset v (heap_elems c) \<and>
    (\<forall>x\<in>#heap_elems c'. \<not> cmp u x)"
proof -
  have w: "weak_order cmp" by (unfold_locales) (use assms(1,2) in blast)+
  have p: "heap_ok cmp (Push cmp v c)" "heap_elems (Push cmp v c) = add_mset v (heap_elems c)"
    using weak_order.Push_ok [OF w assms(3)] by auto
  then have "heap_elems (Push cmp v c) \<noteq> {#}" by simp
  then have ne: "\<not> IsEmpty (Push cmp v c)"
    by (auto simp: IsEmpty_def heap_elems_def)
       (metis One_nat_def diff_is_0_eq length_tl length_0_conv mset.simps(1))
  note q = weak_order.Pop_ok [OF w p(1) ne assms(4)]
  have "\<not> cmp u x" if "x \<in># heap_elems c'" for x
    using weak_order.Top_maximal [OF w p(1), of x] that q by simp
  then show ?thesis using p q by simp
qed

theorem heap_push_pop_witness:
  "let c = [0, 5, 3, 4] :: int list; (u, c') = Pop (<) (Push (<) 9 c) in
    u = 9 \<and> heap_ok (<) c' \<and> add_mset u (heap_elems c') = add_mset 9 (heap_elems c)"
proof -
  have e: "Pop (<) (Push (<) 9 [0, 5, 3, 4 :: int]) = (9, [0, 5, 3, 4])" by code_simp
  have "heap_ok (<) [0, 5, 3, 4 :: int]" by code_simp
  from heap_push_pop [OF _ _ this e] show ?thesis by (simp add: e)
qed

end
