(* ===== verification/Session_Map.thy ===== *)
theory Session_Map
  imports Session_Heap
begin

text \<open>
  The session map (\<^verbatim>\<open>session/session_map.cc\<close>, \<^verbatim>\<open>session/session_map_cleaner.cc\<close>): contexts by
  session id, each with a lease that touching it extends, and a queue of expiry entries from which
  expired sessions are collected. Entries of the queue are never updated; a stale one is
  recognised when it is popped because its time differs from the lease. The methods run under a
  mutex, so each is one step; the clock readings they take are arguments.
\<close>

section \<open>Time\<close>

text \<open>
  A \<^verbatim>\<open>steady_clock\<close> time point is a signed count of nanoseconds. \<^verbatim>\<open>std::chrono::milliseconds(n)\<close>
  of a \<^verbatim>\<open>size_t\<close> stores \<open>n\<close> in a signed 64-bit count and is scaled when added to a time point.
\<close>

type_synonym time_point = int

definition milliseconds :: "size_t \<Rightarrow> int" where
  "milliseconds n = sint n * 1000000"

definition kMinSessionTimeout :: size_t where
  "kMinSessionTimeout = 1000"

section \<open>State\<close>

record SessionKeyHeapEntry =
  key_id :: string
  key_expiry :: time_point

definition key_less :: "SessionKeyHeapEntry \<Rightarrow> SessionKeyHeapEntry \<Rightarrow> bool" where
  "key_less a b \<longleftrightarrow> key_expiry a > key_expiry b"

text \<open>
  A context is identified by a number; \<open>contexts_made\<close> counts the allocations, so that the next
  context is different from all earlier ones.
\<close>

record SessionContextEntry =
  ctx :: nat
  expiry :: time_point

record SessionMap =
  sessions :: "(string, SessionContextEntry) umap"
  pqueue :: "SessionKeyHeapEntry heap"
  allow_cleaner :: bool
  cleaner_interval :: size_t
  default_timeout :: size_t
  contexts_made :: nat

definition no_key :: SessionKeyHeapEntry where
  "no_key = \<lparr>key_id = [], key_expiry = 0\<rparr>"

definition new_SessionMap :: SessionMap where
  "new_SessionMap =
     \<lparr>sessions = [], pqueue = new_heap no_key, allow_cleaner = False,
      cleaner_interval = 1000 * 60 * 30, default_timeout = 1000 * 60 * 60 * 2, contexts_made = 0\<rparr>"

abbreviation push_key :: "string \<Rightarrow> time_point \<Rightarrow> SessionKeyHeapEntry heap \<Rightarrow> SessionKeyHeapEntry heap" where
  "push_key i t q \<equiv> Push key_less \<lparr>key_id = i, key_expiry = t\<rparr> q"

section \<open>Cleaning\<close>

definition expired_on_top :: "time_point \<Rightarrow> SessionMap \<Rightarrow> bool" where
  "expired_on_top now s \<longleftrightarrow> \<not> IsEmpty (pqueue s) \<and> key_expiry (Top (pqueue s)) \<le> now"

definition clean_one :: "SessionMap \<Rightarrow> SessionMap" where
  "clean_one s =
     (case Pop key_less (pqueue s) of
        (key_entry, q) \<Rightarrow>
          (case map_of (sessions s) (key_id key_entry) of
             None \<Rightarrow> s\<lparr>pqueue := q\<rparr>
           | Some e \<Rightarrow>
               if expiry e = key_expiry key_entry
               then s\<lparr>pqueue := q, sessions := erase_key (key_id key_entry) (sessions s)\<rparr>
               else s\<lparr>pqueue := q\<rparr>))"

text \<open>The first argument is the number of rounds the cap of eight still allows.\<close>

fun short_clean_loop :: "nat \<Rightarrow> time_point \<Rightarrow> SessionMap \<Rightarrow> SessionMap" where
  "short_clean_loop 0 now s = s"
| "short_clean_loop (Suc rounds) now s =
     (if expired_on_top now s then short_clean_loop rounds now (clean_one s) else s)"

definition ShortClean :: "time_point \<Rightarrow> SessionMap \<Rightarrow> SessionMap" where
  "ShortClean now s =
     (if GetSize (pqueue s) > length (sessions s) * 2 then short_clean_loop 8 now s else s)"

lemma length_sift_down [simp]: "length (sift_down cmp d n i) = length d"
  by (induction cmp d n i rule: sift_down.induct) (simp add: sift_down.simps)

lemma length_Pop: "2 \<le> length c \<Longrightarrow> length (snd (Pop cmp c)) = length c - 1"
  by (auto simp: Pop_def Let_def pop_loop_sift_down)

lemma length_clean_one:
  "\<not> IsEmpty (pqueue s) \<Longrightarrow> length (pqueue (clean_one s)) < length (pqueue s)"
  using length_Pop [of "pqueue s" key_less]
  by (auto simp: clean_one_def IsEmpty_def split: prod.splits option.splits)

function ThoroughClean :: "time_point \<Rightarrow> SessionMap \<Rightarrow> SessionMap" where
  "ThoroughClean now s = (if expired_on_top now s then ThoroughClean now (clean_one s) else s)"
  by pat_completeness auto
termination
  by (relation "measure (\<lambda>(_, s). length (pqueue s))") (auto simp: expired_on_top_def length_clean_one)

declare ThoroughClean.simps [simp del]

section \<open>Operations\<close>

text \<open>\<open>now\<close> is the first clock reading of a method, \<open>now'\<close> the one \<^verbatim>\<open>ShortClean\<close> takes at its end.\<close>

definition GetSession :: "time_point \<Rightarrow> time_point \<Rightarrow> string \<Rightarrow> SessionMap \<Rightarrow> nat \<times> SessionMap" where
  "GetSession now now' sessionid s =
     (case map_of (sessions s) sessionid of
        Some e \<Rightarrow>
          if expiry e > now then
            (let new_expiry = max (now + milliseconds (default_timeout s)) (expiry e);
                 s1 = (if new_expiry \<noteq> expiry e
                       then s\<lparr>pqueue := push_key sessionid new_expiry (pqueue s)\<rparr> else s);
                 s2 = s1\<lparr>sessions := insert_or_assign sessionid (e\<lparr>expiry := new_expiry\<rparr>) (sessions s1)\<rparr>
             in (ctx e, ShortClean now' s2))
          else
            (let new_expiry = now + milliseconds (max kMinSessionTimeout (default_timeout s));
                 s1 = s\<lparr>contexts_made := Suc (contexts_made s),
                        sessions := emplace sessionid \<lparr>ctx = contexts_made s, expiry = new_expiry\<rparr> (sessions s),
                        pqueue := push_key sessionid new_expiry (pqueue s)\<rparr>
             in (contexts_made s, ShortClean now' s1))
      | None \<Rightarrow>
          (let new_expiry = now + milliseconds (max kMinSessionTimeout (default_timeout s));
               s1 = s\<lparr>contexts_made := Suc (contexts_made s),
                      sessions := emplace sessionid \<lparr>ctx = contexts_made s, expiry = new_expiry\<rparr> (sessions s),
                      pqueue := push_key sessionid new_expiry (pqueue s)\<rparr>
           in (contexts_made s, ShortClean now' s1)))"

definition RemoveSession :: "time_point \<Rightarrow> string \<Rightarrow> SessionMap \<Rightarrow> bool \<times> SessionMap" where
  "RemoveSession now' sessionid s =
     (case map_of (sessions s) sessionid of
        Some _ \<Rightarrow> (True, ShortClean now' (s\<lparr>sessions := erase_key sessionid (sessions s)\<rparr>))
      | None \<Rightarrow> (False, ShortClean now' s))"

definition SetSessionTimeout ::
  "time_point \<Rightarrow> time_point \<Rightarrow> string \<Rightarrow> size_t \<Rightarrow> SessionMap \<Rightarrow> SessionMap" where
  "SetSessionTimeout now now' sessionid timeout s =
     (case map_of (sessions s) sessionid of
        Some e \<Rightarrow>
          (let new_expiry = max (expiry e) (now + milliseconds (max kMinSessionTimeout timeout))
           in if new_expiry \<noteq> expiry e then
                ShortClean now' (s\<lparr>pqueue := push_key sessionid new_expiry (pqueue s),
                  sessions := insert_or_assign sessionid (e\<lparr>expiry := new_expiry\<rparr>) (sessions s)\<rparr>)
              else ShortClean now' s)
      | None \<Rightarrow>
          (let new_expiry = now + milliseconds (max kMinSessionTimeout timeout)
           in ShortClean now'
                (s\<lparr>contexts_made := Suc (contexts_made s),
                   sessions := emplace sessionid \<lparr>ctx = contexts_made s, expiry = new_expiry\<rparr> (sessions s),
                   pqueue := push_key sessionid new_expiry (pqueue s)\<rparr>)))"

text \<open>The overloads that take the id by rvalue reference have the same bodies.\<close>

definition GetSession_rvalue :: "time_point \<Rightarrow> time_point \<Rightarrow> string \<Rightarrow> SessionMap \<Rightarrow> nat \<times> SessionMap" where
  "GetSession_rvalue = GetSession"

definition RemoveSession_rvalue :: "time_point \<Rightarrow> string \<Rightarrow> SessionMap \<Rightarrow> bool \<times> SessionMap" where
  "RemoveSession_rvalue = RemoveSession"

definition SetSessionTimeout_rvalue ::
  "time_point \<Rightarrow> time_point \<Rightarrow> string \<Rightarrow> size_t \<Rightarrow> SessionMap \<Rightarrow> SessionMap" where
  "SetSessionTimeout_rvalue = SetSessionTimeout"

definition SetCleanerInterval :: "size_t \<Rightarrow> SessionMap \<Rightarrow> SessionMap" where
  "SetCleanerInterval interval s = s\<lparr>cleaner_interval := interval\<rparr>"

definition SetDefaultSessionTimeout :: "size_t \<Rightarrow> SessionMap \<Rightarrow> SessionMap" where
  "SetDefaultSessionTimeout timeout s = s\<lparr>default_timeout := timeout\<rparr>"

text \<open>What is asked of the timer: arm it after a delay, cancel its wait, or nothing.\<close>

datatype timer_request = ArmAfter int | CancelWait | NoRequest

definition SetCleaner :: "SessionMap \<Rightarrow> timer_request" where
  "SetCleaner s =
     (if \<not> allow_cleaner s then NoRequest
      else ArmAfter (max (milliseconds kMinSessionTimeout) (milliseconds (cleaner_interval s))))"

definition SetBackgroundCleaner :: "bool \<Rightarrow> SessionMap \<Rightarrow> timer_request \<times> SessionMap" where
  "SetBackgroundCleaner allow s =
     (if allow = allow_cleaner s then (NoRequest, s)
      else (let s' = s\<lparr>allow_cleaner := allow\<rparr>
            in if allow then (SetCleaner s', s') else (CancelWait, s')))"

text \<open>
  The job the timer posts to the worker pool, run while the server was running at the timer's
  expiry; \<open>running\<close> is the server's state when the job ends.
\<close>

definition cleaner_job :: "time_point \<Rightarrow> bool \<Rightarrow> SessionMap \<Rightarrow> timer_request \<times> SessionMap" where
  "cleaner_job now running s =
     (let s' = (if GetSize (pqueue s) < length (sessions s) * 8
                then ShortClean now s else ThoroughClean now s)
      in (if allow_cleaner s' \<and> running then SetCleaner s' else NoRequest, s'))"

section \<open>The invariant\<close>

interpretation kq: weak_order key_less
  by unfold_locales (auto simp: key_less_def)

text \<open>
  The lease of every session has an entry in the queue, so that the session is found when the
  lease ends; contexts in the map have been allocated and belong to one session each.
\<close>

definition session_ok :: "SessionMap \<Rightarrow> bool" where
  "session_ok s \<longleftrightarrow>
     umap_ok (sessions s) \<and> heap_ok key_less (pqueue s) \<and>
     (\<forall>ie\<in>set (sessions s).
        \<lparr>key_id = fst ie, key_expiry = expiry (snd ie)\<rparr> \<in># heap_elems (pqueue s) \<and>
        ctx (snd ie) < contexts_made s) \<and>
     distinct (map (\<lambda>ie. ctx (snd ie)) (sessions s))"

lemma session_ok_new [inv_intros]: "session_ok new_SessionMap"
  by (simp add: session_ok_def new_SessionMap_def)

lemma session_ok_lookup:
  assumes "session_ok s" "map_of (sessions s) i = Some e"
  shows "\<lparr>key_id = i, key_expiry = expiry e\<rparr> \<in># heap_elems (pqueue s)" "ctx e < contexts_made s"
  using assms map_of_SomeD [OF assms(2)] by (auto simp: session_ok_def)

lemma set_erase_key: "set (erase_key k m) = {kv \<in> set m. fst kv \<noteq> k}"
  by (auto simp: erase_key_def)

lemma distinct_map_erase: "distinct (map f m) \<Longrightarrow> distinct (map f (erase_key k m))"
  by (simp add: erase_key_def distinct_map_filter)

lemma clean_one_facts:
  assumes "heap_ok key_less (pqueue s)" "\<not> IsEmpty (pqueue s)"
  shows "heap_ok key_less (pqueue (clean_one s))"
    and "heap_elems (pqueue s) = add_mset (Top (pqueue s)) (heap_elems (pqueue (clean_one s)))"
    and "map_of (sessions (clean_one s)) i =
      (if map_of (sessions s) i \<noteq> None \<and>
          Top (pqueue s) = \<lparr>key_id = i, key_expiry = expiry (the (map_of (sessions s) i))\<rparr>
       then None else map_of (sessions s) i)"
proof -
  obtain v q where p: "Pop key_less (pqueue s) = (v, q)" by (cases "Pop key_less (pqueue s)")
  note k = kq.pop_top [OF assms p] kq.pop_inv [OF assms p] kq.pop_elems [OF assms p]
  have q: "pqueue (clean_one s) = q" by (auto simp: clean_one_def p split: option.splits)
  show "heap_ok key_less (pqueue (clean_one s))"
    "heap_elems (pqueue s) = add_mset (Top (pqueue s)) (heap_elems (pqueue (clean_one s)))"
    using k q by simp_all
  show "map_of (sessions (clean_one s)) i =
      (if map_of (sessions s) i \<noteq> None \<and>
          Top (pqueue s) = \<lparr>key_id = i, key_expiry = expiry (the (map_of (sessions s) i))\<rparr>
       then None else map_of (sessions s) i)"
    using k(1) by (cases v) (auto simp: clean_one_def p map_simps split: option.splits)
qed

lemma clean_one_sessions:
  "sessions (clean_one s) = sessions s \<or> (\<exists>k. sessions (clean_one s) = erase_key k (sessions s))"
  "contexts_made (clean_one s) = contexts_made s"
  by (auto simp: clean_one_def split: prod.splits option.splits)

lemma session_ok_clean_one [inv_intros]:
  assumes "session_ok s" "\<not> IsEmpty (pqueue s)"
  shows "session_ok (clean_one s)"
proof -
  have h: "heap_ok key_less (pqueue s)" and u: "umap_ok (sessions s)"
    using assms(1) by (simp_all add: session_ok_def)
  note c = clean_one_facts [OF h assms(2)]
  have u': "umap_ok (sessions (clean_one s))"
    using clean_one_sessions(1) [of s] u by (auto simp: umap_ok_erase_key)
  have "\<lparr>key_id = i, key_expiry = expiry e\<rparr> \<in># heap_elems (pqueue (clean_one s)) \<and>
      ctx e < contexts_made (clean_one s)" if "(i, e) \<in> set (sessions (clean_one s))" for i e
  proof -
    have e: "map_of (sessions (clean_one s)) i = Some e" using that u' by (simp add: umap_ok_in_set)
    then have m: "map_of (sessions s) i = Some e" "Top (pqueue s) \<noteq> \<lparr>key_id = i, key_expiry = expiry e\<rparr>"
      using c(3) [of i] by (auto split: if_splits)
    then show ?thesis
      using session_ok_lookup [OF assms(1) m(1)] c(2) clean_one_sessions(2) [of s] by auto
  qed
  moreover have "distinct (map (\<lambda>ie. ctx (snd ie)) (sessions (clean_one s)))"
    using clean_one_sessions(1) [of s] assms(1) by (auto simp: session_ok_def distinct_map_erase)
  ultimately show ?thesis
    using c(1) u' by (auto simp: session_ok_def)
qed

text \<open>
  What a cleaning pass may do: queue entries only disappear, and a session disappears only when
  its lease has ended.
\<close>

definition cleans :: "time_point \<Rightarrow> SessionMap \<Rightarrow> SessionMap \<Rightarrow> bool" where
  "cleans now s s' \<longleftrightarrow>
     session_ok s' \<and> contexts_made s' = contexts_made s \<and>
     (\<forall>i. map_of (sessions s') i = map_of (sessions s) i \<or>
       map_of (sessions s') i = None \<and> expiry (the (map_of (sessions s) i)) \<le> now)"

lemma cleans_refl: "session_ok s \<Longrightarrow> cleans now s s"
  by (simp add: cleans_def)

lemma cleans_trans: "cleans now s s' \<Longrightarrow> cleans now s' s'' \<Longrightarrow> cleans now s s''"
  by (simp add: cleans_def) metis

lemma cleans_clean_one:
  assumes "session_ok s" "expired_on_top now s"
  shows "cleans now s (clean_one s)"
proof -
  have h: "heap_ok key_less (pqueue s)" "\<not> IsEmpty (pqueue s)" "key_expiry (Top (pqueue s)) \<le> now"
    using assms by (auto simp: session_ok_def expired_on_top_def)
  then show ?thesis
    using clean_one_facts(3) [OF h(1,2)] session_ok_clean_one [OF assms(1) h(2)] clean_one_sessions(2)
    by (auto simp: cleans_def)
qed

lemma cleans_short_loop: "session_ok s \<Longrightarrow> cleans now s (short_clean_loop n now s)"
proof (induction n arbitrary: s)
  case (Suc n)
  then show ?case
    using cleans_clean_one [of s now] cleans_trans Suc.IH [of "clean_one s"]
    by (auto simp: cleans_refl) (metis cleans_def)
qed (simp add: cleans_refl)

lemma cleans_ShortClean: "session_ok s \<Longrightarrow> cleans now s (ShortClean now s)"
  by (simp add: ShortClean_def cleans_short_loop cleans_refl)

lemma cleans_ThoroughClean: "session_ok s \<Longrightarrow> cleans now s (ThoroughClean now s)"
proof (induction now s rule: ThoroughClean.induct)
  case (1 now s)
  show ?case
  proof (cases "expired_on_top now s")
    case True
    then have c: "cleans now s (clean_one s)" using 1 cleans_clean_one by blast
    then have "session_ok (clean_one s)" by (simp add: cleans_def)
    then show ?thesis
      using 1(1) [OF True] cleans_trans [OF c] True by (simp add: ThoroughClean.simps [of now s])
  next
    case False
    then show ?thesis using 1 by (simp add: ThoroughClean.simps [of now s] cleans_refl)
  qed
qed

lemma ThoroughClean_drained: "\<not> expired_on_top now (ThoroughClean now s)"
  by (induction now s rule: ThoroughClean.induct) (subst ThoroughClean.simps, simp)

lemma pushed_elems:
  "session_ok s \<Longrightarrow> heap_elems (push_key i t (pqueue s)) = add_mset \<lparr>key_id = i, key_expiry = t\<rparr> (heap_elems (pqueue s))"
  "session_ok s \<Longrightarrow> heap_ok key_less (push_key i t (pqueue s))"
  by (simp_all add: session_ok_def kq.push_elems kq.push_inv)

lemma map_insert_or_assign_same:
  "map_of m k = Some v \<Longrightarrow> f v' = f v \<Longrightarrow>
    map (\<lambda>kv. f (snd kv)) (insert_or_assign k v' m) = map (\<lambda>kv. f (snd kv)) m"
  by (induction m) (auto split: if_splits)

lemma session_ok_push [inv_intros]:
  "session_ok s \<Longrightarrow> session_ok (s\<lparr>pqueue := push_key i t (pqueue s)\<rparr>)"
  using pushed_elems [of s i t] by (auto simp: session_ok_def)

lemma session_ok_touch [inv_intros]:
  assumes "session_ok s" "map_of (sessions s) i = Some e"
    "\<lparr>key_id = i, key_expiry = t\<rparr> \<in># heap_elems (pqueue s)"
  shows "session_ok (s\<lparr>sessions := insert_or_assign i (e\<lparr>expiry := t\<rparr>) (sessions s)\<rparr>)"
proof -
  have "map (\<lambda>ie. ctx (snd ie)) (insert_or_assign i (e\<lparr>expiry := t\<rparr>) (sessions s))
      = map (\<lambda>ie. ctx (snd ie)) (sessions s)"
    using assms(2) by (rule map_insert_or_assign_same) simp
  then show ?thesis
    using assms session_ok_lookup(2) [OF assms(1,2)]
    by (auto simp: session_ok_def umap_ok_insert_or_assign dest!: set_insert_or_assign)
qed

lemma session_ok_create [inv_intros]:
  assumes "session_ok s"
  shows "session_ok (s\<lparr>contexts_made := Suc (contexts_made s),
     sessions := emplace i \<lparr>ctx = contexts_made s, expiry = t\<rparr> (sessions s),
     pqueue := push_key i t (pqueue s)\<rparr>)"
proof -
  have "contexts_made s \<notin> (\<lambda>ie. ctx (snd ie)) ` set (sessions s)"
    using assms by (force simp: session_ok_def)
  moreover have "umap_ok (emplace i \<lparr>ctx = contexts_made s, expiry = t\<rparr> (sessions s))"
    using assms by (simp add: session_ok_def umap_ok_emplace)
  ultimately show ?thesis
    using assms pushed_elems [OF assms, of i t]
    by (auto simp: session_ok_def emplace_def less_Suc_eq split: option.splits)
qed

lemma session_ok_erase [inv_intros]:
  "session_ok s \<Longrightarrow> session_ok (s\<lparr>sessions := erase_key i (sessions s)\<rparr>)"
  by (auto simp: session_ok_def umap_ok_erase_key set_erase_key distinct_map_erase)

section \<open>Runs\<close>

datatype session_op =
    OpGet time_point time_point string
  | OpRemove time_point string
  | OpSetTimeout time_point time_point string size_t
  | OpSetDefault size_t
  | OpSetInterval size_t
  | OpSetCleaner bool
  | OpCleanerJob time_point bool

fun run_op :: "session_op \<Rightarrow> SessionMap \<Rightarrow> SessionMap" where
  "run_op (OpGet now now' i) s = snd (GetSession now now' i s)"
| "run_op (OpRemove now' i) s = snd (RemoveSession now' i s)"
| "run_op (OpSetTimeout now now' i timeout) s = SetSessionTimeout now now' i timeout s"
| "run_op (OpSetDefault timeout) s = SetDefaultSessionTimeout timeout s"
| "run_op (OpSetInterval interval) s = SetCleanerInterval interval s"
| "run_op (OpSetCleaner allow) s = snd (SetBackgroundCleaner allow s)"
| "run_op (OpCleanerJob now running) s = snd (cleaner_job now running s)"

text \<open>An operation runs before \<open>t\<close>: its clock readings are in order and none is later than \<open>t\<close>.\<close>

fun runs_before :: "session_op \<Rightarrow> time_point \<Rightarrow> bool" where
  "runs_before (OpGet now now' i) t \<longleftrightarrow> now \<le> now' \<and> now' \<le> t"
| "runs_before (OpRemove now' i) t \<longleftrightarrow> now' \<le> t"
| "runs_before (OpSetTimeout now now' i timeout) t \<longleftrightarrow> now \<le> now' \<and> now' \<le> t"
| "runs_before (OpCleanerJob now running) t \<longleftrightarrow> now \<le> t"
| "runs_before _ t \<longleftrightarrow> True"

fun removes :: "session_op \<Rightarrow> string \<Rightarrow> bool" where
  "removes (OpRemove now' i) j \<longleftrightarrow> i = j"
| "removes _ j \<longleftrightarrow> False"

lemma session_ok_settings [simp]:
  "session_ok (s\<lparr>default_timeout := a\<rparr>) = session_ok s"
  "session_ok (s\<lparr>cleaner_interval := a\<rparr>) = session_ok s"
  "session_ok (s\<lparr>allow_cleaner := b\<rparr>) = session_ok s"
  by (simp_all add: session_ok_def)

text \<open>Every operation is a change of the map followed, possibly, by a cleaning pass.\<close>

definition keeps :: "SessionMap \<Rightarrow> SessionMap \<Rightarrow> string \<Rightarrow> bool" where
  "keeps s s' j \<longleftrightarrow>
     (\<forall>e. map_of (sessions s) j = Some e \<longrightarrow>
        (\<exists>e'. map_of (sessions s') j = Some e' \<and> ctx e' = ctx e \<and> expiry e \<le> expiry e'))"

lemma keeps_clean:
  assumes "keeps s s1 j" "cleans now s1 s2" "map_of (sessions s) j = Some e" "expiry e > now"
  shows "keeps s s2 j"
proof -
  obtain e1 where e1: "map_of (sessions s1) j = Some e1" "ctx e1 = ctx e" "expiry e \<le> expiry e1"
    using assms(1,3) by (auto simp: keeps_def)
  then have "map_of (sessions s2) j = Some e1" using assms(2,4) by (auto simp: cleans_def dest!: spec [of _ j])
  then show ?thesis using e1 assms(3) by (simp add: keeps_def)
qed

lemma GetSession_step:
  assumes "session_ok s"
  obtains s1 where "session_ok s1" "snd (GetSession now now' i s) = ShortClean now' s1"
    "\<And>j. keeps s s1 j"
proof (cases "map_of (sessions s) i")
  case None
  then show thesis
    using that [OF session_ok_create [OF assms]]
    by (auto simp: GetSession_def Let_def keeps_def map_simps)
next
  case (Some e)
  show thesis
  proof (cases "expiry e > now")
    case True
    let ?t = "max (now + milliseconds (default_timeout s)) (expiry e)"
    let ?s1 = "if ?t \<noteq> expiry e then s\<lparr>pqueue := push_key i ?t (pqueue s)\<rparr> else s"
    have "session_ok ?s1" using session_ok_push [OF assms] assms by simp
    moreover have "map_of (sessions ?s1) i = Some e" using Some by simp
    moreover have "\<lparr>key_id = i, key_expiry = ?t\<rparr> \<in># heap_elems (pqueue ?s1)"
      using session_ok_lookup(1) [OF assms Some] pushed_elems(1) [OF assms] by simp
    ultimately have ok: "session_ok (?s1\<lparr>sessions := insert_or_assign i (e\<lparr>expiry := ?t\<rparr>) (sessions ?s1)\<rparr>)"
      by (rule session_ok_touch)
    show thesis
      by (rule that [OF ok]) (use Some True in \<open>auto simp: GetSession_def Let_def keeps_def map_simps\<close>)
  next
    case False
    then show thesis
      using that [OF session_ok_create [OF assms]] Some
      by (auto simp: GetSession_def Let_def keeps_def map_simps)
  qed
qed

lemma SetSessionTimeout_step:
  assumes "session_ok s"
  obtains s1 where "session_ok s1" "SetSessionTimeout now now' i timeout s = ShortClean now' s1"
    "\<And>j. keeps s s1 j"
proof (cases "map_of (sessions s) i")
  case None
  then show thesis
    using that [OF session_ok_create [OF assms]]
    by (auto simp: SetSessionTimeout_def Let_def keeps_def map_simps)
next
  case (Some e)
  let ?t = "max (expiry e) (now + milliseconds (max kMinSessionTimeout timeout))"
  show thesis
  proof (cases "?t = expiry e")
    case True
    then show thesis
      using that [OF assms] Some by (simp add: SetSessionTimeout_def Let_def keeps_def)
  next
    case False
    let ?s1 = "s\<lparr>pqueue := push_key i ?t (pqueue s)\<rparr>"
    have ok: "session_ok (?s1\<lparr>sessions := insert_or_assign i (e\<lparr>expiry := ?t\<rparr>) (sessions ?s1)\<rparr>)"
      by (rule session_ok_touch [OF session_ok_push [OF assms]])
         (use Some pushed_elems(1) [OF assms] in auto)
    show thesis
      by (rule that [OF ok])
         (use Some False in \<open>auto simp: SetSessionTimeout_def Let_def keeps_def map_simps\<close>)
  qed
qed

lemma RemoveSession_step:
  assumes "session_ok s"
  obtains s1 where "session_ok s1" "snd (RemoveSession now' i s) = ShortClean now' s1"
    "\<And>j. j \<noteq> i \<Longrightarrow> keeps s s1 j"
  using that [OF session_ok_erase [OF assms]] that [OF assms]
  by (cases "map_of (sessions s) i") (auto simp: RemoveSession_def keeps_def map_simps)

lemma cleaner_job_cleans: "session_ok s \<Longrightarrow> cleans now s (snd (cleaner_job now running s))"
  by (simp add: cleaner_job_def Let_def cleans_ShortClean cleans_ThoroughClean)

lemma session_ok_run_op [inv_intros]:
  assumes "session_ok s"
  shows "session_ok (run_op op s)"
proof (cases op)
  case (OpGet now now' i)
  then show ?thesis
    using GetSession_step [OF assms, of now now' i] cleans_ShortClean by (metis cleans_def run_op.simps(1))
next
  case (OpRemove now' i)
  then show ?thesis
    using RemoveSession_step [OF assms, of now' i] cleans_ShortClean by (metis cleans_def run_op.simps(2))
next
  case (OpSetTimeout now now' i timeout)
  then show ?thesis
    using SetSessionTimeout_step [OF assms, of now now' i timeout] cleans_ShortClean
    by (metis cleans_def run_op.simps(3))
next
  case (OpCleanerJob now running)
  then show ?thesis using cleaner_job_cleans [OF assms] by (simp add: cleans_def)
qed (use assms in \<open>auto simp: SetDefaultSessionTimeout_def SetCleanerInterval_def
    SetBackgroundCleaner_def Let_def\<close>)

section \<open>Timeouts at their width\<close>

lemma sint_small: "uint w < 2 ^ 63 \<Longrightarrow> sint w = uint w" for w :: size_t
  using signed_take_bit_int_eq_self [of 63 "uint w"] by (simp add: sint_uint order_trans [OF _ uint_ge_0])

lemma milliseconds_max_small:
  assumes "uint d < 2 ^ 63"
  shows "milliseconds (max kMinSessionTimeout d) = max 1000 (uint d) * 1000000"
proof -
  have "uint (max kMinSessionTimeout d) = max 1000 (uint d)"
    by (auto simp: kMinSessionTimeout_def max_def word_le_def)
  moreover from this assms have "uint (max kMinSessionTimeout d) < 2 ^ 63" by simp
  ultimately show ?thesis using sint_small by (simp add: milliseconds_def)
qed

lemma milliseconds_size_max: "milliseconds (max kMinSessionTimeout size_max) = - 1000000"
  by (simp add: milliseconds_def max_def kMinSessionTimeout_def)

lemma GetSession_new:
  assumes "session_ok s" "map_of (sessions s) i = None"
    "t = now + milliseconds (max kMinSessionTimeout (default_timeout s))"
  obtains s' where "GetSession now now' i s = (contexts_made s, s')"
    "map_of (sessions s') i = Some \<lparr>ctx = contexts_made s, expiry = t\<rparr> \<or>
     map_of (sessions s') i = None \<and> t \<le> now'"
proof -
  let ?s1 = "s\<lparr>contexts_made := Suc (contexts_made s),
     sessions := emplace i \<lparr>ctx = contexts_made s, expiry = t\<rparr> (sessions s),
     pqueue := push_key i t (pqueue s)\<rparr>"
  have "GetSession now now' i s = (contexts_made s, ShortClean now' ?s1)"
    using assms(2,3) by (simp add: GetSession_def Let_def)
  moreover have "cleans now' ?s1 (ShortClean now' ?s1)"
    by (rule cleans_ShortClean [OF session_ok_create [OF assms(1)]])
  moreover have "map_of (sessions ?s1) i = Some \<lparr>ctx = contexts_made s, expiry = t\<rparr>"
    using assms(2) by (simp add: map_simps)
  ultimately show thesis
    using that [of "ShortClean now' ?s1"] by (auto simp: cleans_def dest!: spec [of _ i])
qed

section \<open>Properties\<close>

text \<open>
  (C2) Whatever calls, timeouts and cleaner jobs occur, in any order and at any clock readings,
  the session map stays consistent: ids are bound once, the queue is a heap, every lease has its
  queue entry, and no two sessions share a context.
\<close>

theorem session_map_stays_consistent:
  "session_ok (fold run_op ops new_SessionMap)"
proof -
  have "session_ok s \<Longrightarrow> session_ok (fold run_op ops s)" for s
    by (induction ops arbitrary: s) (auto intro: session_ok_run_op)
  then show ?thesis using session_ok_new by blast
qed

text \<open>
  (C24) A live session survives: any operation other than its own removal, run before its lease
  ends, leaves it in the map with the same context and a lease that is never shorter.
\<close>

theorem live_session_survives:
  assumes "session_ok s" "map_of (sessions s) i = Some e" "runs_before op t" "t < expiry e"
    "\<not> removes op i"
  shows "\<exists>e'. map_of (sessions (run_op op s)) i = Some e' \<and> ctx e' = ctx e \<and> expiry e \<le> expiry e'"
proof -
  have "keeps s (run_op op s) i"
  proof (cases op)
    case (OpGet now now' j)
    obtain s1 where s1: "session_ok s1" "run_op op s = ShortClean now' s1" "\<And>j. keeps s s1 j"
      using GetSession_step [OF assms(1), of now now' j] OpGet by auto
    show ?thesis
      unfolding s1(2) using keeps_clean [OF s1(3) cleans_ShortClean [OF s1(1)] assms(2)] OpGet assms(3,4)
      by simp
  next
    case (OpRemove now' j)
    obtain s1 where s1: "session_ok s1" "run_op op s = ShortClean now' s1" "\<And>j'. j' \<noteq> j \<Longrightarrow> keeps s s1 j'"
      using RemoveSession_step [OF assms(1), of now' j] OpRemove by auto
    show ?thesis
      unfolding s1(2) using keeps_clean [OF s1(3) cleans_ShortClean [OF s1(1)] assms(2)] OpRemove assms(3-5)
      by simp
  next
    case (OpSetTimeout now now' j timeout)
    obtain s1 where s1: "session_ok s1" "run_op op s = ShortClean now' s1" "\<And>j. keeps s s1 j"
      using SetSessionTimeout_step [OF assms(1), of now now' j timeout] OpSetTimeout by auto
    show ?thesis
      unfolding s1(2) using keeps_clean [OF s1(3) cleans_ShortClean [OF s1(1)] assms(2)] OpSetTimeout assms(3,4)
      by simp
  next
    case (OpCleanerJob now running)
    have "keeps s s i" by (simp add: keeps_def)
    from keeps_clean [OF this cleaner_job_cleans [OF assms(1)] assms(2)] show ?thesis
      using OpCleanerJob assms(3,4) by simp
  qed (simp_all add: keeps_def SetDefaultSessionTimeout_def SetCleanerInterval_def
      SetBackgroundCleaner_def Let_def)
  then show ?thesis using assms(2) by (simp add: keeps_def)
qed

theorem live_session_survives_witness:
  "let s = snd (GetSession 0 0 ''a'' new_SessionMap)
   in \<exists>e'. map_of (sessions (run_op (OpGet 5 6 ''b'') s)) ''a'' = Some e' \<and> ctx e' = 0 \<and>
        7200000000000 \<le> expiry e'"
proof -
  let ?s = "snd (GetSession 0 0 ''a'' new_SessionMap)"
  have "map_of (sessions ?s) ''a'' = Some \<lparr>ctx = 0, expiry = 7200000000000\<rparr>" by code_simp
  moreover have "session_ok ?s"
    using session_ok_run_op [OF session_ok_new, of "OpGet 0 0 ''a''"] by simp
  ultimately show ?thesis
    using live_session_survives [of ?s "''a''" _ "OpGet 5 6 ''b''" 6] by simp
qed

text \<open> Touching a live session gives back its own context, and the lease afterwards is the
  later of the old one and the default timeout from now.
\<close>

theorem get_session_returns_live_context:
  assumes "session_ok s" "map_of (sessions s) i = Some e" "now < expiry e"
    "t = max (now + milliseconds (default_timeout s)) (expiry e)" "now' < t"
  shows "\<exists>s'. GetSession now now' i s = (ctx e, s') \<and> map_of (sessions s') i = Some (e\<lparr>expiry := t\<rparr>)"
proof -
  let ?s1 = "if t \<noteq> expiry e then s\<lparr>pqueue := push_key i t (pqueue s)\<rparr> else s"
  let ?s2 = "?s1\<lparr>sessions := insert_or_assign i (e\<lparr>expiry := t\<rparr>) (sessions ?s1)\<rparr>"
  have g: "GetSession now now' i s = (ctx e, ShortClean now' ?s2)"
    using assms(2,3) unfolding assms(4) by (simp add: GetSession_def Let_def)
  have "session_ok ?s1" using session_ok_push [OF assms(1)] assms(1) by simp
  then have "session_ok ?s2"
    by (rule session_ok_touch)
       (use assms(2) session_ok_lookup(1) [OF assms(1,2)] pushed_elems(1) [OF assms(1)] in auto)
  then have "cleans now' ?s2 (ShortClean now' ?s2)" by (rule cleans_ShortClean)
  moreover have "map_of (sessions ?s2) i = Some (e\<lparr>expiry := t\<rparr>)" by (simp add: map_simps)
  ultimately have "map_of (sessions (ShortClean now' ?s2)) i = Some (e\<lparr>expiry := t\<rparr>)"
    using assms(5) by (auto simp: cleans_def dest!: spec [of _ i])
  then show ?thesis using g by blast
qed

theorem get_session_returns_live_context_witness:
  "let s = snd (GetSession 0 0 ''a'' new_SessionMap)
   in \<exists>s'. GetSession 10 11 ''a'' s = (0, s') \<and>
        map_of (sessions s') ''a'' = Some \<lparr>ctx = 0, expiry = 7200000000010\<rparr>"
proof -
  let ?s = "snd (GetSession 0 0 ''a'' new_SessionMap)"
  have m: "map_of (sessions ?s) ''a'' = Some \<lparr>ctx = 0, expiry = 7200000000000\<rparr>"
    "7200000000010 = max (10 + milliseconds (default_timeout ?s)) (expiry \<lparr>ctx = 0, expiry = 7200000000000\<rparr>)"
    by code_simp+
  have "session_ok ?s"
    using session_ok_run_op [OF session_ok_new, of "OpGet 0 0 ''a''"] by simp
  from get_session_returns_live_context [OF this m(1) _ m(2), of 11] show ?thesis by simp
qed

text \<open>
  A thorough cleaning pass leaves exactly the live sessions: every session whose lease has
  ended is gone, and every other one is as it was.
\<close>

theorem thorough_clean_leaves_the_live:
  assumes "session_ok s"
  shows "map_of (sessions (ThoroughClean now s)) i
    = (case map_of (sessions s) i of
         Some e \<Rightarrow> if expiry e \<le> now then None else Some e
       | None \<Rightarrow> None)"
proof -
  let ?s = "ThoroughClean now s"
  have c: "cleans now s ?s" using assms by (rule cleans_ThoroughClean)
  have "now < expiry e" if "map_of (sessions ?s) i = Some e" for e
  proof -
    have ok: "session_ok ?s" using c by (simp add: cleans_def)
    then have h: "heap_ok key_less (pqueue ?s)" by (simp add: session_ok_def)
    have k: "\<lparr>key_id = i, key_expiry = expiry e\<rparr> \<in># heap_elems (pqueue ?s)"
      using session_ok_lookup(1) [OF ok that] .
    then have "\<not> IsEmpty (pqueue ?s)" using kq.empty_elems [OF h] by auto
    then have "now < key_expiry (Top (pqueue ?s))"
      using ThoroughClean_drained [of now s] by (simp add: expired_on_top_def)
    also have "\<dots> \<le> expiry e" using kq.top_max [OF h k] by (simp add: key_less_def)
    finally show ?thesis .
  qed
  moreover have "map_of (sessions ?s) i = map_of (sessions s) i \<or>
      map_of (sessions ?s) i = None \<and> expiry (the (map_of (sessions s) i)) \<le> now"
    using c by (simp add: cleans_def)
  ultimately show ?thesis by (auto split: option.splits)
qed

theorem thorough_clean_leaves_the_live_witness:
  "let s = snd (GetSession 5 5 ''b'' (snd (GetSession 0 0 ''a'' new_SessionMap)))
   in map_of (sessions (ThoroughClean 7200000000000 s)) ''a'' = None \<and>
      map_of (sessions (ThoroughClean 7200000000000 s)) ''b'' \<noteq> None"
proof -
  let ?s = "snd (GetSession 5 5 ''b'' (snd (GetSession 0 0 ''a'' new_SessionMap)))"
  have "map_of (sessions ?s) ''a'' = Some \<lparr>ctx = 0, expiry = 7200000000000\<rparr>"
    "map_of (sessions ?s) ''b'' = Some \<lparr>ctx = 1, expiry = 7200000000005\<rparr>" by code_simp+
  moreover have "session_ok ?s"
    using session_ok_run_op [OF session_ok_run_op [OF session_ok_new, of "OpGet 0 0 ''a''"], of "OpGet 5 5 ''b''"]
    by simp
  ultimately show ?thesis by (simp add: thorough_clean_leaves_the_live)
qed

text \<open>
  A foreground cleaning pass is cheap: it pops at most eight queue entries, whatever the
  queue holds.
\<close>

theorem short_clean_is_bounded:
  assumes "session_ok s"
  shows "GetSize (pqueue s) \<le> GetSize (pqueue (ShortClean now s)) + 8"
proof -
  have "session_ok s \<Longrightarrow> GetSize (pqueue s) \<le> GetSize (pqueue (short_clean_loop n now s)) + n" for n s
  proof (induction n arbitrary: s)
    case (Suc n)
    show ?case
    proof (cases "expired_on_top now s")
      case True
      have "cleans now s (clean_one s)" using Suc.prems True by (rule cleans_clean_one)
      then have "session_ok (clean_one s)" by (simp add: cleans_def)
      moreover have "GetSize (pqueue s) = Suc (GetSize (pqueue (clean_one s)))"
        using clean_one_facts(1,2) [of s] True Suc.prems
        by (simp add: session_ok_def expired_on_top_def kq.size_elems)
      ultimately show ?thesis using Suc.IH [of "clean_one s"] True by simp
    qed simp
  qed simp
  from this [OF assms, of 8] show ?thesis by (simp add: ShortClean_def)
qed

theorem short_clean_is_bounded_witness:
  "let s = snd (GetSession 0 0 ''a'' new_SessionMap)
   in GetSize (pqueue s) \<le> GetSize (pqueue (ShortClean 9000000000000 s)) + 8"
  using short_clean_is_bounded [OF session_ok_run_op [OF session_ok_new, of "OpGet 0 0 ''a''"]]
  by simp

text \<open>
  (C25) An expired session that has not been collected yet is not renewed by looking it up: the
  caller is handed a new context, but the map is left with the old entry or with none, so the
  new context is stored nowhere and the next lookup hands out another one.
\<close>

theorem expired_lookup_hands_out_unstored_context:
  assumes "session_ok s" "map_of (sessions s) i = Some e" "expiry e \<le> now"
    "GetSession now now' i s = (c, s')"
  shows "c = contexts_made s \<and> (\<forall>e'. map_of (sessions s') i = Some e' \<longrightarrow> e' = e \<and> ctx e' \<noteq> c)"
proof -
  let ?t = "now + milliseconds (max kMinSessionTimeout (default_timeout s))"
  let ?s1 = "s\<lparr>contexts_made := Suc (contexts_made s),
     sessions := emplace i \<lparr>ctx = contexts_made s, expiry = ?t\<rparr> (sessions s),
     pqueue := push_key i ?t (pqueue s)\<rparr>"
  have g: "c = contexts_made s" "s' = ShortClean now' ?s1"
    using assms(2-4) by (auto simp: GetSession_def Let_def)
  have "cleans now' ?s1 s'"
    unfolding g(2) by (rule cleans_ShortClean [OF session_ok_create [OF assms(1)]])
  moreover have "map_of (sessions ?s1) i = Some e" using assms(2) by (simp add: map_simps)
  ultimately have "map_of (sessions s') i = Some e \<or> map_of (sessions s') i = None"
    by (auto simp: cleans_def dest!: spec [of _ i])
  moreover have "ctx e < contexts_made s" using session_ok_lookup(2) [OF assms(1,2)] .
  ultimately show ?thesis using g(1) by auto
qed

theorem expired_lookup_hands_out_unstored_context_witness:
  "let s = snd (GetSession 0 0 ''a'' new_SessionMap);
       (c1, s1) = GetSession 7200000000001 7200000000002 ''a'' s;
       (c2, s2) = GetSession 7200000000003 7200000000004 ''a'' s1
   in c1 = 1 \<and> c2 = 2"
proof -
  let ?s = "snd (GetSession 0 0 ''a'' new_SessionMap)"
  obtain c1 s1 where 1: "GetSession 7200000000001 7200000000002 ''a'' ?s = (c1, s1)" by fastforce
  have ok: "session_ok ?s" using session_ok_run_op [OF session_ok_new, of "OpGet 0 0 ''a''"] by simp
  have "map_of (sessions ?s) ''a'' = Some \<lparr>ctx = 0, expiry = 7200000000000\<rparr>" "contexts_made ?s = 1"
    by code_simp+
  then have "c1 = 1" using expired_lookup_hands_out_unstored_context [OF ok _ _ 1] by simp
  moreover have "fst (GetSession 7200000000003 7200000000004 ''a''
      (snd (GetSession 7200000000001 7200000000002 ''a'' ?s))) = 2" by code_simp
  ultimately show ?thesis using 1 by (auto simp: Let_def split: prod.splits)
qed

text \<open> A session that does not exist yet is created: the caller gets a context nobody else
  holds, it is stored, and its lease is the default timeout, but at least a second, as long as
  the timeout fits a signed 64-bit number.
\<close>

theorem new_session_is_stored:
  assumes "session_ok s" "map_of (sessions s) i = None" "uint (default_timeout s) < 2 ^ 63"
    "now' < now + 1000000000"
  shows "\<exists>s'. GetSession now now' i s = (contexts_made s, s') \<and>
    map_of (sessions s') i = Some \<lparr>ctx = contexts_made s,
      expiry = now + max 1000 (uint (default_timeout s)) * 1000000\<rparr> \<and>
    (\<forall>j e. map_of (sessions s) j = Some e \<longrightarrow> ctx e \<noteq> contexts_made s)"
proof -
  let ?t = "now + max 1000 (uint (default_timeout s)) * 1000000"
  have t: "?t = now + milliseconds (max kMinSessionTimeout (default_timeout s))"
    using milliseconds_max_small [OF assms(3)] by simp
  have "now' < ?t" using assms(4) by simp
  then obtain s' where "GetSession now now' i s = (contexts_made s, s')"
    "map_of (sessions s') i = Some \<lparr>ctx = contexts_made s, expiry = ?t\<rparr>"
    using GetSession_new [OF assms(1,2) t, of now'] by force
  moreover have "ctx e \<noteq> contexts_made s" if "map_of (sessions s) j = Some e" for j e
    using session_ok_lookup(2) [OF assms(1) that] by simp
  ultimately show ?thesis by blast
qed

theorem new_session_is_stored_witness:
  "\<exists>s'. GetSession 0 1 ''a'' new_SessionMap = (0, s') \<and>
    map_of (sessions s') ''a'' = Some \<lparr>ctx = 0, expiry = 7200000000000\<rparr>"
proof -
  have "uint (default_timeout new_SessionMap) = 7200000" "contexts_made new_SessionMap = 0"
    "sessions new_SessionMap = []"
    by code_simp+
  then show ?thesis using new_session_is_stored [OF session_ok_new, of "''a''" 1 0] by auto
qed

text \<open>
  The largest \<^verbatim>\<open>size_t\<close>, the natural spelling of a timeout that never ends, wraps to minus
  one millisecond: a session created under it is never live, so every lookup hands out another
  context.
\<close>

theorem endless_timeout_is_over_at_once:
  assumes "session_ok s" "map_of (sessions s) i = None" "default_timeout s = size_max"
    "GetSession now now' i s = (c, s')"
  shows "\<forall>e. map_of (sessions s') i = Some e \<longrightarrow> expiry e = now - 1000000"
proof -
  have "now - 1000000 = now + milliseconds (max kMinSessionTimeout (default_timeout s))"
    using milliseconds_size_max by (simp add: assms(3))
  from GetSession_new [OF assms(1,2) this, of now'] show ?thesis using assms(4) by force
qed

theorem endless_timeout_is_over_at_once_witness:
  "let s = SetDefaultSessionTimeout size_max new_SessionMap
   in \<forall>e. map_of (sessions (snd (GetSession 50 60 ''a'' s))) ''a'' = Some e \<longrightarrow> expiry e = 50 - 1000000"
proof -
  let ?s = "SetDefaultSessionTimeout size_max new_SessionMap"
  have "session_ok ?s" using session_ok_new by (simp add: SetDefaultSessionTimeout_def)
  moreover have "map_of (sessions ?s) ''a'' = None" "default_timeout ?s = size_max"
    by (simp_all add: SetDefaultSessionTimeout_def new_SessionMap_def)
  ultimately show ?thesis
    using endless_timeout_is_over_at_once [of ?s "''a''" 50 60] by (metis prod.collapse)
qed

end
