(* ===== verification/Async_Waiter.thy ===== *)
theory Async_Waiter
  imports Prelude
begin

text \<open>
  The convergence helpers of \<^verbatim>\<open>core/async_waiter.h\<close>: a waiter collects one value per slot and
  runs the registered callback once all slots are filled. Every public operation takes the
  waiter's mutex, so an interleaving of threads is a sequence of operations; what an operation
  runs after releasing the mutex is its result. The waiter without values and the waiter with a
  compile-time index are related to the indexed waiter, about which the properties are stated.
\<close>

section \<open>The indexed waiter\<close>

text \<open>\<open>'cb\<close> stands for callback objects; an empty \<^verbatim>\<open>std::function\<close> is \<open>None\<close>.\<close>

record ('v, 'cb) waiter =
  fired :: bool
  remaining :: nat
  slot_ready :: "bool list"
  slot_values :: "'v option list"
  callback :: "'cb option"

definition new_waiter :: "nat \<Rightarrow> ('v, 'cb) waiter" where
  "new_waiter wait_count =
     \<lparr>fired = False, remaining = wait_count, slot_ready = replicate wait_count False,
      slot_values = replicate wait_count None, callback = None\<rparr>"

type_synonym ('v, 'cb) completion = "('cb \<times> 'v list) option"

definition TakeCompletionLocked ::
  "('v, 'cb) waiter \<Rightarrow> ('v, 'cb) completion \<times> ('v, 'cb) waiter" where
  "TakeCompletionLocked w =
     (if fired w \<or> remaining w \<noteq> 0 then (None, w)
      else case callback w of
             None \<Rightarrow> (None, w)
           | Some cb \<Rightarrow>
               (Some (cb, map the (slot_values w)), w\<lparr>fired := True, callback := None\<rparr>))"

definition OnReadyAllocated ::
  "'cb option \<Rightarrow> ('v, 'cb) waiter \<Rightarrow> ('v, 'cb) completion \<times> ('v, 'cb) waiter" where
  "OnReadyAllocated cb w =
     (if fired w then (None, w) else TakeCompletionLocked (w\<lparr>callback := cb\<rparr>))"

definition Fulfill ::
  "nat \<Rightarrow> 'v \<Rightarrow> ('v, 'cb) waiter \<Rightarrow> ('v, 'cb) completion \<times> ('v, 'cb) waiter" where
  "Fulfill index v w =
     (if fired w \<or> index \<ge> length (slot_ready w) \<or> slot_ready w ! index then (None, w)
      else
        (let w = w\<lparr>slot_values := (slot_values w)[index := Some v]\<rparr>;
             w = w\<lparr>slot_ready := (slot_ready w)[index := True]\<rparr>;
             w = (if remaining w \<noteq> 0 then w\<lparr>remaining := remaining w - 1\<rparr> else w)
         in TakeCompletionLocked w))"

section \<open>The waiter without values\<close>

record 'cb void_waiter =
  v_fired :: bool
  v_remaining :: nat
  v_slot_ready :: "bool list"
  v_callback :: "'cb option"

definition void_TakeCompletionLocked :: "'cb void_waiter \<Rightarrow> 'cb option \<times> 'cb void_waiter" where
  "void_TakeCompletionLocked w =
     (if v_fired w \<or> v_remaining w \<noteq> 0 then (None, w)
      else case v_callback w of
             None \<Rightarrow> (None, w)
           | Some cb \<Rightarrow> (Some cb, w\<lparr>v_fired := True, v_callback := None\<rparr>))"

definition void_OnReady :: "'cb option \<Rightarrow> 'cb void_waiter \<Rightarrow> 'cb option \<times> 'cb void_waiter" where
  "void_OnReady cb w =
     (if v_fired w then (None, w) else void_TakeCompletionLocked (w\<lparr>v_callback := cb\<rparr>))"

definition void_Fulfill :: "nat \<Rightarrow> 'cb void_waiter \<Rightarrow> 'cb option \<times> 'cb void_waiter" where
  "void_Fulfill index w =
     (if v_fired w \<or> index \<ge> length (v_slot_ready w) \<or> v_slot_ready w ! index then (None, w)
      else
        (let w = w\<lparr>v_slot_ready := (v_slot_ready w)[index := True]\<rparr>;
             w = (if v_remaining w \<noteq> 0 then w\<lparr>v_remaining := v_remaining w - 1\<rparr> else w)
         in void_TakeCompletionLocked w))"

section \<open>The waiter with a compile-time index\<close>

text \<open>
  The slots of \<^verbatim>\<open>AsyncTemplateWaiter<Ts...>\<close> have different types; \<open>'v\<close> is their union. The index is
  a template argument, so it is in range by typing and the code has no range test. Its
  \<^verbatim>\<open>OnReady\<close> wraps the callback in an object, so that even an empty callback registers something
  that can be called: \<open>wrap\<close> is \<^verbatim>\<open>ExpandedReadyCallback\<close>.
\<close>

definition tuple_Fulfill ::
  "nat \<Rightarrow> 'v \<Rightarrow> ('v, 'cb) waiter \<Rightarrow> ('v, 'cb) completion \<times> ('v, 'cb) waiter" where
  "tuple_Fulfill index v w =
     (if fired w \<or> slot_ready w ! index then (None, w)
      else
        (let w = w\<lparr>slot_values := (slot_values w)[index := Some v]\<rparr>;
             w = w\<lparr>slot_ready := (slot_ready w)[index := True]\<rparr>;
             w = (if remaining w \<noteq> 0 then w\<lparr>remaining := remaining w - 1\<rparr> else w)
         in TakeCompletionLocked w))"

definition OnTupleReady ::
  "'cb option \<Rightarrow> ('v, 'cb) waiter \<Rightarrow> ('v, 'cb) completion \<times> ('v, 'cb) waiter" where
  "OnTupleReady cb w =
     (if fired w then (None, w) else TakeCompletionLocked (w\<lparr>callback := cb\<rparr>))"

definition tuple_OnReady ::
  "('f option \<Rightarrow> 'cb) \<Rightarrow> 'f option \<Rightarrow> ('v, 'cb) waiter \<Rightarrow> ('v, 'cb) completion \<times> ('v, 'cb) waiter" where
  "tuple_OnReady wrap cb w = OnTupleReady (Some (wrap cb)) w"

section \<open>Runs\<close>

datatype ('v, 'cb) waiter_event = Register "'cb option" | Deliver nat 'v

fun waiter_step ::
  "('v, 'cb) waiter_event \<Rightarrow> ('v, 'cb) waiter \<Rightarrow> ('v, 'cb) completion \<times> ('v, 'cb) waiter" where
  "waiter_step (Register cb) w = OnReadyAllocated cb w"
| "waiter_step (Deliver i v) w = Fulfill i v w"

fun waiter_run ::
  "('v, 'cb) waiter_event list \<Rightarrow> ('v, 'cb) waiter \<Rightarrow> ('cb \<times> 'v list) list \<times> ('v, 'cb) waiter" where
  "waiter_run [] w = ([], w)"
| "waiter_run (ev # evs) w =
     (case waiter_step ev w of
        (c, w') \<Rightarrow>
          (case waiter_run evs w' of
             (cs, w'') \<Rightarrow> (case c of None \<Rightarrow> cs | Some x \<Rightarrow> x # cs, w'')))"

text \<open>What the events say: the first value for each slot and the callback registered last.\<close>

fun first_value :: "('v, 'cb) waiter_event list \<Rightarrow> nat \<Rightarrow> 'v option" where
  "first_value [] i = None"
| "first_value (Register cb # evs) i = first_value evs i"
| "first_value (Deliver j v # evs) i = (if j = i then Some v else first_value evs i)"

fun last_registered :: "'cb option \<Rightarrow> ('v, 'cb) waiter_event list \<Rightarrow> 'cb option" where
  "last_registered cb [] = cb"
| "last_registered cb (Register cb' # evs) = last_registered cb' evs"
| "last_registered cb (Deliver j v # evs) = last_registered cb evs"

definition due :: "nat \<Rightarrow> ('v, 'cb) waiter_event list \<Rightarrow> bool" where
  "due n evs \<longleftrightarrow> (\<forall>i<n. first_value evs i \<noteq> None) \<and> last_registered None evs \<noteq> None"

text \<open>The completions a run must produce: one, at the first moment it is due.\<close>

definition due_completions :: "nat \<Rightarrow> ('v, 'cb) waiter_event list \<Rightarrow> ('cb \<times> 'v list) list" where
  "due_completions n evs =
     (case find (due n) (map (\<lambda>k. take k evs) [0..<Suc (length evs)]) of
        None \<Rightarrow> []
      | Some p \<Rightarrow> [(the (last_registered None p), map (\<lambda>i. the (first_value p i)) [0..<n])])"

lemma first_value_append:
  "first_value (a @ b) i = (case first_value a i of Some v \<Rightarrow> Some v | None \<Rightarrow> first_value b i)"
  by (induction a i rule: first_value.induct) (auto split: option.splits)

lemma last_registered_append: "last_registered cb (a @ b) = last_registered (last_registered cb a) b"
  by (induction cb a rule: last_registered.induct) auto

lemma waiter_run_append:
  "waiter_run (a @ b) w = (case waiter_run a w of (cs, w') \<Rightarrow> case waiter_run b w' of (ds, w'') \<Rightarrow> (cs @ ds, w''))"
  by (induction a arbitrary: w) (auto split: prod.splits option.splits)

section \<open>The invariant\<close>

definition unfilled :: "bool list \<Rightarrow> nat" where
  "unfilled bs = length (filter (\<lambda>b. \<not> b) bs)"

definition waiter_inv :: "nat \<Rightarrow> ('v, 'cb) waiter_event list \<Rightarrow> ('v, 'cb) waiter \<Rightarrow> bool" where
  "waiter_inv n evs w \<longleftrightarrow>
     \<not> fired w \<and> slot_values w = map (first_value evs) [0..<n] \<and>
     slot_ready w = map (\<lambda>i. first_value evs i \<noteq> None) [0..<n] \<and>
     remaining w = unfilled (slot_ready w) \<and> callback w = last_registered None evs \<and> \<not> due n evs"

lemma unfilled_0: "unfilled bs = 0 \<longleftrightarrow> (\<forall>i<length bs. bs ! i)"
  by (simp add: unfilled_def filter_empty_conv all_set_conv_all_nth)

lemma unfilled_fill:
  "i < length bs \<Longrightarrow> \<not> bs ! i \<Longrightarrow> unfilled bs = Suc (unfilled (bs[i := True]))"
proof (induction bs arbitrary: i)
  case (Cons b bs)
  then show ?case by (cases i) (auto simp: unfilled_def)
qed simp

lemma map_upt_update:
  "i < n \<Longrightarrow> (map f [0..<n])[i := x] = map (\<lambda>j. if j = i then x else f j) [0..<n]"
  by (rule nth_equalityI) (auto simp: nth_list_update)

lemma TakeCompletion_inv:
  assumes "\<not> fired w" "slot_values w = map (first_value evs) [0..<n]"
    "slot_ready w = map (\<lambda>i. first_value evs i \<noteq> None) [0..<n]"
    "remaining w = unfilled (slot_ready w)" "callback w = last_registered None evs"
  shows "(\<not> due n evs \<and> fst (TakeCompletionLocked w) = None \<and> waiter_inv n evs (snd (TakeCompletionLocked w))) \<or>
    (due n evs \<and> fst (TakeCompletionLocked w)
        = Some (the (last_registered None evs), map (\<lambda>i. the (first_value evs i)) [0..<n]) \<and>
      fired (snd (TakeCompletionLocked w)))"
proof -
  have "remaining w = 0 \<longleftrightarrow> (\<forall>i<n. first_value evs i \<noteq> None)"
    by (simp add: assms unfilled_0)
  then have "due n evs \<longleftrightarrow> remaining w = 0 \<and> callback w \<noteq> None"
    by (simp add: due_def assms)
  then show ?thesis
    using assms by (auto simp: TakeCompletionLocked_def waiter_inv_def split: option.splits)
qed

lemma waiter_step_inv:
  assumes "waiter_inv n evs w" "waiter_step ev w = (c, w')"
  shows "(\<not> due n (evs @ [ev]) \<and> c = None \<and> waiter_inv n (evs @ [ev]) w') \<or>
    (due n (evs @ [ev]) \<and>
      c = Some (the (last_registered None (evs @ [ev])), map (\<lambda>i. the (first_value (evs @ [ev]) i)) [0..<n]) \<and>
      fired w')"
proof (cases ev)
  case (Register cb)
  have "c = fst (TakeCompletionLocked (w\<lparr>callback := cb\<rparr>))" "w' = snd (TakeCompletionLocked (w\<lparr>callback := cb\<rparr>))"
    using assms Register by (auto simp: OnReadyAllocated_def waiter_inv_def)
  moreover have "first_value (evs @ [ev]) = first_value evs"
    by (simp add: Register first_value_append fun_eq_iff split: option.splits)
  ultimately show ?thesis
    using TakeCompletion_inv [of "w\<lparr>callback := cb\<rparr>" "evs @ [ev]" n] assms(1) Register
    by (simp add: waiter_inv_def last_registered_append)
next
  case (Deliver i v)
  show ?thesis
  proof (cases "i < n \<and> first_value evs i = None")
    case True
    let ?w = "w\<lparr>slot_values := (slot_values w)[i := Some v], slot_ready := (slot_ready w)[i := True],
      remaining := remaining w - 1\<rparr>"
    have nr: "\<not> slot_ready w ! i" "i < length (slot_ready w)"
      using assms(1) True by (simp_all add: waiter_inv_def)
    then have rem: "remaining w = Suc (unfilled ((slot_ready w)[i := True]))"
      using assms(1) unfilled_fill by (auto simp: waiter_inv_def)
    have "Fulfill i v w = TakeCompletionLocked ?w"
      using assms(1) nr rem by (simp add: Fulfill_def Let_def waiter_inv_def)
    then have c: "c = fst (TakeCompletionLocked ?w)" "w' = snd (TakeCompletionLocked ?w)"
      using assms(2) Deliver by auto
    have fv: "first_value (evs @ [ev]) j = (if j = i then Some v else first_value evs j)" for j
      using True by (simp add: Deliver first_value_append split: option.splits)
    show ?thesis
      unfolding c
    proof (rule TakeCompletion_inv)
      show "slot_values ?w = map (first_value (evs @ [ev])) [0..<n]"
        using assms(1) True by (simp add: waiter_inv_def fv map_upt_update)
      show "slot_ready ?w = map (\<lambda>i. first_value (evs @ [ev]) i \<noteq> None) [0..<n]"
        using assms(1) True by (simp add: waiter_inv_def fv map_upt_update)
    qed (use assms(1) rem Deliver in \<open>simp_all add: waiter_inv_def last_registered_append\<close>)
  next
    case False
    then have "i \<ge> length (slot_ready w) \<or> slot_ready w ! i"
      using assms(1) by (cases "i < n") (auto simp: waiter_inv_def)
    then have c: "c = None" "w' = w" using assms Deliver by (auto simp: Fulfill_def)
    have fv: "first_value (evs @ [Deliver i v]) j = first_value evs j" if "j < n" for j
      using False that by (auto simp: first_value_append split: option.splits)
    have "due n (evs @ [Deliver i v]) \<longleftrightarrow> due n evs"
      by (simp add: due_def fv last_registered_append)
    then show ?thesis
      using assms(1) c unfolding Deliver
      by (simp add: waiter_inv_def fv last_registered_append cong: map_cong)
  qed
qed

lemma waiter_step_fired: "fired w \<Longrightarrow> waiter_step ev w = (None, w)"
  by (cases ev) (simp_all add: OnReadyAllocated_def Fulfill_def)

lemma find_snoc: "find P (xs @ [x]) = (case find P xs of Some y \<Rightarrow> Some y | None \<Rightarrow> if P x then Some x else None)"
  by (induction xs) auto

lemma due_completions_snoc:
  "due_completions n (evs @ [ev]) = (case due_completions n evs of
      [] \<Rightarrow> if due n (evs @ [ev])
             then [(the (last_registered None (evs @ [ev])), map (\<lambda>i. the (first_value (evs @ [ev]) i)) [0..<n])]
             else []
    | c # cs \<Rightarrow> [c])"
proof -
  have "map (\<lambda>k. take k (evs @ [ev])) [0..<Suc (length (evs @ [ev]))]
      = map (\<lambda>k. take k evs) [0..<Suc (length evs)] @ [evs @ [ev]]" by simp
  then show ?thesis
    unfolding due_completions_def by (simp only: find_snoc) (simp split: option.splits)
qed

lemma due_completions_single: "due_completions n evs = c # cs \<Longrightarrow> cs = []"
  by (auto simp: due_completions_def split: option.splits)

lemma waiter_run_inv:
  assumes "waiter_run evs (new_waiter n) = (cs, w)"
  shows "cs = due_completions n evs \<and> (if cs = [] then waiter_inv n evs w else fired w)"
  using assms
proof (induction evs arbitrary: cs w rule: rev_induct)
  case Nil
  then show ?case
    by (auto simp: waiter_inv_def new_waiter_def due_def due_completions_def unfilled_def
        map_replicate_trivial intro!: nth_equalityI)
next
  case (snoc ev evs)
  obtain ds w1 where r: "waiter_run evs (new_waiter n) = (ds, w1)" by fastforce
  obtain c w2 where s: "waiter_step ev w1 = (c, w2)" by fastforce
  have cs: "cs = ds @ (case c of None \<Rightarrow> [] | Some x \<Rightarrow> [x])" "w = w2"
    using snoc.prems r s by (auto simp: waiter_run_append split: option.splits)
  note IH = snoc.IH [OF r]
  show ?case
  proof (cases ds)
    case Nil
    then show ?thesis
      using IH waiter_step_inv [OF _ s, of n evs] cs by (auto simp: due_completions_snoc)
  next
    case (Cons d ds')
    then have "c = None" "w2 = w1" using IH s waiter_step_fired [of w1 ev] by auto
    moreover have "due_completions n evs = [d]" using IH Cons due_completions_single by metis
    ultimately show ?thesis using IH cs by (simp add: due_completions_snoc)
  qed
qed

section \<open>The other waiters\<close>

definition void_of :: "('v, 'cb) waiter \<Rightarrow> 'cb void_waiter" where
  "void_of w = \<lparr>v_fired = fired w, v_remaining = remaining w, v_slot_ready = slot_ready w, v_callback = callback w\<rparr>"

lemma void_TakeCompletion_refines:
  "void_TakeCompletionLocked (void_of w)
    = (map_option fst (fst (TakeCompletionLocked w)), void_of (snd (TakeCompletionLocked w)))"
  by (simp add: void_TakeCompletionLocked_def TakeCompletionLocked_def void_of_def split: option.splits)

section \<open>Properties\<close>

text \<open>
  (C26) Whatever the interleaving of deliveries, duplicate deliveries, out-of-range deliveries and
  registrations, a waiter for \<open>n\<close> slots runs a callback exactly once, at the first moment at which
  every slot has been delivered and a callback is registered: it is the callback registered last,
  and it receives the first value delivered to each slot, in slot order. Before that moment, and
  ever after, nothing runs.
\<close>

theorem waiter_fires_once_with_first_values:
  "fst (waiter_run evs (new_waiter n)) = due_completions n evs"
  using waiter_run_inv by (metis prod.collapse)

text \<open>
  The waiter without values is the indexed waiter with its values forgotten: operation by
  operation it reaches the corresponding state and runs a callback exactly when the other does.
\<close>

theorem void_waiter_refines_waiter:
  "void_Fulfill i (void_of w) = map_prod (map_option fst) void_of (Fulfill i v w) \<and>
   void_OnReady cb (void_of w) = map_prod (map_option fst) void_of (OnReadyAllocated cb w)"
proof -
  have "void_of (w\<lparr>callback := cb\<rparr>) = (void_of w)\<lparr>v_callback := cb\<rparr>" by (simp add: void_of_def)
  then have "void_OnReady cb (void_of w) = map_prod (map_option fst) void_of (OnReadyAllocated cb w)"
    using void_TakeCompletion_refines [of "w\<lparr>callback := cb\<rparr>"]
    by (auto simp: void_OnReady_def OnReadyAllocated_def map_prod_def void_of_def split: prod.splits)
  moreover have "void_Fulfill i (void_of w) = map_prod (map_option fst) void_of (Fulfill i v w)"
  proof (cases "fired w \<or> i \<ge> length (slot_ready w) \<or> slot_ready w ! i")
    case False
    let ?w = "w\<lparr>slot_values := (slot_values w)[i := Some v], slot_ready := (slot_ready w)[i := True]\<rparr>"
    let ?u = "if remaining w \<noteq> 0 then ?w\<lparr>remaining := remaining w - 1\<rparr> else ?w"
    have "Fulfill i v w = TakeCompletionLocked ?u" using False by (simp add: Fulfill_def Let_def)
    moreover have "void_Fulfill i (void_of w) = void_TakeCompletionLocked (void_of ?u)"
      using False by (simp add: void_Fulfill_def Let_def void_of_def)
    ultimately show ?thesis by (simp add: void_TakeCompletion_refines map_prod_def split_beta)
  qed (auto simp: void_Fulfill_def Fulfill_def void_of_def)
  ultimately show ?thesis by blast
qed

end
