(* ===== verification/Sse_Parser.thy ===== *)
theory Sse_Parser
  imports Std_String
begin

text \<open>
  The incremental parser for \<^verbatim>\<open>text/event-stream\<close> (\<^verbatim>\<open>connection/client/sse_event_parser.cc\<close>). The
  loop over the buffer is proved to process the complete lines of the buffer in order, from
  which it follows that the way the transport cuts the stream into chunks does not matter.
\<close>

section \<open>Events and the parser\<close>

record SseEvent =
  ev_id :: string
  ev_event :: string
  ev_data :: string
  ev_retry_ms :: "int option"

definition new_SseEvent :: SseEvent where
  "new_SseEvent = \<lparr>ev_id = [], ev_event = [], ev_data = [], ev_retry_ms = None\<rparr>"

record SseEventParser =
  pending :: string
  current :: SseEvent
  has_field :: bool

definition new_SseEventParser :: SseEventParser where
  "new_SseEventParser = \<lparr>pending = [], current = new_SseEvent, has_field = False\<rparr>"

definition Reset :: "SseEventParser \<Rightarrow> SseEventParser" where
  "Reset p = p\<lparr>pending := [], current := new_SseEvent, has_field := False\<rparr>"

abbreviation lf :: char where "lf \<equiv> CHR 0x0A"
abbreviation cr :: char where "cr \<equiv> CHR 0x0D"

definition TrimLeadingSingleSpace :: "string \<Rightarrow> string" where
  "TrimLeadingSingleSpace sv = (if sv \<noteq> [] \<and> hd sv = CHR '' '' then tl sv else sv)"

section \<open>Lines\<close>

definition EmitEventIfReady :: "SseEventParser \<Rightarrow> SseEvent list \<Rightarrow> SseEventParser \<times> SseEvent list" where
  "EmitEventIfReady p out =
     (if has_field p
      then (p\<lparr>current := new_SseEvent, has_field := False\<rparr>, out @ [current p])
      else (p, out))"

definition ApplySseField :: "string \<Rightarrow> string \<Rightarrow> SseEventParser \<Rightarrow> SseEventParser" where
  "ApplySseField field val p =
     (if field = ''data'' then
        (let c = current p;
             c = (if ev_data c \<noteq> [] then c\<lparr>ev_data := ev_data c @ [lf]\<rparr> else c)
         in p\<lparr>current := c\<lparr>ev_data := ev_data c @ val\<rparr>, has_field := True\<rparr>)
      else if field = ''id'' then p\<lparr>current := (current p)\<lparr>ev_id := val\<rparr>, has_field := True\<rparr>
      else if field = ''event'' then p\<lparr>current := (current p)\<lparr>ev_event := val\<rparr>, has_field := True\<rparr>
      else if field = ''retry'' then
        (case from_chars_int val of
           None \<Rightarrow> p
         | Some (retry, rest) \<Rightarrow>
             if rest = [] \<and> retry \<ge> 0
             then p\<lparr>current := (current p)\<lparr>ev_retry_ms := Some retry\<rparr>, has_field := True\<rparr>
             else p)
      else p)"

definition ConsumeLine ::
  "string \<Rightarrow> SseEventParser \<Rightarrow> SseEvent list \<Rightarrow> SseEventParser \<times> SseEvent list" where
  "ConsumeLine line p out =
     (if line = [] then EmitEventIfReady p out
      else if hd line = CHR '':'' then (p, out)
      else
        (let colon = find_char CHR '':'' line;
             field = substr line 0 colon;
             val = (case colon of
                        None \<Rightarrow> []
                      | Some i \<Rightarrow> TrimLeadingSingleSpace (substr line (i + 1) None))
         in (ApplySseField field val p, out)))"

definition strip_cr :: "string \<Rightarrow> string" where
  "strip_cr line = (if line \<noteq> [] \<and> last line = cr then butlast line else line)"

function feed_loop ::
  "string \<Rightarrow> nat \<Rightarrow> SseEventParser \<Rightarrow> SseEvent list \<Rightarrow> nat \<times> SseEventParser \<times> SseEvent list" where
  "feed_loop buf line_start p events =
     (if line_start < length buf then
        (case find_char lf (drop line_start buf) of
           None \<Rightarrow> (line_start, p, events)
         | Some i \<Rightarrow>
             (let line_end = line_start + i;
                  line = strip_cr (take (line_end - line_start) (drop line_start buf))
              in case ConsumeLine line p events of
                   (p', events') \<Rightarrow> feed_loop buf (line_end + 1) p' events'))
      else (line_start, p, events))"
  by pat_completeness auto
termination
  by (relation "measure (\<lambda>(buf, line_start, _). length buf - line_start)") auto

declare feed_loop.simps [simp del]

definition FeedAllocated :: "string \<Rightarrow> SseEventParser \<Rightarrow> SseEvent list \<times> SseEventParser" where
  "FeedAllocated chunk p =
     (let p = p\<lparr>pending := pending p @ chunk\<rparr>
      in case feed_loop (pending p) 0 p [] of
           (line_start, p', events) \<Rightarrow>
             (events, if line_start > 0 then p'\<lparr>pending := drop line_start (pending p')\<rparr> else p'))"

section \<open>The loop processes the complete lines\<close>

definition consume_lines ::
  "string list \<Rightarrow> SseEventParser \<Rightarrow> SseEvent list \<Rightarrow> SseEventParser \<times> SseEvent list" where
  "consume_lines ls p out = fold (\<lambda>l (p, out). ConsumeLine (strip_cr l) p out) ls (p, out)"

lemma consume_lines_simps [simp]:
  "consume_lines [] p out = (p, out)"
  "consume_lines (l # ls) p out = (case ConsumeLine (strip_cr l) p out of (p', out') \<Rightarrow> consume_lines ls p' out')"
  "consume_lines (ls @ ls') p out = (case consume_lines ls p out of (p', out') \<Rightarrow> consume_lines ls' p' out')"
  by (simp_all add: consume_lines_def split_beta)

lemma ApplySseField_pending [simp]:
  "pending (ApplySseField f v p) = pending p"
  "ApplySseField f v (p\<lparr>pending := x\<rparr>) = (ApplySseField f v p)\<lparr>pending := x\<rparr>"
  by (auto simp: ApplySseField_def Let_def split: option.splits)

lemma ConsumeLine_out:
  "ConsumeLine l p out = (fst (ConsumeLine l p []), out @ snd (ConsumeLine l p []))"
  "pending (fst (ConsumeLine l p out)) = pending p"
  "ConsumeLine l (p\<lparr>pending := x\<rparr>) out
    = ((fst (ConsumeLine l p out))\<lparr>pending := x\<rparr>, snd (ConsumeLine l p out))"
  by (auto simp: ConsumeLine_def EmitEventIfReady_def Let_def split: option.splits)

lemma consume_lines_out:
  "consume_lines ls p out = (fst (consume_lines ls p []), out @ snd (consume_lines ls p []))"
proof (induction ls arbitrary: p out)
  case (Cons l ls)
  let ?c = "ConsumeLine (strip_cr l) p []"
  have "consume_lines (l # ls) p out = consume_lines ls (fst ?c) (out @ snd ?c)"
    using ConsumeLine_out(1) [of "strip_cr l" p out] by (simp add: split_beta)
  also have "\<dots> = (fst (consume_lines ls (fst ?c) []), out @ snd ?c @ snd (consume_lines ls (fst ?c) []))"
    using Cons.IH [of "fst ?c" "out @ snd ?c"] by simp
  also have "snd ?c @ snd (consume_lines ls (fst ?c) []) = snd (consume_lines ls (fst ?c) (snd ?c))"
    using Cons.IH [of "fst ?c" "snd ?c"] by simp
  also have "fst (consume_lines ls (fst ?c) []) = fst (consume_lines ls (fst ?c) (snd ?c))"
    using Cons.IH [of "fst ?c" "snd ?c"] by (metis fst_conv)
  finally show ?case by (simp add: split_beta)
qed simp

lemma consume_lines_pending:
  "pending (fst (consume_lines ls p out)) = pending p"
  "consume_lines ls (p\<lparr>pending := x\<rparr>) out
    = ((fst (consume_lines ls p out))\<lparr>pending := x\<rparr>, snd (consume_lines ls p out))"
  by (induction ls arbitrary: p out; simp add: ConsumeLine_out(2,3) split_beta)+

lemma feed_loop_lines:
  assumes "line_start \<le> length buf"
  shows "feed_loop buf line_start p events
    = (length buf - length (last (split_on lf (drop line_start buf))),
       consume_lines (butlast (split_on lf (drop line_start buf))) p events)"
  using assms
proof (induction "length buf - line_start" arbitrary: line_start p events rule: less_induct)
  case less
  show ?case
  proof (cases "find_char lf (drop line_start buf)")
    case None
    then have "lf \<notin> set (drop line_start buf)" by (simp add: find_char_None_iff)
    then have "split_on lf (drop line_start buf) = [drop line_start buf]" by (rule split_on_none)
    then show ?thesis using None less.prems by (simp add: feed_loop.simps [of buf])
  next
    case (Some i)
    note d = find_char_SomeD [OF Some]
    have next_drop: "drop (Suc i) (drop line_start buf) = drop (line_start + i + 1) buf" by (simp add: ac_simps)
    have sp: "split_on lf (drop line_start buf)
        = take i (drop line_start buf) # split_on lf (drop (line_start + i + 1) buf)"
      using split_on_append [OF d(3), of "drop (Suc i) (drop line_start buf)"] d(4) next_drop by metis
    obtain p' ev' where c: "ConsumeLine (strip_cr (take i (drop line_start buf))) p events = (p', ev')"
      by fastforce
    have lt: "line_start + i + 1 \<le> length buf" "line_start < length buf" using d(1) by auto
    have "feed_loop buf line_start p events = feed_loop buf (line_start + i + 1) p' ev'"
      using Some c lt(2) by (subst feed_loop.simps) simp
    also have "\<dots> = (length buf - length (last (split_on lf (drop (line_start + i + 1) buf))),
        consume_lines (butlast (split_on lf (drop (line_start + i + 1) buf))) p' ev')"
      by (rule less.hyps) (use lt in auto)
    finally show ?thesis using c by (simp add: sp)
  qed
qed

lemma split_on_single: "split_on c s = [a] \<Longrightarrow> a = s"
  by (induction s arbitrary: a) (auto split: if_splits list.splits)

lemma split_on_last_suffix: "suffix (last (split_on c s)) s"
proof (induction s)
  case (Cons x s)
  then show ?case
    by (cases "split_on c s") (auto simp: suffix_Cons split: if_splits dest: split_on_single)
qed simp

lemma drop_last_field: "drop (length s - length (last (split_on c s))) s = last (split_on c s)"
proof -
  obtain zs where z: "s = zs @ last (split_on c s)" using split_on_last_suffix by (auto simp: suffix_def)
  then have "length s - length (last (split_on c s)) = length zs"
    by (metis add_diff_cancel_right' length_append)
  then show ?thesis using z by (metis append_eq_conv_conj)
qed

lemma FeedAllocated_lines:
  "FeedAllocated chunk p =
     (let ls = split_on lf (pending p @ chunk); (p', events) = consume_lines (butlast ls) p []
      in (events, p'\<lparr>pending := last ls\<rparr>))"
proof -
  let ?buf = "pending p @ chunk"
  let ?ls = "split_on lf ?buf"
  have "feed_loop ?buf 0 (p\<lparr>pending := ?buf\<rparr>) []
      = (length ?buf - length (last ?ls),
         (fst (consume_lines (butlast ?ls) p []))\<lparr>pending := ?buf\<rparr>, snd (consume_lines (butlast ?ls) p []))"
    using feed_loop_lines [of 0 ?buf "p\<lparr>pending := ?buf\<rparr>" "[]"] by (simp add: consume_lines_pending(2))
  then show ?thesis
    using drop_last_field [of ?buf lf] by (auto simp: FeedAllocated_def Let_def split_beta)
qed

fun feed_chunks :: "string list \<Rightarrow> SseEventParser \<Rightarrow> SseEvent list \<times> SseEventParser" where
  "feed_chunks [] p = ([], p)"
| "feed_chunks (c # cs) p =
     (case FeedAllocated c p of (e, p') \<Rightarrow> case feed_chunks cs p' of (es, p'') \<Rightarrow> (e @ es, p''))"

lemma FeedAllocated_append:
  "FeedAllocated (a @ b) p
    = (case FeedAllocated a p of (e, p') \<Rightarrow> case FeedAllocated b p' of (e', p'') \<Rightarrow> (e @ e', p''))"
proof -
  let ?ls = "split_on lf (pending p @ a)"
  let ?q = "fst (consume_lines (butlast ?ls) p [])" and ?e = "snd (consume_lines (butlast ?ls) p [])"
  let ?ms = "split_on lf (last ?ls @ b)"
  have sp: "split_on lf (pending p @ a @ b) = butlast ?ls @ ?ms"
    using split_on_append_any [of lf "pending p @ a" b] by simp
  have bl: "butlast (butlast ?ls @ ?ms) = butlast ?ls @ butlast ?ms" "last (butlast ?ls @ ?ms) = last ?ms"
    by (simp_all add: butlast_append)
  have "consume_lines (butlast ?ls @ butlast ?ms) p []
      = (fst (consume_lines (butlast ?ms) ?q []), ?e @ snd (consume_lines (butlast ?ms) ?q []))"
    using consume_lines_out [of "butlast ?ms" ?q ?e] by (simp add: split_beta)
  then show ?thesis
    by (simp add: FeedAllocated_lines Let_def split_beta sp bl consume_lines_pending(2))
qed

lemma feed_chunks_concat:
  assumes "lf \<notin> set (pending p)"
  shows "feed_chunks cs p = FeedAllocated (concat cs) p"
  using assms
proof (induction cs arbitrary: p)
  case Nil
  then show ?case by (cases p) (simp add: FeedAllocated_lines split_on_none)
next
  case (Cons c cs)
  obtain e p' where f: "FeedAllocated c p = (e, p')" by fastforce
  then have "pending p' = last (split_on lf (pending p @ c))"
    by (auto simp: FeedAllocated_lines Let_def split_beta)
  then have "lf \<notin> set (pending p')" by (simp add: split_on_last_free)
  then show ?case using Cons.IH f by (simp add: FeedAllocated_append)
qed

section \<open>Well-formed event blocks\<close>

text \<open>Text that can stand in a field: no line break, and no blank or line break at its ends.\<close>

definition field_text :: "string \<Rightarrow> bool" where
  "field_text s \<longleftrightarrow> lf \<notin> set s \<and> cr \<notin> set s"

definition sse_line :: "string \<Rightarrow> string \<Rightarrow> string" where
  "sse_line field val = field @ '': '' @ val"

definition sse_block :: "string list \<Rightarrow> string" where
  "sse_block ls = concat (map (\<lambda>l. l @ [lf]) ls) @ [lf]"

definition join_lines :: "string list \<Rightarrow> string" where
  "join_lines ls = (case ls of [] \<Rightarrow> [] | l # ms \<Rightarrow> l @ concat (map (\<lambda>m. lf # m) ms))"

lemma split_on_block:
  assumes "\<forall>l\<in>set ls. lf \<notin> set l"
  shows "split_on lf (sse_block ls) = ls @ [[], []]"
  using assms
proof (induction ls)
  case (Cons l ls)
  have "sse_block (l # ls) = l @ lf # sse_block ls" by (simp add: sse_block_def)
  then show ?case using Cons by (simp add: split_on_append)
qed (simp add: sse_block_def)

lemma strip_cr_id: "cr \<notin> set l \<Longrightarrow> strip_cr l = l"
  unfolding strip_cr_def using last_in_set by metis

lemma ConsumeLine_field:
  assumes "field \<noteq> []" "CHR '':'' \<notin> set field"
  shows "ConsumeLine (sse_line field val) p out = (ApplySseField field val p, out)"
proof -
  have f: "find_char CHR '':'' (sse_line field val) = Some (length field)"
    using find_char_append [OF assms(2), of "CHR '' '' # val"] by (simp add: sse_line_def)
  have "hd field \<noteq> CHR '':''" using assms hd_in_set by metis
  then have "hd (sse_line field val) \<noteq> CHR '':''" "sse_line field val \<noteq> []"
    using assms(1) by (auto simp: sse_line_def hd_append)
  moreover have "substr (sse_line field val) 0 (Some (length field)) = field"
    "TrimLeadingSingleSpace (substr (sse_line field val) (length field + 1) None) = val"
    by (simp_all add: sse_line_def substr_def TrimLeadingSingleSpace_def)
  ultimately show ?thesis using f by (simp add: ConsumeLine_def Let_def)
qed

lemma consume_data_lines:
  assumes "\<forall>l\<in>set ls. field_text l" "ls \<noteq> []"
  shows "consume_lines (map (sse_line ''data'') ls) p out
    = (p\<lparr>current := (current p)\<lparr>ev_data := fold (\<lambda>l d. (if d \<noteq> [] then d @ [lf] else d) @ l) ls (ev_data (current p))\<rparr>,
        has_field := True\<rparr>, out)"
  using assms
proof (induction ls arbitrary: p)
  case (Cons l ls)
  have l: "strip_cr (sse_line ''data'' l) = sse_line ''data'' l"
    using Cons.prems by (intro strip_cr_id) (auto simp: sse_line_def field_text_def)
  show ?case
    using Cons.IH [of "ApplySseField ''data'' l p"] Cons.prems
    by (cases ls) (simp_all add: l ConsumeLine_field ApplySseField_def Let_def)
qed simp

lemma fold_data_join:
  "fold (\<lambda>l d. (if d \<noteq> [] then d @ [lf] else d) @ l) ls d
    = (if d = [] then join_lines (dropWhile (\<lambda>l. l = []) ls) else d @ concat (map (\<lambda>m. lf # m) ls))"
  by (induction ls arbitrary: d) (auto simp: join_lines_def)

section \<open>Properties\<close>

text \<open>
  (C27) Chunk boundaries do not matter: feeding a stream in any pieces, cut anywhere (inside a line,
  between carriage return and line feed, inside a field name), yields in total the events, and
  leaves the parser in the state, that feeding it in one piece does.
\<close>

theorem chunking_does_not_matter:
  "feed_chunks cs new_SseEventParser = FeedAllocated (concat cs) new_SseEventParser"
  by (rule feed_chunks_concat) (simp add: new_SseEventParser_def)

text \<open>
  A well-formed event block, fed to a parser between events, gives exactly one event with the
  block's id and type, and with its data lines joined by line feeds from the first non-empty
  line on: the line feeds of leading empty data lines are lost.
\<close>

theorem event_block_is_parsed:
  assumes "field_text i" "field_text t" "\<forall>l\<in>set ds. field_text l" "ds \<noteq> []"
    "stream = sse_block (sse_line ''id'' i # sse_line ''event'' t # map (sse_line ''data'') ds)"
  shows "FeedAllocated stream new_SseEventParser
    = ([\<lparr>ev_id = i, ev_event = t, ev_data = join_lines (dropWhile (\<lambda>l. l = []) ds), ev_retry_ms = None\<rparr>],
       new_SseEventParser)"
proof -
  let ?ls = "sse_line ''id'' i # sse_line ''event'' t # map (sse_line ''data'') ds"
  have nl: "\<forall>l\<in>set ?ls. lf \<notin> set l" "cr \<notin> set (sse_line ''id'' i)" "cr \<notin> set (sse_line ''event'' t)"
    using assms(1-3) by (auto simp: sse_line_def field_text_def)
  have sp: "split_on lf stream = ?ls @ [[], []]" using nl(1) unfolding assms(5) by (rule split_on_block)
  have "butlast (split_on lf stream) = ?ls @ [[]]" "last (split_on lf stream) = []"
    by (simp_all add: sp butlast_append)
  then show ?thesis
    using consume_data_lines [OF assms(3,4)] nl(2,3)
    by (simp add: FeedAllocated_lines new_SseEventParser_def new_SseEvent_def Let_def strip_cr_id
        ConsumeLine_field ApplySseField_def fold_data_join)
       (simp add: ConsumeLine_def EmitEventIfReady_def strip_cr_def new_SseEvent_def)
qed

theorem event_block_is_parsed_witness:
  "fst (FeedAllocated (sse_block [sse_line ''id'' ''7'', sse_line ''event'' ''tick'',
      sse_line ''data'' [], sse_line ''data'' ''a'', sse_line ''data'' ''b'']) new_SseEventParser)
    = [\<lparr>ev_id = ''7'', ev_event = ''tick'', ev_data = ''a'' @ [lf] @ ''b'', ev_retry_ms = None\<rparr>]"
  using event_block_is_parsed [OF _ _ _ _ refl, of "''7''" "''tick''" "[[], ''a'', ''b'']"]
  by (simp add: field_text_def join_lines_def)

end
