(* ===== verification/Server_Cookie.thy ===== *)
theory Server_Cookie
  imports Std_String
begin

text \<open>
  The \<^verbatim>\<open>Set-Cookie\<close> builder of the server (\<^verbatim>\<open>connection/server/server_set_cookie.cc\<close>). The header
  it prints is characterised as the list of its parts joined by a semicolon and a blank.
\<close>

section \<open>The builder\<close>

text \<open>The enum is one byte wide; \<open>kOther\<close> is a value outside its enumerators.\<close>

datatype SameSite = kStrict | kLax | kNone | kOther

record ServerSetCookie =
  sc_name :: "string option"
  sc_value :: "string option"
  sc_expiry :: "string option"
  sc_path :: "string option"
  sc_domain :: "string option"
  sc_max_age :: "int option"
  sc_same_site :: "SameSite option"
  sc_secure :: "bool option"
  sc_http_only :: "bool option"

definition new_ServerSetCookie :: ServerSetCookie where
  "new_ServerSetCookie =
     \<lparr>sc_name = None, sc_value = None, sc_expiry = None, sc_path = None, sc_domain = None,
      sc_max_age = None, sc_same_site = None, sc_secure = None, sc_http_only = None\<rparr>"

definition SetName :: "string \<Rightarrow> ServerSetCookie \<Rightarrow> ServerSetCookie" where
  "SetName s c = c\<lparr>sc_name := Some s\<rparr>"

definition SetValue :: "string \<Rightarrow> ServerSetCookie \<Rightarrow> ServerSetCookie" where
  "SetValue s c = c\<lparr>sc_value := Some s\<rparr>"

definition SetExpires :: "string \<Rightarrow> ServerSetCookie \<Rightarrow> ServerSetCookie" where
  "SetExpires s c = c\<lparr>sc_expiry := Some s\<rparr>"

definition SetMaxAge :: "int \<Rightarrow> ServerSetCookie \<Rightarrow> ServerSetCookie" where
  "SetMaxAge n c = c\<lparr>sc_max_age := Some n\<rparr>"

definition SetPath :: "string \<Rightarrow> ServerSetCookie \<Rightarrow> ServerSetCookie" where
  "SetPath s c = c\<lparr>sc_path := Some s\<rparr>"

definition SetDomain :: "string \<Rightarrow> ServerSetCookie \<Rightarrow> ServerSetCookie" where
  "SetDomain s c = c\<lparr>sc_domain := Some s\<rparr>"

definition SetSameSite :: "SameSite \<Rightarrow> ServerSetCookie \<Rightarrow> ServerSetCookie" where
  "SetSameSite s c = c\<lparr>sc_same_site := Some s\<rparr>"

definition SetSecure :: "bool \<Rightarrow> ServerSetCookie \<Rightarrow> ServerSetCookie" where
  "SetSecure b c = c\<lparr>sc_secure := Some b\<rparr>"

definition SetHttpOnly :: "bool \<Rightarrow> ServerSetCookie \<Rightarrow> ServerSetCookie" where
  "SetHttpOnly b c = c\<lparr>sc_http_only := Some b\<rparr>"

section \<open>Printing\<close>

definition same_site_text :: "SameSite \<Rightarrow> string" where
  "same_site_text s =
     (case s of kStrict \<Rightarrow> ''Strict'' | kLax \<Rightarrow> ''Lax'' | kNone \<Rightarrow> ''None'' | kOther \<Rightarrow> ''Strict'')"

definition text_attribute :: "string \<Rightarrow> string option \<Rightarrow> string" where
  "text_attribute key v =
     (case v of None \<Rightarrow> [] | Some s \<Rightarrow> if s = [] then [] else '' '' @ key @ s @ '';'')"

text \<open>
  The final loop; the source calls \<^verbatim>\<open>back()\<close> without a test for emptiness, which is sound because
  the string keeps its equals sign.
\<close>

function strip_tail :: "string \<Rightarrow> string" where
  "strip_tail s =
     (if s \<noteq> [] \<and> (is_space (last s) \<or> last s = CHR '';'') then strip_tail (butlast s) else s)"
  by pat_completeness auto
termination
  by (relation "measure length") auto

declare strip_tail.simps [simp del]

definition cookie_flags :: "ServerSetCookie \<Rightarrow> string" where
  "cookie_flags c =
     (if sc_same_site c = Some kNone \<or> sc_secure c = Some True then '' Secure;'' else [])
     @ (if sc_http_only c = Some True then '' HttpOnly;'' else [])"

definition ToString :: "ServerSetCookie \<Rightarrow> string" where
  "ToString c =
     (case (sc_name c, sc_value c) of
        (Some name, Some val) \<Rightarrow>
          if name = [] \<or> val = [] then []
          else strip_tail
            (name @ ''='' @ val @ '';''
             @ text_attribute ''Expires='' (sc_expiry c)
             @ text_attribute ''Path='' (sc_path c)
             @ text_attribute ''Domain='' (sc_domain c)
             @ (case sc_max_age c of
                  None \<Rightarrow> [] | Some n \<Rightarrow> '' Max-Age='' @ std_to_string n @ '';'')
             @ (case sc_same_site c of
                  None \<Rightarrow> [] | Some s \<Rightarrow> '' SameSite='' @ same_site_text s @ '';'')
             @ cookie_flags c)
      | _ \<Rightarrow> [])"

section \<open>The parts of a printed cookie\<close>

definition opt_text :: "string \<Rightarrow> string option \<Rightarrow> string list" where
  "opt_text key v = (case v of None \<Rightarrow> [] | Some s \<Rightarrow> if s = [] then [] else [key @ s])"

definition cookie_attributes :: "ServerSetCookie \<Rightarrow> string list" where
  "cookie_attributes c =
     opt_text ''Expires='' (sc_expiry c) @ opt_text ''Path='' (sc_path c)
     @ opt_text ''Domain='' (sc_domain c)
     @ (case sc_max_age c of None \<Rightarrow> [] | Some n \<Rightarrow> [''Max-Age='' @ std_to_string n])
     @ (case sc_same_site c of None \<Rightarrow> [] | Some s \<Rightarrow> [''SameSite='' @ same_site_text s])
     @ (if sc_same_site c = Some kNone \<or> sc_secure c = Some True then [''Secure''] else [])
     @ (if sc_http_only c = Some True then [''HttpOnly''] else [])"

definition print_parts :: "string \<Rightarrow> string list \<Rightarrow> string" where
  "print_parts p ps = p @ concat (map (\<lambda>q. ''; '' @ q) ps)"

lemma strip_tail_snoc:
  "strip_tail (s @ [c]) = (if is_space c \<or> c = CHR '';'' then strip_tail s else s @ [c])"
  by (subst strip_tail.simps) simp

lemma terminated_parts:
  "p @ '';'' @ concat (map (\<lambda>q. '' '' @ q @ '';'') ps) = print_parts p ps @ '';''"
  by (induction ps arbitrary: p) (simp_all add: print_parts_def)

definition solid_end :: "string \<Rightarrow> bool" where
  "solid_end s \<longleftrightarrow> s \<noteq> [] \<and> \<not> is_space (last s) \<and> last s \<noteq> CHR '';''"

lemma solid_print_parts:
  assumes "solid_end p" "\<forall>q\<in>set ps. solid_end q"
  shows "solid_end (print_parts p ps)"
  using assms
proof (cases ps rule: rev_cases)
  case (snoc qs q)
  then have "print_parts p ps = (p @ concat (map (\<lambda>q. ''; '' @ q) qs) @ ''; '') @ q"
    by (simp add: print_parts_def)
  then show ?thesis using assms snoc by (simp add: solid_end_def)
qed (simp add: print_parts_def)

lemma strip_tail_parts:
  assumes "solid_end p" "\<forall>q\<in>set ps. solid_end q"
  shows "strip_tail (print_parts p ps @ '';'') = print_parts p ps"
  using solid_print_parts [OF assms]
  unfolding strip_tail_snoc by (simp add: strip_tail.simps [of "print_parts p ps"] solid_end_def)

lemma concat_attributes:
  "text_attribute ''Expires='' (sc_expiry c) @ text_attribute ''Path='' (sc_path c)
     @ text_attribute ''Domain='' (sc_domain c)
     @ (case sc_max_age c of None \<Rightarrow> [] | Some n \<Rightarrow> '' Max-Age='' @ std_to_string n @ '';'')
     @ (case sc_same_site c of None \<Rightarrow> [] | Some s \<Rightarrow> '' SameSite='' @ same_site_text s @ '';'')
     @ cookie_flags c
    = concat (map (\<lambda>q. '' '' @ q @ '';'') (cookie_attributes c))"
proof -
  have "text_attribute k v = concat (map (\<lambda>q. '' '' @ q @ '';'') (opt_text k v))" for k v
    by (simp add: text_attribute_def opt_text_def split: option.splits)
  then show ?thesis
    by (simp add: cookie_attributes_def cookie_flags_def split: option.splits)
qed

lemma ToString_parts:
  assumes "sc_name c = Some n" "sc_value c = Some v" "n \<noteq> []" "v \<noteq> []" "solid_end v"
    "\<forall>q\<in>set (cookie_attributes c). solid_end q"
  shows "ToString c = print_parts (n @ ''='' @ v) (cookie_attributes c)"
proof -
  have "ToString c = strip_tail ((n @ ''='' @ v) @ '';'' @ concat (map (\<lambda>q. '' '' @ q @ '';'') (cookie_attributes c)))"
    using assms(1-4) concat_attributes [of c] by (simp add: ToString_def)
  also have "\<dots> = strip_tail (print_parts (n @ ''='' @ v) (cookie_attributes c) @ '';'')"
    by (simp only: terminated_parts)
  also have "\<dots> = print_parts (n @ ''='' @ v) (cookie_attributes c)"
    using assms by (intro strip_tail_parts) (auto simp: solid_end_def)
  finally show ?thesis .
qed

end
