(* ===== verification/Cookie_Jar.thy ===== *)
theory Cookie_Jar
  imports Server_Cookie "HOL-Library.Multiset"
begin

text \<open>
  The cookie jar of the client session (\<^verbatim>\<open>SessionRequestAssembler\<close> in
  \<^verbatim>\<open>connection/client/request_assembler.cc\<close>): parsing a \<^verbatim>\<open>Set-Cookie\<close> value, storing it, and choosing
  the cookies of a request. Methods run under the jar's mutex and are single steps; the
  clock readings they take (\<open>system_clock\<close>, in nanoseconds) are arguments.
\<close>

section \<open>Text helpers\<close>

definition view_ws :: "char \<Rightarrow> bool" where
  "view_ws c \<longleftrightarrow> c = CHR '' '' \<or> c = CHR 0x09 \<or> c = CHR 0x0D \<or> c = CHR 0x0A"

definition TrimView :: "string \<Rightarrow> string" where
  "TrimView sv = trim_by view_ws sv"

fun iequals_loop :: "string \<Rightarrow> string \<Rightarrow> bool" where
  "iequals_loop (x # xs) (y # ys) \<longleftrightarrow> to_lower_char x = to_lower_char y \<and> iequals_loop xs ys"
| "iequals_loop _ _ \<longleftrightarrow> True"

definition IEquals :: "string \<Rightarrow> string \<Rightarrow> bool" where
  "IEquals a b = (if length a \<noteq> length b then False else iequals_loop a b)"

definition SplitOnce :: "string \<Rightarrow> char \<Rightarrow> string \<times> string" where
  "SplitOnce s delim =
     (case find_char delim s of
        None \<Rightarrow> (s, [])
      | Some pos \<Rightarrow> (substr s 0 (Some pos), substr s (pos + 1) None))"

function split_cookie_loop :: "string \<Rightarrow> nat \<Rightarrow> string list \<Rightarrow> string list" where
  "split_cookie_loop s start tokens =
     (if start < length s then
        (case find_char CHR '';'' (drop start s) of
           None \<Rightarrow> tokens @ [TrimView (substr s start None)]
         | Some i \<Rightarrow>
             (let semi = start + i
              in split_cookie_loop s (semi + 1) (tokens @ [TrimView (substr s start (Some (semi - start)))])))
      else tokens)"
  by pat_completeness auto
termination
  by (relation "measure (\<lambda>(s, start, _). length s - start)") auto

declare split_cookie_loop.simps [simp del]

definition SplitSetCookieTokens :: "string \<Rightarrow> string list" where
  "SplitSetCookieTokens v = split_cookie_loop v 0 []"

section \<open>Dates\<close>

text \<open>
  \<^verbatim>\<open>std::get_time\<close> with the format of HTTP dates is the parameter \<open>get_time\<close>: the broken-down time, or
  \<open>None\<close> when the stream fails. The conversion of a calendar date to days since 1970 is the one
  \<^verbatim>\<open>std::chrono::sys_days\<close> is defined by.
\<close>

record broken_time =
  tm_year :: int
  tm_mon :: int
  tm_mday :: int
  tm_hour :: int
  tm_min :: int
  tm_sec :: int

definition is_leap :: "int \<Rightarrow> bool" where
  "is_leap y \<longleftrightarrow> y mod 4 = 0 \<and> (y mod 100 \<noteq> 0 \<or> y mod 400 = 0)"

definition days_in_month :: "int \<Rightarrow> int \<Rightarrow> int" where
  "days_in_month y m =
     (if m = 2 then (if is_leap y then 29 else 28) else if m \<in> {4, 6, 9, 11} then 30 else 31)"

definition date_ok :: "int \<Rightarrow> int \<Rightarrow> int \<Rightarrow> bool" where
  "date_ok y m d \<longleftrightarrow> 1 \<le> m \<and> m \<le> 12 \<and> 1 \<le> d \<and> d \<le> days_in_month y m"

definition days_from_civil :: "int \<Rightarrow> int \<Rightarrow> int \<Rightarrow> int" where
  "days_from_civil y m d =
     (let y = (if m \<le> 2 then y - 1 else y);
          era = y div 400;
          yoe = y - era * 400;
          doy = (153 * (if m > 2 then m - 3 else m + 9) + 2) div 5 + d - 1;
          doe = yoe * 365 + yoe div 4 - yoe div 100 + doy
      in era * 146097 + doe - 719468)"

definition ParseImfFixdate :: "(string \<Rightarrow> broken_time option) \<Rightarrow> string \<Rightarrow> int option" where
  "ParseImfFixdate get_time v =
     (case get_time v of
        None \<Rightarrow> None
      | Some tm \<Rightarrow>
          (let y = tm_year tm + 1900; m = tm_mon tm + 1; d = tm_mday tm
           in if \<not> date_ok y m d \<or> tm_hour tm < 0 \<or> tm_hour tm > 23 \<or> tm_min tm < 0 \<or>
                 tm_min tm > 59 \<or> tm_sec tm < 0 \<or> tm_sec tm > 59 then None
              else Some (((days_from_civil y m d * 24 + tm_hour tm) * 60 + tm_min tm) * 60 * 1000000000
                         + tm_sec tm * 1000000000)))"

section \<open>Cookies\<close>

record Cookie =
  c_name :: string
  c_value :: string
  c_domain :: string
  c_host_only :: bool
  c_path :: string
  c_secure :: bool
  c_expiry :: "int option"

record CookieExpiryInfo =
  has_max_age :: bool
  max_age_valid :: bool
  max_age_secs :: int
  expires_tp :: "int option"

definition no_expiry_info :: CookieExpiryInfo where
  "no_expiry_info = \<lparr>has_max_age = False, max_age_valid = False, max_age_secs = 0, expires_tp = None\<rparr>"

definition NormalizeHost :: "string \<Rightarrow> string" where
  "NormalizeHost host = map to_lower_char host"

definition NormalizeDomain :: "string \<Rightarrow> string" where
  "NormalizeDomain domain =
     (let d = TrimView domain
      in NormalizeHost (if d \<noteq> [] \<and> hd d = CHR ''.'' then tl d else d))"

definition DefaultPathFromTarget :: "string \<Rightarrow> string" where
  "DefaultPathFromTarget target =
     (let path = (case find_char CHR ''?'' target of None \<Rightarrow> target | Some q \<Rightarrow> substr target 0 (Some q))
      in if path = [] \<or> hd path \<noteq> CHR ''/'' then ''/''
         else (case find_last_if (\<lambda>c. c = CHR ''/'') path of
                 None \<Rightarrow> ''/''
               | Some slash \<Rightarrow> if slash = 0 then ''/'' else substr path 0 (Some slash)))"

definition DomainMatches :: "string \<Rightarrow> string \<Rightarrow> bool" where
  "DomainMatches host domain =
     (if host = domain then True
      else if length host \<le> length domain then False
      else
        (let offset = length host - length domain
         in if drop offset host \<noteq> domain then False else host ! (offset - 1) = CHR ''.''))"

definition PathMatches :: "string \<Rightarrow> string \<Rightarrow> bool" where
  "PathMatches request_path cookie_path =
     (let cookie_path = (if cookie_path = [] \<or> hd cookie_path \<noteq> CHR ''/'' then ''/'' else cookie_path)
      in if cookie_path = ''/'' then True
         else if \<not> starts_with cookie_path request_path then False
         else if length request_path = length cookie_path then True
         else if last cookie_path = CHR ''/'' then True
         else request_path ! length cookie_path = CHR ''/'')"

section \<open>Parsing a Set-Cookie value\<close>

text \<open>\<open>None\<close> stands for the return value \<^verbatim>\<open>false\<close>, which rejects the cookie.\<close>

definition ApplySetCookieAttribute ::
  "(string \<Rightarrow> broken_time option) \<Rightarrow> string \<Rightarrow> string \<Rightarrow> string \<Rightarrow> Cookie \<times> CookieExpiryInfo
    \<Rightarrow> (Cookie \<times> CookieExpiryInfo) option" where
  "ApplySetCookieAttribute get_time host_norm key val ce =
     (case ce of (cookie, expiry) \<Rightarrow>
       if IEquals key ''Secure'' then Some (cookie\<lparr>c_secure := True\<rparr>, expiry)
       else if IEquals key ''HttpOnly'' \<or> IEquals key ''SameSite'' then Some (cookie, expiry)
       else if IEquals key ''Domain'' then
         (let dom = NormalizeDomain val
          in if dom \<noteq> [] \<and> DomainMatches host_norm dom
             then Some (cookie\<lparr>c_domain := dom, c_host_only := False\<rparr>, expiry)
             else None)
       else if IEquals key ''Path'' then
         (if val \<noteq> [] \<and> hd val = CHR ''/'' then Some (cookie\<lparr>c_path := val\<rparr>, expiry)
          else Some (cookie, expiry))
       else if IEquals key ''Max-Age'' then
         (case stoll val of
            Some n \<Rightarrow> Some (cookie, expiry\<lparr>has_max_age := True, max_age_secs := n, max_age_valid := True\<rparr>)
          | None \<Rightarrow> Some (cookie, expiry\<lparr>has_max_age := True, max_age_valid := False\<rparr>))
       else if IEquals key ''Expires'' then
         Some (cookie, expiry\<lparr>expires_tp := ParseImfFixdate get_time val\<rparr>)
       else Some (cookie, expiry))"

definition ComputeAndApplyExpiry :: "int \<Rightarrow> CookieExpiryInfo \<Rightarrow> Cookie \<Rightarrow> bool \<times> Cookie" where
  "ComputeAndApplyExpiry now expiry cookie =
     (if has_max_age expiry \<and> max_age_valid expiry then
        (if max_age_secs expiry \<le> 0
         then (False, cookie\<lparr>c_value := [], c_expiry := Some 0\<rparr>)
         else (True, cookie\<lparr>c_expiry := Some (now + max_age_secs expiry * 1000000000)\<rparr>))
      else case expires_tp expiry of
             Some t \<Rightarrow>
               if t \<le> now then (False, cookie\<lparr>c_expiry := Some t, c_value := []\<rparr>)
               else (True, cookie\<lparr>c_expiry := Some t\<rparr>)
           | None \<Rightarrow> (True, cookie))"

fun apply_attributes ::
  "(string \<Rightarrow> broken_time option) \<Rightarrow> string \<Rightarrow> string list \<Rightarrow> Cookie \<times> CookieExpiryInfo
    \<Rightarrow> (Cookie \<times> CookieExpiryInfo) option" where
  "apply_attributes get_time host_norm [] ce = Some ce"
| "apply_attributes get_time host_norm (token # tokens) ce =
     (if token = [] then apply_attributes get_time host_norm tokens ce
      else case SplitOnce token CHR ''='' of
        (k, v) \<Rightarrow>
          (case ApplySetCookieAttribute get_time host_norm (TrimView k) (TrimView v) ce of
             None \<Rightarrow> None
           | Some ce' \<Rightarrow> apply_attributes get_time host_norm tokens ce'))"

definition ParseSetCookieValue ::
  "(string \<Rightarrow> broken_time option) \<Rightarrow> int \<Rightarrow> string \<Rightarrow> string \<Rightarrow> string \<Rightarrow> Cookie option" where
  "ParseSetCookieValue get_time now host target val =
     (let val = TrimView val
      in if val = [] then None
         else
           (let tokens = SplitSetCookieTokens val
            in if tokens = [] \<or> hd tokens = [] then None
               else case SplitOnce (hd tokens) CHR ''='' of
                 (nv_name, nv_value) \<Rightarrow>
                   if TrimView nv_name = [] then None
                   else
                     (let host_norm = NormalizeHost host;
                          cookie = \<lparr>c_name = TrimView nv_name, c_value = TrimView nv_value,
                                    c_domain = host_norm, c_host_only = True,
                                    c_path = DefaultPathFromTarget target, c_secure = False,
                                    c_expiry = None\<rparr>
                      in case apply_attributes get_time host_norm (tl tokens) (cookie, no_expiry_info) of
                           None \<Rightarrow> None
                         | Some (cookie, expiry) \<Rightarrow> Some (snd (ComputeAndApplyExpiry now expiry cookie)))))"

section \<open>The jar\<close>

type_synonym jar = "Cookie list"

definition same_cookie :: "Cookie \<Rightarrow> Cookie \<Rightarrow> bool" where
  "same_cookie a b \<longleftrightarrow>
     c_name a = c_name b \<and> c_domain a = c_domain b \<and> c_host_only a = c_host_only b \<and> c_path a = c_path b"

definition CleanupExpiredLocked :: "int \<Rightarrow> jar \<Rightarrow> jar" where
  "CleanupExpiredLocked now cookies =
     filter (\<lambda>c. \<not> (case c_expiry c of None \<Rightarrow> False | Some t \<Rightarrow> t \<le> now)) cookies"

fun UpsertCookieLocked :: "Cookie \<Rightarrow> jar \<Rightarrow> jar" where
  "UpsertCookieLocked incoming [] = [incoming]"
| "UpsertCookieLocked incoming (c # cs) =
     (if same_cookie c incoming
      then c\<lparr>c_value := c_value incoming, c_secure := c_secure incoming, c_expiry := c_expiry incoming\<rparr> # cs
      else c # UpsertCookieLocked incoming cs)"

definition UpsertFromSetCookieLocked ::
  "(string \<Rightarrow> broken_time option) \<Rightarrow> int \<Rightarrow> int \<Rightarrow> string \<Rightarrow> string \<Rightarrow> string \<Rightarrow> jar \<Rightarrow> jar" where
  "UpsertFromSetCookieLocked get_time now now' host target val cookies =
     (case ParseSetCookieValue get_time now host target val of
        None \<Rightarrow> cookies
      | Some cookie \<Rightarrow>
          if c_value cookie = [] \<and> (case c_expiry cookie of None \<Rightarrow> False | Some t \<Rightarrow> t \<le> now')
          then filter (\<lambda>c. \<not> same_cookie c cookie) cookies
          else UpsertCookieLocked cookie cookies)"

definition SyncSetCookie ::
  "(string \<Rightarrow> broken_time option) \<Rightarrow> int \<Rightarrow> int \<Rightarrow> int \<Rightarrow> string \<Rightarrow> string \<Rightarrow> string \<Rightarrow> jar \<Rightarrow> jar" where
  "SyncSetCookie get_time now1 now2 now3 host target val cookies =
     UpsertFromSetCookieLocked get_time now2 now3 host target val (CleanupExpiredLocked now1 cookies)"

definition ClearCookies :: "jar \<Rightarrow> jar" where
  "ClearCookies cookies = []"

definition CookieCount :: "int \<Rightarrow> jar \<Rightarrow> nat \<times> jar" where
  "CookieCount now cookies =
     (let cookies = CleanupExpiredLocked now cookies in (length cookies, cookies))"

text \<open>One header with several \<^verbatim>\<open>Set-Cookie\<close> fields, each synced at its own clock readings.\<close>

fun OnResponseHeader ::
  "(string \<Rightarrow> broken_time option) \<Rightarrow> string \<Rightarrow> string \<Rightarrow> ((int \<times> int \<times> int) \<times> string) list \<Rightarrow> jar \<Rightarrow> jar" where
  "OnResponseHeader get_time host target [] cookies = cookies"
| "OnResponseHeader get_time host target (((now1, now2, now3), val) # rest) cookies =
     OnResponseHeader get_time host target rest
       (SyncSetCookie get_time now1 now2 now3 host target val cookies)"

section \<open>Choosing the cookies of a request\<close>

definition CollectMatchingCookiesLocked :: "string \<Rightarrow> string \<Rightarrow> bool \<Rightarrow> jar \<Rightarrow> (nat \<times> nat) list" where
  "CollectMatchingCookiesLocked host_norm request_path is_https cookies =
     concat (map (\<lambda>i. let c = cookies ! i in
         if c_secure c \<and> \<not> is_https then []
         else if c_host_only c \<and> host_norm \<noteq> c_domain c then []
         else if \<not> c_host_only c \<and> \<not> DomainMatches host_norm (c_domain c) then []
         else if \<not> PathMatches request_path (c_path c) then []
         else [(i, length (c_path c))])
       [0..<length cookies])"

fun serialize_loop :: "jar \<Rightarrow> (nat \<times> nat) list \<Rightarrow> string \<Rightarrow> string" where
  "serialize_loop cookies [] out = out"
| "serialize_loop cookies (cand # cands) out =
     (let c = cookies ! fst cand
      in if c_name c = [] then serialize_loop cookies cands out
         else
           (let out = (if out \<noteq> [] then out @ ''; '' else out)
            in serialize_loop cookies cands (out @ c_name c @ ''='' @ c_value c)))"

definition SerializeCookieCandidates :: "jar \<Rightarrow> (nat \<times> nat) list \<Rightarrow> string" where
  "SerializeCookieCandidates cookies candidates = serialize_loop cookies candidates []"

text \<open>
  \<open>srt\<close> is \<^verbatim>\<open>std::ranges::sort\<close> with the comparator of the code; it is not stable, so the order of
  candidates with equally long paths is left open.
\<close>

definition BuildCookieHeaderLocked ::
  "((nat \<times> nat) list \<Rightarrow> (nat \<times> nat) list) \<Rightarrow> string \<Rightarrow> string \<Rightarrow> bool \<Rightarrow> jar \<Rightarrow> string" where
  "BuildCookieHeaderLocked srt host target is_https cookies =
     (let host_norm = NormalizeHost host;
          request_path = (case find_char CHR ''?'' target of None \<Rightarrow> target | Some q \<Rightarrow> substr target 0 (Some q));
          candidates = CollectMatchingCookiesLocked host_norm request_path is_https cookies
      in if candidates = [] then [] else SerializeCookieCandidates cookies (srt candidates))"

text \<open>
  \<open>has_cookie\<close>: the request already carries a \<^verbatim>\<open>Cookie\<close> field. The result is the field to set, if
  any, and the jar.
\<close>

definition MaybeInjectCookies ::
  "((nat \<times> nat) list \<Rightarrow> (nat \<times> nat) list) \<Rightarrow> int \<Rightarrow> bool \<Rightarrow> string \<Rightarrow> string \<Rightarrow> bool \<Rightarrow> jar
    \<Rightarrow> string option \<times> jar" where
  "MaybeInjectCookies srt now has_cookie host target is_https cookies =
     (if has_cookie then (None, cookies)
      else
        (let cookies = CleanupExpiredLocked now cookies;
             cookie = BuildCookieHeaderLocked srt host target is_https cookies
         in (if cookie \<noteq> [] then Some cookie else None, cookies)))"

section \<open>Characterisations\<close>

lemma IEquals_iff: "IEquals a b \<longleftrightarrow> to_lower a = to_lower b"
proof -
  have "length a = length b \<Longrightarrow> iequals_loop a b \<longleftrightarrow> to_lower a = to_lower b"
    by (induction a b rule: iequals_loop.induct) (auto simp: to_lower_def)
  then show ?thesis by (auto simp: IEquals_def dest: arg_cong [where f = length])
qed

lemma DomainMatches_iff:
  "DomainMatches host domain \<longleftrightarrow> host = domain \<or> (\<exists>p. host = p @ CHR ''.'' # domain)"
proof (cases "host = domain \<or> length host \<le> length domain")
  case True
  then show ?thesis by (auto simp: DomainMatches_def)
next
  case False
  let ?o = "length host - length domain"
  have o: "0 < ?o" "?o \<le> length host" using False by auto
  have "drop (?o - 1) host = host ! (?o - 1) # drop ?o host"
    using o by (metis Suc_diff_1 Cons_nth_drop_Suc diff_less le_less_trans less_le_trans zero_less_one diff_Suc_less)
  then have "host = take (?o - 1) host @ host ! (?o - 1) # drop ?o host" by (metis append_take_drop_id)
  moreover have "length (p @ CHR ''.'' # domain) - length domain - 1 = length p" for p by simp
  ultimately show ?thesis
    using False by (auto simp: DomainMatches_def Let_def nth_append)
qed

definition split_fields :: "string \<Rightarrow> string list" where
  "split_fields s =
     (let fs = split_on CHR '';'' s in if last fs = [] then butlast fs else fs)"

lemma split_cookie_loop_eq:
  assumes "start \<le> length s"
  shows "split_cookie_loop s start tokens = tokens @ map TrimView (split_fields (drop start s))"
  using assms
proof (induction "length s - start" arbitrary: start tokens rule: less_induct)
  case less
  show ?case
  proof (cases "find_char CHR '';'' (drop start s)")
    case None
    then have "split_on CHR '';'' (drop start s) = [drop start s]"
      by (simp add: find_char_None_iff split_on_none)
    then show ?thesis
      using None less.prems
      by (subst split_cookie_loop.simps) (auto simp: split_fields_def substr_def)
  next
    case (Some i)
    note d = find_char_SomeD [OF Some]
    have dd: "drop (Suc i) (drop start s) = drop (start + i + 1) s" by (simp add: ac_simps)
    have sp: "split_on CHR '';'' (drop start s) = take i (drop start s) # split_on CHR '';'' (drop (start + i + 1) s)"
      using split_on_append [OF d(3), of "drop (Suc i) (drop start s)"] d(4) dd by metis
    have lt: "start + i + 1 \<le> length s" "start < length s" using d(1) by auto
    have "split_cookie_loop s start tokens
        = split_cookie_loop s (start + i + 1) (tokens @ [TrimView (take i (drop start s))])"
      using Some lt(2) by (subst split_cookie_loop.simps) (simp add: substr_def)
    also have "\<dots> = (tokens @ [TrimView (take i (drop start s))]) @ map TrimView (split_fields (drop (start + i + 1) s))"
      by (rule less.hyps) (use lt in auto)
    finally show ?thesis by (simp add: split_fields_def sp Let_def)
  qed
qed

lemma SplitSetCookieTokens_eq: "SplitSetCookieTokens s = map TrimView (split_fields s)"
  by (simp add: SplitSetCookieTokens_def split_cookie_loop_eq)

section \<open>The jar's invariant\<close>

definition cookie_key :: "Cookie \<Rightarrow> string \<times> string \<times> bool \<times> string" where
  "cookie_key c = (c_name c, c_domain c, c_host_only c, c_path c)"

lemma same_cookie_key: "same_cookie a b \<longleftrightarrow> cookie_key a = cookie_key b"
  by (simp add: same_cookie_def cookie_key_def)

definition jar_ok :: "jar \<Rightarrow> bool" where
  "jar_ok cookies \<longleftrightarrow> distinct (map cookie_key cookies) \<and> (\<forall>c\<in>set cookies. c_name c \<noteq> [])"

lemma jar_ok_filter [inv_intros]: "jar_ok cookies \<Longrightarrow> jar_ok (filter P cookies)"
  by (auto simp: jar_ok_def distinct_map_filter)

lemma Upsert_keys:
  "map cookie_key (UpsertCookieLocked c cookies)
    = (if cookie_key c \<in> cookie_key ` set cookies then map cookie_key cookies
       else map cookie_key cookies @ [cookie_key c])"
  by (induction c cookies rule: UpsertCookieLocked.induct) (auto simp: same_cookie_key cookie_key_def)

lemma Upsert_names: "c_name ` set (UpsertCookieLocked c cookies) \<subseteq> insert (c_name c) (c_name ` set cookies)"
  by (induction c cookies rule: UpsertCookieLocked.induct) (auto simp: same_cookie_def)

lemma jar_ok_Upsert [inv_intros]:
  assumes "jar_ok cookies" "c_name c \<noteq> []"
  shows "jar_ok (UpsertCookieLocked c cookies)"
  using assms Upsert_keys [of c cookies] Upsert_names [of c cookies]
  by (auto simp: jar_ok_def)

lemma apply_attributes_name:
  "apply_attributes get_time h tokens (c, x) = Some (c', x') \<Longrightarrow> c_name c' = c_name c \<and> c_value c' = c_value c"
proof (induction tokens arbitrary: c x)
  case (Cons token tokens)
  then show ?case
    by (auto simp: ApplySetCookieAttribute_def Let_def split: if_splits prod.splits option.splits)
qed simp

lemma ComputeAndApplyExpiry_keeps:
  "cookie_key (snd (ComputeAndApplyExpiry now x c)) = cookie_key c"
  "c_secure (snd (ComputeAndApplyExpiry now x c)) = c_secure c"
  by (auto simp: ComputeAndApplyExpiry_def cookie_key_def split: option.splits)

text \<open>The domain of a cookie is the host that set it, or a parent domain of that host.\<close>

definition domain_from :: "string \<Rightarrow> Cookie \<Rightarrow> bool" where
  "domain_from host_norm c \<longleftrightarrow>
     (if c_host_only c then c_domain c = host_norm
      else c_domain c \<noteq> [] \<and> DomainMatches host_norm (c_domain c))"

lemma ApplySetCookieAttribute_domain:
  "ApplySetCookieAttribute get_time h k v ce = Some ce' \<Longrightarrow> domain_from h (fst ce) \<Longrightarrow> domain_from h (fst ce')"
  by (auto simp: ApplySetCookieAttribute_def Let_def domain_from_def
      split: if_splits prod.splits option.splits)

lemma apply_attributes_domain:
  "apply_attributes get_time h tokens ce = Some ce' \<Longrightarrow> domain_from h (fst ce) \<Longrightarrow> domain_from h (fst ce')"
  by (induction tokens arbitrary: ce)
    (auto dest: ApplySetCookieAttribute_domain split: if_splits prod.splits option.splits)

lemma ParseSetCookieValue_SomeE:
  assumes "ParseSetCookieValue get_time now host target val = Some c"
  obtains n v tokens c1 x where "n \<noteq> []"
    "apply_attributes get_time (NormalizeHost host) tokens
       (\<lparr>c_name = n, c_value = v, c_domain = NormalizeHost host, c_host_only = True,
         c_path = DefaultPathFromTarget target, c_secure = False, c_expiry = None\<rparr>, no_expiry_info)
      = Some (c1, x)"
    "c = snd (ComputeAndApplyExpiry now x c1)"
  using assms unfolding ParseSetCookieValue_def Let_def
  by (auto split: if_splits prod.splits option.splits)

lemma ParseSetCookieValue_ok:
  assumes "ParseSetCookieValue get_time now host target val = Some c"
  shows "c_name c \<noteq> []" "domain_from (NormalizeHost host) c"
proof -
  from assms obtain n v tokens c1 x where p: "n \<noteq> []"
    "apply_attributes get_time (NormalizeHost host) tokens
       (\<lparr>c_name = n, c_value = v, c_domain = NormalizeHost host, c_host_only = True,
         c_path = DefaultPathFromTarget target, c_secure = False, c_expiry = None\<rparr>, no_expiry_info)
      = Some (c1, x)"
    "c = snd (ComputeAndApplyExpiry now x c1)"
    by (rule ParseSetCookieValue_SomeE)
  have k: "cookie_key c = cookie_key c1" using p(3) ComputeAndApplyExpiry_keeps(1) by simp
  show "c_name c \<noteq> []" using apply_attributes_name [OF p(2)] p(1) k by (simp add: cookie_key_def)
  show "domain_from (NormalizeHost host) c"
    using apply_attributes_domain [OF p(2)] k by (simp add: domain_from_def cookie_key_def)
qed

lemma jar_ok_UpsertFrom [inv_intros]:
  "jar_ok cookies \<Longrightarrow> jar_ok (UpsertFromSetCookieLocked get_time now now' host target val cookies)"
  by (auto simp: UpsertFromSetCookieLocked_def jar_ok_filter jar_ok_Upsert ParseSetCookieValue_ok(1)
      split: option.splits)

lemma jar_ok_Sync [inv_intros]:
  "jar_ok cookies \<Longrightarrow> jar_ok (SyncSetCookie get_time now1 now2 now3 host target val cookies)"
  by (simp add: SyncSetCookie_def jar_ok_UpsertFrom CleanupExpiredLocked_def jar_ok_filter)

section \<open>Eligible cookies\<close>

definition cookie_live :: "int \<Rightarrow> Cookie \<Rightarrow> bool" where
  "cookie_live now c \<longleftrightarrow> (case c_expiry c of None \<Rightarrow> True | Some t \<Rightarrow> now < t)"

definition cookie_applies :: "string \<Rightarrow> string \<Rightarrow> bool \<Rightarrow> Cookie \<Rightarrow> bool" where
  "cookie_applies host_norm request_path is_https c \<longleftrightarrow>
     (c_secure c \<longrightarrow> is_https) \<and>
     (if c_host_only c then host_norm = c_domain c else DomainMatches host_norm (c_domain c)) \<and>
     PathMatches request_path (c_path c)"

definition request_path_of :: "string \<Rightarrow> string" where
  "request_path_of target = takeWhile (\<lambda>c. c \<noteq> CHR ''?'') target"

definition print_cookies :: "Cookie list \<Rightarrow> string" where
  "print_cookies cs =
     (case cs of
        [] \<Rightarrow> []
      | d # ds \<Rightarrow> c_name d @ ''='' @ c_value d @ concat (map (\<lambda>c. ''; '' @ c_name c @ ''='' @ c_value c) ds))"

lemma Cleanup_eq: "CleanupExpiredLocked now cookies = filter (cookie_live now) cookies"
  by (auto simp: CleanupExpiredLocked_def cookie_live_def intro!: filter_cong split: option.splits)

lemma Collect_eq:
  "CollectMatchingCookiesLocked h p s cookies
    = map (\<lambda>i. (i, length (c_path (cookies ! i)))) (filter (\<lambda>i. cookie_applies h p s (cookies ! i)) [0..<length cookies])"
proof -
  have "(if c_secure c \<and> \<not> s then []
         else if c_host_only c \<and> h \<noteq> c_domain c then []
         else if \<not> c_host_only c \<and> \<not> DomainMatches h (c_domain c) then []
         else if \<not> PathMatches p (c_path c) then [] else [x])
      = (if cookie_applies h p s c then [x] else [])" for c and x :: "nat \<times> nat"
    by (auto simp: cookie_applies_def)
  then have "CollectMatchingCookiesLocked h p s cookies
      = concat (map (\<lambda>i. if cookie_applies h p s (cookies ! i) then [(i, length (c_path (cookies ! i)))] else [])
          [0..<length cookies])"
    by (simp add: CollectMatchingCookiesLocked_def Let_def)
  also have "concat (map (\<lambda>i. if P i then [f i] else []) xs) = map f (filter P xs)"
    for P :: "nat \<Rightarrow> bool" and f :: "nat \<Rightarrow> nat \<times> nat" and xs
    by (induction xs) auto
  finally show ?thesis .
qed

lemma serialize_loop_eq:
  assumes "\<forall>cand\<in>set cands. c_name (cookies ! fst cand) \<noteq> []"
  shows "serialize_loop cookies cands out
    = (if out = [] then print_cookies (map (\<lambda>cand. cookies ! fst cand) cands)
       else out @ concat (map (\<lambda>cand. ''; '' @ c_name (cookies ! fst cand) @ ''='' @ c_value (cookies ! fst cand)) cands))"
  using assms
  by (induction cands arbitrary: out) (auto simp: print_cookies_def Let_def comp_def)

lemma path_before_query:
  "(case find_char CHR ''?'' target of None \<Rightarrow> target | Some q \<Rightarrow> substr target 0 (Some q)) = request_path_of target"
proof (cases "find_char CHR ''?'' target")
  case None
  then have "CHR ''?'' \<notin> set target" by (simp add: find_char_None_iff)
  then have "takeWhile (\<lambda>c. c \<noteq> CHR ''?'') target = target" by (auto simp: takeWhile_eq_all_conv)
  then show ?thesis by (simp only: None option.case request_path_of_def)
next
  case (Some q)
  then show ?thesis
    using find_if_SomeD(3) [of "\<lambda>x. x = CHR ''?''" target q]
    by (simp add: substr_def request_path_of_def find_char_find_if)
qed

text \<open>What \<^verbatim>\<open>std::ranges::sort\<close> promises for the comparator of the code.\<close>

definition sorts_by_path :: "((nat \<times> nat) list \<Rightarrow> (nat \<times> nat) list) \<Rightarrow> bool" where
  "sorts_by_path srt \<longleftrightarrow>
     (\<forall>xs. mset (srt xs) = mset xs \<and> sorted_wrt (\<lambda>a b. snd a \<ge> snd b) (srt xs))"

lemma sorted_wrt_map_mem:
  "sorted_wrt (\<lambda>a b. snd b \<le> snd a) xs \<Longrightarrow> \<forall>x\<in>set xs. snd x = length (c_path (f x)) \<Longrightarrow>
    sorted_wrt (\<lambda>a b. length (c_path b) \<le> length (c_path a)) (map f xs)"
  by (induction xs) auto

section \<open>Properties\<close>

datatype jar_op =
    OpSync int int int string string string
  | OpHeader string string "((int \<times> int \<times> int) \<times> string) list"
  | OpInject int bool string string bool
  | OpCount int
  | OpClear

definition apply_jar_op ::
  "(string \<Rightarrow> broken_time option) \<Rightarrow> ((nat \<times> nat) list \<Rightarrow> (nat \<times> nat) list) \<Rightarrow> jar_op \<Rightarrow> jar \<Rightarrow> jar" where
  "apply_jar_op get_time srt oper cookies =
     (case oper of
        OpSync now1 now2 now3 host target val \<Rightarrow> SyncSetCookie get_time now1 now2 now3 host target val cookies
      | OpHeader host target vals \<Rightarrow> OnResponseHeader get_time host target vals cookies
      | OpInject now has_cookie host target is_https \<Rightarrow>
          snd (MaybeInjectCookies srt now has_cookie host target is_https cookies)
      | OpCount now \<Rightarrow> snd (CookieCount now cookies)
      | OpClear \<Rightarrow> ClearCookies cookies)"

text \<open>The hosts whose responses an operation stores.\<close>

definition op_hosts :: "jar_op \<Rightarrow> string set" where
  "op_hosts oper =
     (case oper of OpSync _ _ _ host _ _ \<Rightarrow> {NormalizeHost host} | OpHeader host _ _ \<Rightarrow> {NormalizeHost host} | _ \<Rightarrow> {})"

definition jar_from :: "string set \<Rightarrow> jar \<Rightarrow> bool" where
  "jar_from hosts cookies \<longleftrightarrow> (\<forall>c\<in>set cookies. \<exists>h\<in>hosts. domain_from h c)"

lemma jar_ok_Header [inv_intros]:
  "jar_ok cookies \<Longrightarrow> jar_ok (OnResponseHeader get_time host target vals cookies)"
  by (induction get_time host target vals cookies rule: OnResponseHeader.induct) (auto intro: jar_ok_Sync)

lemma jar_ok_op: "jar_ok cookies \<Longrightarrow> jar_ok (apply_jar_op get_time srt oper cookies)"
  by (cases oper)
    (auto simp: apply_jar_op_def MaybeInjectCookies_def CookieCount_def ClearCookies_def CleanupExpiredLocked_def
      Let_def jar_ok_def [of "[]"] intro: inv_intros)

lemma jar_from_Upsert:
  "jar_from hosts cookies \<Longrightarrow> \<exists>h\<in>hosts. domain_from h c \<Longrightarrow> jar_from hosts (UpsertCookieLocked c cookies)"
  by (induction c cookies rule: UpsertCookieLocked.induct)
    (auto simp: jar_from_def domain_from_def)

lemma jar_from_mono: "jar_from hosts cookies \<Longrightarrow> hosts \<subseteq> hosts' \<Longrightarrow> jar_from hosts' cookies"
  unfolding jar_from_def by blast

lemma jar_from_filter: "jar_from hosts cookies \<Longrightarrow> jar_from hosts (filter P cookies)"
  by (simp add: jar_from_def)

lemma jar_from_Sync:
  "jar_from hosts cookies \<Longrightarrow> NormalizeHost host \<in> hosts \<Longrightarrow>
    jar_from hosts (SyncSetCookie get_time now1 now2 now3 host target val cookies)"
  unfolding SyncSetCookie_def UpsertFromSetCookieLocked_def CleanupExpiredLocked_def
  by (auto split: option.split intro!: jar_from_Upsert jar_from_filter dest: ParseSetCookieValue_ok(2))

lemma jar_from_Header:
  "jar_from hosts cookies \<Longrightarrow> NormalizeHost host \<in> hosts \<Longrightarrow>
    jar_from hosts (OnResponseHeader get_time host target vals cookies)"
  by (induction get_time host target vals cookies rule: OnResponseHeader.induct) (auto intro: jar_from_Sync)

lemma jar_from_op:
  assumes "jar_from hosts cookies"
  shows "jar_from (hosts \<union> op_hosts oper) (apply_jar_op get_time srt oper cookies)"
proof -
  have "jar_from (hosts \<union> op_hosts oper) cookies" using assms by (rule jar_from_mono) simp
  then show ?thesis
    by (cases oper)
      (auto simp: apply_jar_op_def op_hosts_def MaybeInjectCookies_def CookieCount_def ClearCookies_def
        CleanupExpiredLocked_def Let_def jar_from_def [of _ "[]"]
        intro: jar_from_Sync jar_from_Header jar_from_filter)
qed

lemma jar_from_ops:
  "jar_from hosts cookies \<Longrightarrow>
    jar_from (hosts \<union> \<Union> (set (map op_hosts opers))) (foldl (\<lambda>j oper. apply_jar_op get_time srt oper j) cookies opers)"
proof (induction opers arbitrary: hosts cookies)
  case (Cons oper opers)
  then show ?case using Cons.IH [OF jar_from_op] by (simp add: Un_assoc)
qed simp

text \<open>
  Whatever mix of responses, requests, counts and clears a session has seen, its jar holds at
  most one cookie for each name, domain, host-only flag and path, and no cookie without a name.
\<close>

theorem jar_stays_unique:
  "jar_ok (foldl (\<lambda>j oper. apply_jar_op get_time srt oper j) [] opers)"
proof -
  have "jar_ok j \<Longrightarrow> jar_ok (foldl (\<lambda>j oper. apply_jar_op get_time srt oper j) j opers)" for j
    by (induction opers arbitrary: j) (auto intro: jar_ok_op)
  from this [of "[]"] show ?thesis by (simp add: jar_ok_def [of "[]"])
qed



definition jar_lookup :: "string \<times> string \<times> bool \<times> string \<Rightarrow> jar \<Rightarrow> Cookie option" where
  "jar_lookup k cookies = find (\<lambda>c. cookie_key c = k) cookies"

lemma lookup_Upsert:
  "jar_lookup k (UpsertCookieLocked c cookies) = (if k = cookie_key c then Some c else jar_lookup k cookies)"
proof (induction c cookies rule: UpsertCookieLocked.induct)
  case (2 c d ds)
  have "same_cookie d c \<Longrightarrow>
      d\<lparr>c_value := c_value c, c_secure := c_secure c, c_expiry := c_expiry c\<rparr> = c"
    by (cases c; cases d) (simp add: same_cookie_def)
  then show ?case using 2 by (auto simp: jar_lookup_def same_cookie_key)
qed (simp add: jar_lookup_def)

lemma lookup_remove:
  "jar_lookup k (filter (\<lambda>c. \<not> same_cookie c d) cookies)
    = (if k = cookie_key d then None else jar_lookup k cookies)"
  by (induction cookies) (auto simp: jar_lookup_def same_cookie_key)

text \<open>
  Storing a \<^verbatim>\<open>Set-Cookie\<close> value is a map update on the live cookies: a rejected value changes
  nothing else, an accepted one replaces the cookie with the same key whole, and one that arrives
  expired (no value, and an expiry in the past) removes it.
\<close>

theorem set_cookie_is_a_map_update:
  "jar_lookup k (SyncSetCookie get_time now1 now2 now3 host target val cookies) =
     (case ParseSetCookieValue get_time now2 host target val of
        None \<Rightarrow> jar_lookup k (filter (cookie_live now1) cookies)
      | Some c \<Rightarrow>
          if k = cookie_key c
          then (if c_value c = [] \<and> \<not> cookie_live now3 c then None else Some c)
          else jar_lookup k (filter (cookie_live now1) cookies))"
proof -
  have "(case c_expiry c of None \<Rightarrow> False | Some t \<Rightarrow> t \<le> now3) \<longleftrightarrow> \<not> cookie_live now3 c" for c
    by (auto simp: cookie_live_def split: option.splits)
  then show ?thesis
    by (simp add: SyncSetCookie_def UpsertFromSetCookieLocked_def Cleanup_eq lookup_Upsert lookup_remove
        split: option.splits del: filter_filter)
qed

lemma BuildCookieHeader_eq:
  assumes "sorts_by_path srt" "\<forall>c\<in>set cookies. c_name c \<noteq> []"
  obtains cs where
    "BuildCookieHeaderLocked srt host target is_https cookies = print_cookies cs"
    "mset cs = mset (filter (cookie_applies (NormalizeHost host) (request_path_of target) is_https) cookies)"
    "sorted_wrt (\<lambda>a b. length (c_path b) \<le> length (c_path a)) cs"
proof -
  let ?ap = "cookie_applies (NormalizeHost host) (request_path_of target) is_https"
  let ?cands = "CollectMatchingCookiesLocked (NormalizeHost host) (request_path_of target) is_https cookies"
  let ?get = "\<lambda>cand. cookies ! fst cand"
  let ?cs = "map ?get (srt ?cands)"
  have srt: "mset (srt ?cands) = mset ?cands" "sorted_wrt (\<lambda>a b. snd a \<ge> snd b) (srt ?cands)"
    using assms(1) unfolding sorts_by_path_def by blast+
  have members: "set (srt ?cands) = set ?cands" using srt(1) by (rule mset_eq_setD)
  have cand: "snd cand = length (c_path (?get cand)) \<and> ?get cand \<in> set cookies" if "cand \<in> set ?cands" for cand
    using that by (auto simp: Collect_eq)
  have "mset ?cs = mset (map ?get ?cands)" using srt(1) by simp
  also have "map ?get ?cands = filter ?ap (map (\<lambda>i. cookies ! i) [0..<length cookies])"
    by (simp add: Collect_eq comp_def filter_map)
  also have "\<dots> = filter ?ap cookies" by (simp add: map_nth)
  finally have m: "mset ?cs = mset (filter ?ap cookies)" .
  have s: "sorted_wrt (\<lambda>a b. length (c_path b) \<le> length (c_path a)) ?cs"
    using srt(2) cand members by (intro sorted_wrt_map_mem) auto
  have "serialize_loop cookies (srt ?cands) [] = print_cookies ?cs"
    using serialize_loop_eq [of "srt ?cands" cookies "[]"] cand assms(2) members by auto
  moreover have "srt ?cands = []" if "?cands = []" using members that by simp
  ultimately have "BuildCookieHeaderLocked srt host target is_https cookies = print_cookies ?cs"
    by (auto simp: BuildCookieHeaderLocked_def path_before_query SerializeCookieCandidates_def Let_def
        print_cookies_def)
  then show thesis using m s by (rule that)
qed

text \<open>
  (C28) A request without a \<^verbatim>\<open>Cookie\<close> field of its own gets exactly the cookies that are live and apply
  to it (secure ones only over https, host or domain and path matching), each once, the longer
  paths first; with none of them, no field is set. Expired cookies leave the jar.
\<close>

theorem request_gets_exactly_its_cookies:
  assumes "sorts_by_path srt" "jar_ok cookies"
  shows "\<exists>cs. MaybeInjectCookies srt now False host target is_https cookies
                = (if cs = [] then None else Some (print_cookies cs), filter (cookie_live now) cookies) \<and>
           mset cs = mset (filter (\<lambda>c. cookie_live now c \<and>
               cookie_applies (NormalizeHost host) (request_path_of target) is_https c) cookies) \<and>
           sorted_wrt (\<lambda>a b. length (c_path b) \<le> length (c_path a)) cs"
proof -
  have "\<forall>c\<in>set (filter (cookie_live now) cookies). c_name c \<noteq> []"
    using assms(2) by (simp add: jar_ok_def)
  with assms(1) obtain cs where cs:
    "BuildCookieHeaderLocked srt host target is_https (filter (cookie_live now) cookies) = print_cookies cs"
    "mset cs = mset (filter (cookie_applies (NormalizeHost host) (request_path_of target) is_https)
       (filter (cookie_live now) cookies))"
    "sorted_wrt (\<lambda>a b. length (c_path b) \<le> length (c_path a)) cs"
    by (rule BuildCookieHeader_eq)
  have "print_cookies cs = [] \<longleftrightarrow> cs = []" by (cases cs) (simp_all add: print_cookies_def)
  with cs show ?thesis
    by (intro exI [of _ cs])
      (auto simp: MaybeInjectCookies_def Cleanup_eq Let_def conj_commute simp flip: mset_filter)
qed

lemma sort_by_path: "sorts_by_path (\<lambda>xs. rev (sort_key snd xs))"
proof -
  have "sorted_wrt (\<lambda>a b. snd b \<le> snd a) (rev (sort_key snd xs))" for xs :: "(nat \<times> nat) list"
    using sorted_sort_key [of snd xs] by (simp add: sorted_wrt_rev sorted_map)
  then show ?thesis by (simp add: sorts_by_path_def)
qed

theorem request_gets_exactly_its_cookies_witness:
  "\<exists>cs. MaybeInjectCookies (\<lambda>xs. rev (sort_key snd xs)) 5 False ''h'' ''/a/b?q'' True
           [\<lparr>c_name = ''n'', c_value = ''v'', c_domain = ''h'', c_host_only = True, c_path = ''/'',
             c_secure = True, c_expiry = Some 9\<rparr>]
          = (if cs = [] then None else Some (print_cookies cs), filter (cookie_live 5)
             [\<lparr>c_name = ''n'', c_value = ''v'', c_domain = ''h'', c_host_only = True, c_path = ''/'',
               c_secure = True, c_expiry = Some 9\<rparr>]) \<and> length cs = 1"
proof -
  let ?j = "[\<lparr>c_name = ''n'', c_value = ''v'', c_domain = ''h'', c_host_only = True, c_path = ''/'',
               c_secure = True, c_expiry = Some 9\<rparr>]"
  have ok: "jar_ok ?j" by (simp add: jar_ok_def)
  have f: "filter (\<lambda>c. cookie_live 5 c \<and> cookie_applies (NormalizeHost ''h'') (request_path_of ''/a/b?q'') True c) ?j = ?j"
    by code_simp
  from request_gets_exactly_its_cookies [OF sort_by_path ok, of 5 "''h''" "''/a/b?q''" True]
  obtain cs where "MaybeInjectCookies (\<lambda>xs. rev (sort_key snd xs)) 5 False ''h'' ''/a/b?q'' True ?j
       = (if cs = [] then None else Some (print_cookies cs), filter (cookie_live 5) ?j)" "mset cs = mset ?j"
    unfolding f by blast
  then show ?thesis by (intro exI [of _ cs]) (auto dest: mset_eq_length)
qed

section \<open>From the server's builder to the client's jar\<close>

text \<open>A text the \<^verbatim>\<open>Set-Cookie\<close> format can carry: non-empty, no semicolon, no blank at either end.\<close>

definition clean_text :: "string \<Rightarrow> bool" where
  "clean_text s \<longleftrightarrow> s \<noteq> [] \<and> CHR '';'' \<notin> set s \<and> \<not> is_space (hd s) \<and> \<not> is_space (last s)"

definition printable :: "ServerSetCookie \<Rightarrow> bool" where
  "printable c \<longleftrightarrow>
     (case (sc_name c, sc_value c) of
        (Some n, Some v) \<Rightarrow> clean_text n \<and> CHR ''='' \<notin> set n \<and> clean_text v
      | _ \<Rightarrow> False) \<and>
     pred_option clean_text (sc_expiry c) \<and> pred_option clean_text (sc_path c) \<and>
     pred_option clean_text (sc_domain c) \<and>
     pred_option (\<lambda>n. - (2 ^ 63) \<le> n \<and> n < 2 ^ 63) (sc_max_age c)"

lemma view_ws_is_space: "view_ws c \<Longrightarrow> is_space c"
  by (auto simp: view_ws_def is_space_def)

lemma TrimView_clean: "s = [] \<or> (\<not> is_space (hd s) \<and> \<not> is_space (last s)) \<Longrightarrow> TrimView s = s"
  unfolding TrimView_def using view_ws_is_space by (intro trim_by_id) blast

lemma clean_TrimView: "clean_text s \<Longrightarrow> TrimView s = s" "clean_text s \<Longrightarrow> TrimView (CHR '' '' # s) = s"
  using TrimView_clean [of s] by (auto simp: clean_text_def TrimView_def trim_by_Cons_ws view_ws_def)

lemma clean_text_ne: "clean_text s \<Longrightarrow> s \<noteq> []"
  by (simp add: clean_text_def)

lemma clean_solid: "clean_text s \<Longrightarrow> solid_end s"
  unfolding clean_text_def solid_end_def by (metis last_in_set)

lemma clean_attribute:
  "clean_text k \<Longrightarrow> clean_text v \<Longrightarrow> clean_text (k @ ''='' @ v)"
  by (auto simp: clean_text_def)

lemma clean_to_string: "clean_text (std_to_string i)"
proof -
  have "\<not> is_space c \<and> c \<noteq> CHR '';''" if "c \<in> set (std_to_string i)" for c
    using std_to_string_chars [OF that] digit_not_space [of c] by (auto simp: is_space_def)
  then show ?thesis by (auto simp: clean_text_def)
qed

lemma split_print_parts:
  "\<forall>q\<in>set (p # ps). CHR '';'' \<notin> set q \<Longrightarrow>
    split_on CHR '';'' (print_parts p ps) = p # map (\<lambda>q. CHR '' '' # q) ps"
proof (induction ps arbitrary: p)
  case (Cons q qs)
  have "print_parts p (q # qs) = p @ CHR '';'' # print_parts (CHR '' '' # q) qs" by (simp add: print_parts_def)
  then show ?case
    using Cons.prems Cons.IH [of "CHR '' '' # q"] split_on_append [of "CHR '';''" p] by simp
qed (simp add: print_parts_def split_on_none)

lemma tokens_of_parts:
  assumes "clean_text p" "\<forall>q\<in>set ps. clean_text q"
  shows "TrimView (print_parts p ps) = print_parts p ps"
    "SplitSetCookieTokens (print_parts p ps) = p # ps"
proof -
  have "solid_end (print_parts p ps)" using assms by (intro solid_print_parts) (auto intro: clean_solid)
  then show "TrimView (print_parts p ps) = print_parts p ps"
    using assms(1) by (intro TrimView_clean) (auto simp: solid_end_def clean_text_def print_parts_def)
  have "split_on CHR '';'' (print_parts p ps) = p # map (\<lambda>q. CHR '' '' # q) ps"
    using assms by (intro split_print_parts) (auto simp: clean_text_def)
  moreover have "last (p # map (\<lambda>q. CHR '' '' # q) ps) \<noteq> []"
    using assms(1) by (cases ps rule: rev_cases) (auto simp: clean_text_def)
  ultimately show "SplitSetCookieTokens (print_parts p ps) = p # ps"
    using assms by (auto simp: SplitSetCookieTokens_eq split_fields_def clean_TrimView comp_def map_idI)
qed

lemma apply_attributes_append:
  "apply_attributes g h (xs @ ys) ce = Option.bind (apply_attributes g h xs ce) (apply_attributes g h ys)"
  by (induction xs arbitrary: ce) (auto split: prod.splits option.splits)

lemma SplitOnce_eq: "d \<notin> set k \<Longrightarrow> SplitOnce (k @ d # v) d = (k, v)"
  by (simp add: SplitOnce_def find_char_append substr_def)

lemma apply_attribute_pair:
  "clean_text k \<Longrightarrow> CHR ''='' \<notin> set k \<Longrightarrow> clean_text v \<Longrightarrow>
    apply_attributes g h [k @ CHR ''='' # v] ce = ApplySetCookieAttribute g h k v ce"
  by (auto simp: SplitOnce_eq clean_TrimView split: option.splits)

text \<open>The cookie a client should hold after a response that carries the printed cookie.\<close>

definition lifetime :: "(string \<Rightarrow> broken_time option) \<Rightarrow> int \<Rightarrow> ServerSetCookie \<Rightarrow> int option" where
  "lifetime get_time now c =
     (case sc_max_age c of
        Some n \<Rightarrow> Some (if n \<le> 0 then 0 else now + n * 1000000000)
      | None \<Rightarrow> Option.bind (sc_expiry c) (ParseImfFixdate get_time))"

definition deletes :: "(string \<Rightarrow> broken_time option) \<Rightarrow> int \<Rightarrow> ServerSetCookie \<Rightarrow> bool" where
  "deletes get_time now c \<longleftrightarrow>
     (case sc_max_age c of
        Some n \<Rightarrow> n \<le> 0
      | None \<Rightarrow> pred_option (\<lambda>t. t \<le> now) (lifetime get_time now c) \<and> lifetime get_time now c \<noteq> None)"

definition received_domain :: "string \<Rightarrow> ServerSetCookie \<Rightarrow> (string \<times> bool) option" where
  "received_domain h c =
     (case sc_domain c of
        None \<Rightarrow> Some (h, True)
      | Some d \<Rightarrow>
          if NormalizeDomain d \<noteq> [] \<and> DomainMatches h (NormalizeDomain d) then Some (NormalizeDomain d, False) else None)"

definition received ::
  "(string \<Rightarrow> broken_time option) \<Rightarrow> int \<Rightarrow> string \<Rightarrow> string \<Rightarrow> ServerSetCookie \<Rightarrow> Cookie option" where
  "received get_time now host target c =
     (case received_domain (NormalizeHost host) c of
        None \<Rightarrow> None
      | Some (d, host_only) \<Rightarrow>
          Some \<lparr>c_name = the (sc_name c),
                c_value = (if deletes get_time now c then [] else the (sc_value c)),
                c_domain = d, c_host_only = host_only,
                c_path = (case sc_path c of
                    Some p \<Rightarrow> if hd p = CHR ''/'' then p else DefaultPathFromTarget target
                  | None \<Rightarrow> DefaultPathFromTarget target),
                c_secure = (sc_same_site c = Some kNone \<or> sc_secure c = Some True),
                c_expiry = lifetime get_time now c\<rparr>)"

lemma attribute_names [simp]:
  "clean_text ''Expires''" "clean_text ''Path''" "clean_text ''Domain''" "clean_text ''Max-Age''"
  "clean_text ''SameSite''" "clean_text ''Secure''" "clean_text ''HttpOnly''"
  by code_simp+

lemma clean_attributes:
  assumes "printable c" "q \<in> set (cookie_attributes c)"
  shows "clean_text q"
proof -
  have ss: "clean_text (same_site_text s)" for s
    by (cases s) (simp_all add: same_site_text_def clean_text_def is_space_def)
  have e: "clean_text (''Expires='' @ v)" "clean_text (''Path='' @ v)" "clean_text (''Domain='' @ v)"
    "clean_text (''Max-Age='' @ v)" "clean_text (''SameSite='' @ v)" if "clean_text v" for v
    using clean_attribute [OF _ that] attribute_names by fastforce+
  have o: "\<exists>s. t = k @ s \<and> clean_text s" if "t \<in> set (opt_text k v)" "pred_option clean_text v" for t k v
    using that by (auto simp: opt_text_def split: option.splits if_splits)
  consider "q \<in> set (opt_text ''Expires='' (sc_expiry c))" | "q \<in> set (opt_text ''Path='' (sc_path c))"
    | "q \<in> set (opt_text ''Domain='' (sc_domain c))" | n where "q = ''Max-Age='' @ std_to_string n"
    | s where "q = ''SameSite='' @ same_site_text s" | "q = ''Secure''" | "q = ''HttpOnly''"
    using assms(2) by (auto simp: cookie_attributes_def split: option.splits if_splits)
  moreover have "pred_option clean_text (sc_expiry c)" "pred_option clean_text (sc_path c)"
    "pred_option clean_text (sc_domain c)"
    using assms(1) by (simp_all add: printable_def)
  ultimately show ?thesis
    by cases (blast intro: e(1) dest: o, blast intro: e(2) dest: o, blast intro: e(3) dest: o,
      simp_all only: e(4) [OF clean_to_string] e(5) [OF ss] attribute_names)
qed

lemma IEquals_names [simp]:
  "IEquals ''Expires'' ''Secure'' = False" "IEquals ''Expires'' ''HttpOnly'' = False"
  "IEquals ''Expires'' ''SameSite'' = False" "IEquals ''Expires'' ''Domain'' = False"
  "IEquals ''Expires'' ''Path'' = False" "IEquals ''Expires'' ''Max-Age'' = False"
  "IEquals ''Expires'' ''Expires'' = True"
  "IEquals ''Path'' ''Secure'' = False" "IEquals ''Path'' ''HttpOnly'' = False"
  "IEquals ''Path'' ''SameSite'' = False" "IEquals ''Path'' ''Domain'' = False" "IEquals ''Path'' ''Path'' = True"
  "IEquals ''Domain'' ''Secure'' = False" "IEquals ''Domain'' ''HttpOnly'' = False"
  "IEquals ''Domain'' ''SameSite'' = False" "IEquals ''Domain'' ''Domain'' = True"
  "IEquals ''Max-Age'' ''Secure'' = False" "IEquals ''Max-Age'' ''HttpOnly'' = False"
  "IEquals ''Max-Age'' ''SameSite'' = False" "IEquals ''Max-Age'' ''Domain'' = False"
  "IEquals ''Max-Age'' ''Path'' = False" "IEquals ''Max-Age'' ''Max-Age'' = True"
  "IEquals ''SameSite'' ''Secure'' = False" "IEquals ''SameSite'' ''HttpOnly'' = False"
  "IEquals ''SameSite'' ''SameSite'' = True"
  "IEquals ''Secure'' ''Secure'' = True"
  "IEquals ''HttpOnly'' ''Secure'' = False" "IEquals ''HttpOnly'' ''HttpOnly'' = True"
  by code_simp+

lemma opt_text_clean: "pred_option clean_text v \<Longrightarrow> opt_text k v = (case v of None \<Rightarrow> [] | Some s \<Rightarrow> [k @ s])"
  by (auto simp: opt_text_def clean_text_def split: option.splits)

lemma apply_expires:
  "pred_option clean_text e \<Longrightarrow>
    apply_attributes g h (opt_text ''Expires='' e) (c, x)
      = Some (c, case e of None \<Rightarrow> x | Some s \<Rightarrow> x\<lparr>expires_tp := ParseImfFixdate g s\<rparr>)"
  using apply_attribute_pair [of "''Expires''" "the e" g h "(c, x)"]
  by (auto simp: opt_text_clean ApplySetCookieAttribute_def simp del: apply_attributes.simps(2) split: option.splits)

lemma apply_path:
  "pred_option clean_text p \<Longrightarrow>
    apply_attributes g h (opt_text ''Path='' p) (c, x)
      = Some (case p of None \<Rightarrow> c | Some s \<Rightarrow> if hd s = CHR ''/'' then c\<lparr>c_path := s\<rparr> else c, x)"
  using apply_attribute_pair [of "''Path''" "the p" g h "(c, x)"]
  by (auto simp: opt_text_clean ApplySetCookieAttribute_def clean_text_ne
      simp del: apply_attributes.simps(2) split: option.splits)

lemma apply_domain:
  "pred_option clean_text d \<Longrightarrow>
    apply_attributes g h (opt_text ''Domain='' d) (c, x)
      = (case d of
           None \<Rightarrow> Some (c, x)
         | Some s \<Rightarrow>
             if NormalizeDomain s \<noteq> [] \<and> DomainMatches h (NormalizeDomain s)
             then Some (c\<lparr>c_domain := NormalizeDomain s, c_host_only := False\<rparr>, x) else None)"
  using apply_attribute_pair [of "''Domain''" "the d" g h "(c, x)"]
  by (auto simp: opt_text_clean ApplySetCookieAttribute_def Let_def
      simp del: apply_attributes.simps(2) split: option.splits)

lemma apply_max_age:
  "pred_option (\<lambda>n. - (2 ^ 63) \<le> n \<and> n < 2 ^ 63) m \<Longrightarrow>
    apply_attributes g h (case m of None \<Rightarrow> [] | Some n \<Rightarrow> [''Max-Age='' @ std_to_string n]) (c, x)
      = Some (c, case m of None \<Rightarrow> x
                 | Some n \<Rightarrow> x\<lparr>has_max_age := True, max_age_secs := n, max_age_valid := True\<rparr>)"
  using apply_attribute_pair [of "''Max-Age''" "std_to_string (the m)" g h "(c, x)"] stoll_std_to_string [of "the m"]
  by (auto simp: ApplySetCookieAttribute_def clean_to_string
      simp del: apply_attributes.simps(2) split: option.splits)

lemma apply_flags:
  "apply_attributes g h (case s of None \<Rightarrow> [] | Some s \<Rightarrow> [''SameSite='' @ same_site_text s]) ce = Some ce"
  "apply_attributes g h (if b then [''HttpOnly''] else []) ce = Some ce"
  "apply_attributes g h (if b then [''Secure''] else []) (c, x) = Some (if b then c\<lparr>c_secure := True\<rparr> else c, x)"
proof -
  have "clean_text (same_site_text s)" for s
    by (cases s) (simp_all add: same_site_text_def clean_text_def is_space_def)
  then show "apply_attributes g h (case s of None \<Rightarrow> [] | Some s \<Rightarrow> [''SameSite='' @ same_site_text s]) ce = Some ce"
    using apply_attribute_pair [of "''SameSite''" "same_site_text (the s)" g h ce]
    by (auto simp: ApplySetCookieAttribute_def simp del: apply_attributes.simps(2) split: option.splits prod.splits)
qed (auto simp: SplitOnce_def find_char_None_iff ApplySetCookieAttribute_def clean_TrimView split: prod.splits)

lemma ParseSetCookieValue_parts:
  assumes "clean_text n" "CHR ''='' \<notin> set n" "clean_text v" "\<forall>q\<in>set ps. clean_text q"
  shows "ParseSetCookieValue g now host target (print_parts (n @ ''='' @ v) ps) =
    (case apply_attributes g (NormalizeHost host) ps
        (\<lparr>c_name = n, c_value = v, c_domain = NormalizeHost host, c_host_only = True,
          c_path = DefaultPathFromTarget target, c_secure = False, c_expiry = None\<rparr>, no_expiry_info) of
       None \<Rightarrow> None
     | Some (cookie, expiry) \<Rightarrow> Some (snd (ComputeAndApplyExpiry now expiry cookie)))"
proof -
  have c: "clean_text (n @ ''='' @ v)" using assms by (intro clean_attribute)
  have "print_parts (n @ ''='' @ v) ps \<noteq> []" by (simp add: print_parts_def)
  then show ?thesis
    using tokens_of_parts [OF c assms(4)] SplitOnce_eq [OF assms(2), of v] assms(1) clean_TrimView(1) [OF assms(1)]
      clean_TrimView(1) [OF assms(3)]
    by (simp add: ParseSetCookieValue_def Let_def clean_text_def)
qed

lemma apply_cookie_attributes:
  assumes "printable c" "c_domain k = h" "c_host_only k" "\<not> c_secure k" "x = no_expiry_info"
  shows "apply_attributes g h (cookie_attributes c) (k, x) =
    (case received_domain h c of
       None \<Rightarrow> None
     | Some (d, host_only) \<Rightarrow>
         Some (k\<lparr>c_domain := d, c_host_only := host_only,
                 c_path := (case sc_path c of Some p \<Rightarrow> if hd p = CHR ''/'' then p else c_path k | None \<Rightarrow> c_path k),
                 c_secure := (sc_same_site c = Some kNone \<or> sc_secure c = Some True)\<rparr>,
               \<lparr>has_max_age = sc_max_age c \<noteq> None,
                max_age_valid = sc_max_age c \<noteq> None,
                max_age_secs = (case sc_max_age c of Some n \<Rightarrow> n | None \<Rightarrow> max_age_secs x),
                expires_tp = Option.bind (sc_expiry c) (ParseImfFixdate g)\<rparr>))"
proof -
  have opts: "pred_option clean_text (sc_expiry c)" "pred_option clean_text (sc_path c)"
    "pred_option clean_text (sc_domain c)" "pred_option (\<lambda>n. - (2 ^ 63) \<le> n \<and> n < 2 ^ 63) (sc_max_age c)"
    using assms(1) by (simp_all add: printable_def)
  let ?k = "case sc_path c of None \<Rightarrow> k | Some s \<Rightarrow> if hd s = CHR ''/'' then k\<lparr>c_path := s\<rparr> else k"
  let ?x = "case sc_expiry c of None \<Rightarrow> x | Some s \<Rightarrow> x\<lparr>expires_tp := ParseImfFixdate g s\<rparr>"
  let ?m = "case sc_max_age c of None \<Rightarrow> ?x
            | Some n \<Rightarrow> ?x\<lparr>has_max_age := True, max_age_secs := n, max_age_valid := True\<rparr>"
  let ?s = "sc_same_site c = Some kNone \<or> sc_secure c = Some True"
  have "apply_attributes g h (cookie_attributes c) (k, x) =
      Option.bind (apply_attributes g h (opt_text ''Domain='' (sc_domain c)) (?k, ?x))
        (\<lambda>(k, x'). Some (if ?s then k\<lparr>c_secure := True\<rparr> else k, case sc_max_age c of None \<Rightarrow> x'
            | Some n \<Rightarrow> x'\<lparr>has_max_age := True, max_age_secs := n, max_age_valid := True\<rparr>))"
    unfolding cookie_attributes_def apply_attributes_append apply_expires [OF opts(1)] bind.bind_lunit
      apply_path [OF opts(2)]
    by (intro bind_option_cong refl) (auto simp only: apply_max_age [OF opts(4)] apply_flags bind.bind_lunit split: prod.split)
  also have "apply_attributes g h (opt_text ''Domain='' (sc_domain c)) (?k, ?x) =
      map_option (\<lambda>(d, host_only). (?k\<lparr>c_domain := d, c_host_only := host_only\<rparr>, ?x)) (received_domain h c)"
    unfolding apply_domain [OF opts(3)] using assms(2,3)
    by (cases "sc_domain c"; cases k) (auto simp: received_domain_def split: option.splits)
  finally show ?thesis
    using assms(4,5)
    by (cases "received_domain h c"; cases "sc_path c"; cases "sc_expiry c"; cases "sc_max_age c"; cases k)
      (auto simp: no_expiry_info_def)
qed

lemma parse_printed:
  assumes "printable c"
  shows "ParseSetCookieValue get_time now host target (ToString c) = received get_time now host target c"
proof -
  obtain n v where nv: "sc_name c = Some n" "sc_value c = Some v" "clean_text n" "CHR ''='' \<notin> set n" "clean_text v"
    using assms by (auto simp: printable_def split: option.splits)
  have cl: "\<forall>q\<in>set (cookie_attributes c). clean_text q" using clean_attributes [OF assms] by blast
  have t: "ToString c = print_parts (n @ ''='' @ v) (cookie_attributes c)"
    using nv cl by (intro ToString_parts) (auto simp: clean_text_ne intro: clean_solid)
  let ?k = "\<lparr>c_name = n, c_value = v, c_domain = NormalizeHost host, c_host_only = True,
             c_path = DefaultPathFromTarget target, c_secure = False, c_expiry = None\<rparr>"
  note a = apply_cookie_attributes [OF assms, of ?k "NormalizeHost host" no_expiry_info get_time]
  show ?thesis
    unfolding t ParseSetCookieValue_parts [OF nv(3,4,5) cl]
    using a nv(1,2)
    by (cases "sc_max_age c"; cases "Option.bind (sc_expiry c) (ParseImfFixdate get_time)")
      (auto simp: received_def lifetime_def deletes_def ComputeAndApplyExpiry_def split: option.split)
qed



end
