(* ===== verification/Message_Queue.thy ===== *)
theory Message_Queue
  imports Prelude
begin

text \<open>
  The streaming write queue of a server connection
  (\<^verbatim>\<open>connection/server/detail/stream_server_connection_message_queue.h\<close>): user code in manual mode
  adds headers and body chunks, the queue writes them one asynchronous operation at a time, merging
  consecutive body chunks, and \<^verbatim>\<open>Wait\<close> blocks until everything is written or the connection is dead.

  The handlers run on the connection's executor, one after the other. Each is a function of the
  queue and of what it sees of the connection, and returns the queue with the calls it makes. The
  socket is modelled by a step relation that completes the outstanding operation.
\<close>

section \<open>Messages, queue and calls\<close>

text \<open>A header is opaque here; \<open>ser\<close> below is the serializer of the HTTP library.\<close>

datatype 'r message = BodyMessage (msg: string) (msg_expiry: size_t) | HeaderMessage (resp: 'r) (msg_expiry: size_t)

record 'r message_queue =
  mq_queue :: "'r message list"
  mq_is_writing :: bool
  mq_queue_size :: nat
  mq_connection_dead :: bool

definition new_message_queue :: "'r message_queue" where
  "new_message_queue = \<lparr>mq_queue = [], mq_is_writing = False, mq_queue_size = 0, mq_connection_dead = False\<rparr>"

text \<open>
  What a handler sees of the connection: whether the weak pointer still locks, whether the server
  runs and whether the stream is available.
\<close>

record conn_view =
  cv_locks :: bool
  cv_running :: bool
  cv_available :: bool

definition usable :: "conn_view \<Rightarrow> bool" where
  "usable v \<longleftrightarrow> cv_locks v \<and> cv_running v \<and> cv_available v"

datatype 'r mq_call =
    ArmTimeoutCall size_t | CancelTimeoutCall | DoCloseCall | NotifyAll
  | AsyncWrite string nat | AsyncWriteHeader 'r

section \<open>Handlers\<close>

definition HandleConnectionUnavailable :: "'r message_queue \<Rightarrow> 'r message_queue \<times> 'r mq_call list" where
  "HandleConnectionUnavailable q = (q\<lparr>mq_connection_dead := True, mq_is_writing := False\<rparr>, [NotifyAll])"

definition MarkConnectionDeadAndNotify :: "'r message_queue \<Rightarrow> 'r message_queue \<times> 'r mq_call list" where
  "MarkConnectionDeadAndNotify q = (q\<lparr>mq_connection_dead := True\<rparr>, [NotifyAll])"

definition HandleWriteError :: "conn_view \<Rightarrow> 'r message_queue \<Rightarrow> 'r message_queue \<times> 'r mq_call list" where
  "HandleWriteError v q =
     (q\<lparr>mq_connection_dead := True, mq_is_writing := False\<rparr>,
      (if cv_locks v then [DoCloseCall] else []) @ [NotifyAll])"

text \<open>The first loop of \<^verbatim>\<open>StartWriteBody\<close>: length of the run of bodies, and its longest expiry.\<close>

fun batch_loop :: "'r message list \<Rightarrow> nat \<Rightarrow> size_t \<Rightarrow> nat \<times> size_t" where
  "batch_loop [] n e = (n, e)"
| "batch_loop (m # ms) n e =
     (case m of
        HeaderMessage _ _ \<Rightarrow> (n, e)
      | BodyMessage _ e' \<Rightarrow> batch_loop ms (n + 1) (if e' > e then e' else e))"

text \<open>The second loop: append the bodies of the batch.\<close>

fun merge_loop :: "'r message list \<Rightarrow> nat \<Rightarrow> string \<Rightarrow> string" where
  "merge_loop [] n merged = merged"
| "merge_loop (m # ms) n merged = (if n = 0 then merged else merge_loop ms (n - 1) (merged @ msg m))"

definition StartWriteBody :: "conn_view \<Rightarrow> size_t \<Rightarrow> 'r message_queue \<Rightarrow> 'r message_queue \<times> 'r mq_call list" where
  "StartWriteBody v expiry q =
     (if \<not> usable v then HandleConnectionUnavailable q
      else case batch_loop (mq_queue q) 0 expiry of
        (batch_count, write_expiry) \<Rightarrow>
          if batch_count = 0 then HandleConnectionUnavailable q
          else (q, [ArmTimeoutCall write_expiry, AsyncWrite (merge_loop (mq_queue q) batch_count []) batch_count]))"

definition StartWriteHeader :: "conn_view \<Rightarrow> 'r \<Rightarrow> size_t \<Rightarrow> 'r message_queue \<Rightarrow> 'r message_queue \<times> 'r mq_call list" where
  "StartWriteHeader v r expiry q =
     (if \<not> usable v then HandleConnectionUnavailable q
      else (q, [ArmTimeoutCall expiry, AsyncWriteHeader r]))"

definition StartWriteIfNeeded :: "conn_view \<Rightarrow> 'r message_queue \<Rightarrow> 'r message_queue \<times> 'r mq_call list" where
  "StartWriteIfNeeded v q =
     (if mq_queue q = [] \<or> mq_is_writing q then (q, [])
      else
        (let q = q\<lparr>mq_is_writing := True\<rparr>
         in case hd (mq_queue q) of
              BodyMessage _ expiry \<Rightarrow> StartWriteBody v expiry q
            | HeaderMessage r expiry \<Rightarrow> StartWriteHeader v r expiry q))"

definition EnqueueOnStrand :: "conn_view \<Rightarrow> 'r message \<Rightarrow> 'r message_queue \<Rightarrow> 'r message_queue \<times> 'r mq_call list" where
  "EnqueueOnStrand v m q =
     StartWriteIfNeeded v (q\<lparr>mq_queue := mq_queue q @ [m], mq_queue_size := mq_queue_size q + 1\<rparr>)"

text \<open>\<^verbatim>\<open>AddBody\<close> and \<^verbatim>\<open>AddHeader\<close>, whose dispatched job holds the connection.\<close>

definition AddMessage :: "conn_view \<Rightarrow> 'r message \<Rightarrow> 'r message_queue \<Rightarrow> 'r message_queue \<times> 'r mq_call list" where
  "AddMessage v m q = (if cv_locks v then EnqueueOnStrand v m q else MarkConnectionDeadAndNotify q)"

definition PopFrontAndNotifyIfEmpty :: "'r message_queue \<Rightarrow> 'r message_queue \<times> 'r mq_call list" where
  "PopFrontAndNotifyIfEmpty q =
     (q\<lparr>mq_queue := tl (mq_queue q), mq_queue_size := mq_queue_size q - 1\<rparr>,
      if mq_queue_size q = 1 then [NotifyAll] else [])"

definition PopFrontNAndNotifyIfEmpty :: "nat \<Rightarrow> 'r message_queue \<Rightarrow> 'r message_queue \<times> 'r mq_call list" where
  "PopFrontNAndNotifyIfEmpty count q =
     (if count = 0 then (q, [])
      else
        (let actual = min count (length (mq_queue q))
         in (q\<lparr>mq_queue := drop actual (mq_queue q), mq_queue_size := mq_queue_size q - actual\<rparr>,
             if mq_queue_size q = actual then [NotifyAll] else [])))"

definition after_pop :: "conn_view \<Rightarrow> 'r message_queue \<times> 'r mq_call list \<Rightarrow> 'r message_queue \<times> 'r mq_call list" where
  "after_pop v p =
     (case p of
        (q, calls) \<Rightarrow>
          (let q = q\<lparr>mq_is_writing := False\<rparr>
           in if mq_queue q \<noteq> []
              then (case StartWriteIfNeeded v q of (q, calls') \<Rightarrow> (q, calls @ calls'))
              else (q, calls)))"

definition HandleBodyWriteComplete ::
  "conn_view \<Rightarrow> bool \<Rightarrow> nat \<Rightarrow> 'r message_queue \<Rightarrow> 'r message_queue \<times> 'r mq_call list" where
  "HandleBodyWriteComplete v ec batch_count q =
     (let cancel = (if cv_locks v then [CancelTimeoutCall] else []);
          (q, calls) = (if ec then HandleWriteError v q else after_pop v (PopFrontNAndNotifyIfEmpty batch_count q))
      in (q, cancel @ calls))"

definition HandleHeaderWriteComplete ::
  "conn_view \<Rightarrow> bool \<Rightarrow> 'r message_queue \<Rightarrow> 'r message_queue \<times> 'r mq_call list" where
  "HandleHeaderWriteComplete v ec q =
     (let cancel = (if cv_locks v then [CancelTimeoutCall] else []);
          (q, calls) = (if ec then HandleWriteError v q else after_pop v (PopFrontAndNotifyIfEmpty q))
      in (q, cancel @ calls))"

text \<open>The predicate \<^verbatim>\<open>Wait\<close> blocks on.\<close>

definition Wait_done :: "'r message_queue \<Rightarrow> bool" where
  "Wait_done q \<longleftrightarrow> mq_connection_dead q \<or> mq_queue_size q = 0"

section \<open>The queue on its socket\<close>

text \<open>
  A state of the whole: the queue, the operation the socket has outstanding, the bytes on the wire,
  the connection, and two histories: the messages accepted so far and whether a write has failed.
\<close>

datatype 'r pending = PendingBody string nat | PendingHeader 'r

record 'r mq_world =
  w_queue :: "'r message_queue"
  w_pending :: "'r pending list"
  w_wire :: string
  w_view :: conn_view
  w_accepted :: "'r message list"
  w_failed :: bool

definition pending_of :: "'r mq_call list \<Rightarrow> 'r pending list" where
  "pending_of calls =
     concat (map (\<lambda>c. case c of AsyncWrite s n \<Rightarrow> [PendingBody s n] | AsyncWriteHeader r \<Rightarrow> [PendingHeader r] | _ \<Rightarrow> []) calls)"

fun message_bytes :: "('r \<Rightarrow> string) \<Rightarrow> 'r message \<Rightarrow> string" where
  "message_bytes ser (BodyMessage s _) = s"
| "message_bytes ser (HeaderMessage r _) = ser r"

fun pending_bytes :: "('r \<Rightarrow> string) \<Rightarrow> 'r pending \<Rightarrow> string" where
  "pending_bytes ser (PendingBody s _) = s"
| "pending_bytes ser (PendingHeader r) = ser r"

definition complete :: "conn_view \<Rightarrow> bool \<Rightarrow> 'r pending \<Rightarrow> 'r message_queue \<Rightarrow> 'r message_queue \<times> 'r mq_call list" where
  "complete v ec p q =
     (case p of PendingBody _ n \<Rightarrow> HandleBodyWriteComplete v ec n q | PendingHeader _ \<Rightarrow> HandleHeaderWriteComplete v ec q)"

text \<open>
  The effect of a handler's calls on the connection and the socket; \<^verbatim>\<open>DoClose\<close> makes the stream
  unavailable for good.
\<close>

definition perform :: "'r mq_call list \<Rightarrow> 'r mq_world \<Rightarrow> 'r mq_world" where
  "perform calls w =
     w\<lparr>w_pending := w_pending w @ pending_of calls,
       w_view := (if DoCloseCall \<in> set calls then (w_view w)\<lparr>cv_available := False\<rparr> else w_view w)\<rparr>"

inductive mq_step :: "('r \<Rightarrow> string) \<Rightarrow> 'r mq_world \<Rightarrow> 'r mq_call list \<Rightarrow> 'r mq_world \<Rightarrow> bool" for ser where
  add: "AddMessage (w_view w) m (w_queue w) = (q, calls) \<Longrightarrow>
    mq_step ser w calls
      (perform calls (w\<lparr>w_queue := q, w_accepted := (if cv_locks (w_view w) then w_accepted w @ [m] else w_accepted w)\<rparr>))"
| written: "w_pending w = p # ps \<Longrightarrow> complete (w_view w) False p (w_queue w) = (q, calls) \<Longrightarrow>
    mq_step ser w calls
      (perform calls (w\<lparr>w_queue := q, w_pending := ps, w_wire := w_wire w @ pending_bytes ser p\<rparr>))"
| failed: "w_pending w = p # ps \<Longrightarrow> prefix part (pending_bytes ser p) \<Longrightarrow>
    complete (w_view w) True p (w_queue w) = (q, calls) \<Longrightarrow>
    mq_step ser w calls
      (perform calls (w\<lparr>w_queue := q, w_pending := ps, w_wire := w_wire w @ part, w_failed := True\<rparr>))"
| closed: "mq_step ser w [] (w\<lparr>w_view := (w_view w)\<lparr>cv_available := False\<rparr>\<rparr>)"
| server: "mq_step ser w [] (w\<lparr>w_view := (w_view w)\<lparr>cv_running := b\<rparr>\<rparr>)"
| released: "w_pending w = [] \<Longrightarrow> mq_step ser w [] (w\<lparr>w_view := (w_view w)\<lparr>cv_locks := False\<rparr>\<rparr>)"

inductive mq_reach :: "('r \<Rightarrow> string) \<Rightarrow> 'r mq_world \<Rightarrow> bool" for ser where
  start: "mq_reach ser \<lparr>w_queue = new_message_queue, w_pending = [], w_wire = [],
      w_view = \<lparr>cv_locks = True, cv_running = True, cv_available = True\<rparr>, w_accepted = [], w_failed = False\<rparr>"
| step: "mq_reach ser w \<Longrightarrow> mq_step ser w calls w' \<Longrightarrow> mq_reach ser w'"
section \<open>Invariant\<close>

definition bytes_of :: "('r \<Rightarrow> string) \<Rightarrow> 'r message list \<Rightarrow> string" where
  "bytes_of ser ms = concat (map (message_bytes ser) ms)"

fun pending_count :: "'r pending \<Rightarrow> nat" where
  "pending_count (PendingBody _ n) = n"
| "pending_count (PendingHeader _) = 1"

definition pending_ok :: "('r \<Rightarrow> string) \<Rightarrow> 'r message list \<Rightarrow> 'r pending \<Rightarrow> bool" where
  "pending_ok ser ms p \<longleftrightarrow>
     0 < pending_count p \<and> pending_count p \<le> length ms \<and>
     pending_bytes ser p = bytes_of ser (take (pending_count p) ms)"

definition mq_inv :: "('r \<Rightarrow> string) \<Rightarrow> 'r mq_world \<Rightarrow> bool" where
  "mq_inv ser w \<longleftrightarrow>
     mq_queue_size (w_queue w) = length (mq_queue (w_queue w)) \<and>
     (if mq_is_writing (w_queue w)
      then \<exists>p. w_pending w = [p] \<and> pending_ok ser (mq_queue (w_queue w)) p \<and> cv_locks (w_view w) \<and> \<not> w_failed w
      else w_pending w = []) \<and>
     (w_failed w \<longrightarrow> \<not> cv_available (w_view w) \<and> mq_connection_dead (w_queue w)) \<and>
     (\<not> w_failed w \<longrightarrow> w_wire w @ bytes_of ser (mq_queue (w_queue w)) = bytes_of ser (w_accepted w)) \<and>
     prefix (w_wire w) (bytes_of ser (w_accepted w)) \<and>
     (mq_queue (w_queue w) \<noteq> [] \<and> \<not> mq_connection_dead (w_queue w) \<longrightarrow> mq_is_writing (w_queue w))"

lemma bytes_of_simps [simp]:
  "bytes_of ser [] = []" "bytes_of ser (m # ms) = message_bytes ser m @ bytes_of ser ms"
  "bytes_of ser (ms @ ns) = bytes_of ser ms @ bytes_of ser ns"
  by (simp_all add: bytes_of_def)

lemma bytes_of_take_drop: "bytes_of ser (take n ms) @ bytes_of ser (drop n ms) = bytes_of ser ms"
  by (metis append_take_drop_id bytes_of_simps(3))

lemma pending_of_simps [simp]:
  "pending_of [] = []" "pending_of (a @ b) = pending_of a @ pending_of b"
  "pending_of (NotifyAll # cs) = pending_of cs" "pending_of (DoCloseCall # cs) = pending_of cs"
  "pending_of (CancelTimeoutCall # cs) = pending_of cs" "pending_of (ArmTimeoutCall e # cs) = pending_of cs"
  "pending_of (AsyncWrite s n # cs) = PendingBody s n # pending_of cs"
  "pending_of (AsyncWriteHeader r # cs) = PendingHeader r # pending_of cs"
  by (simp_all add: pending_of_def)

lemma batch_loop_bounds: "n \<le> fst (batch_loop ms n e) \<and> fst (batch_loop ms n e) \<le> n + length ms"
proof (induction ms arbitrary: n e)
  case (Cons m ms)
  show ?case
  proof (cases m)
    case (BodyMessage s e')
    then show ?thesis using Cons.IH [of "n + 1" "if e' > e then e' else e"] by simp
  qed simp
qed simp

lemma batch_loop_bytes:
  "merge_loop ms (fst (batch_loop ms n e) - n) acc = acc @ bytes_of ser (take (fst (batch_loop ms n e) - n) ms)"
proof (induction ms arbitrary: n e acc)
  case (Cons m ms)
  show ?case
  proof (cases m)
    case (BodyMessage s e')
    let ?k = "fst (batch_loop ms (n + 1) (if e' > e then e' else e))"
    have "n + 1 \<le> ?k" using batch_loop_bounds by blast
    then have "?k - n = Suc (?k - (n + 1))" by simp
    then show ?thesis using Cons.IH [of "n + 1" "if e' > e then e' else e" "acc @ s"] BodyMessage by simp
  qed simp
qed simp

lemma StartWriteIfNeeded_idle:
  "mq_queue q = [] \<or> mq_is_writing q \<Longrightarrow> StartWriteIfNeeded v q = (q, [])"
  by (simp add: StartWriteIfNeeded_def)

lemma StartWriteIfNeeded_unusable:
  "mq_queue q \<noteq> [] \<Longrightarrow> \<not> mq_is_writing q \<Longrightarrow> \<not> usable v \<Longrightarrow>
    StartWriteIfNeeded v q = (q\<lparr>mq_connection_dead := True\<rparr>, [NotifyAll])"
  by (cases q) (auto simp: StartWriteIfNeeded_def StartWriteBody_def StartWriteHeader_def Let_def
      HandleConnectionUnavailable_def split: message.splits)

lemma StartWriteIfNeeded_starts:
  assumes "mq_queue q \<noteq> []" "\<not> mq_is_writing q" "usable v"
  obtains p calls where "StartWriteIfNeeded v q = (q\<lparr>mq_is_writing := True\<rparr>, calls)"
    "pending_of calls = [p]" "pending_ok ser (mq_queue q) p" "DoCloseCall \<notin> set calls" "NotifyAll \<notin> set calls"
proof -
  obtain m ms where q: "mq_queue q = m # ms" using assms(1) by (cases "mq_queue q") auto
  show thesis
  proof (cases m)
    case (BodyMessage s e)
    let ?n = "fst (batch_loop (mq_queue q) 0 e)"
    have "?n \<ge> 1" using BodyMessage q batch_loop_bounds [of 1 ms e] by simp
    moreover have "?n \<le> length (mq_queue q)" using batch_loop_bounds [of 0 "mq_queue q" e] by simp
    moreover have "merge_loop (mq_queue q) ?n [] = bytes_of ser (take ?n (mq_queue q))"
      using batch_loop_bytes [of "mq_queue q" 0 e "[]" ser] by simp
    ultimately have "pending_ok ser (mq_queue q) (PendingBody (merge_loop (mq_queue q) ?n []) ?n)"
      and "StartWriteIfNeeded v q = (q\<lparr>mq_is_writing := True\<rparr>,
        [ArmTimeoutCall (snd (batch_loop (mq_queue q) 0 e)), AsyncWrite (merge_loop (mq_queue q) ?n []) ?n])"
      using assms(2,3) q BodyMessage
      by (simp_all add: StartWriteIfNeeded_def StartWriteBody_def pending_ok_def Let_def case_prod_beta
          del: batch_loop.simps merge_loop.simps)
    then show thesis using that by simp
  next
    case (HeaderMessage r e)
    then show thesis
      using that [of "[ArmTimeoutCall e, AsyncWriteHeader r]"] assms q
      by (simp add: StartWriteIfNeeded_def StartWriteHeader_def pending_ok_def)
  qed
qed

text \<open>The invariant between two writes, before the next one is started.\<close>

definition mq_between :: "('r \<Rightarrow> string) \<Rightarrow> 'r mq_world \<Rightarrow> bool" where
  "mq_between ser w \<longleftrightarrow>
     mq_queue_size (w_queue w) = length (mq_queue (w_queue w)) \<and>
     \<not> mq_is_writing (w_queue w) \<and> w_pending w = [] \<and>
     (w_failed w \<longrightarrow> \<not> cv_available (w_view w) \<and> mq_connection_dead (w_queue w)) \<and>
     (\<not> w_failed w \<longrightarrow> w_wire w @ bytes_of ser (mq_queue (w_queue w)) = bytes_of ser (w_accepted w)) \<and>
     prefix (w_wire w) (bytes_of ser (w_accepted w))"

lemma inv_started:
  assumes "mq_between ser w" "StartWriteIfNeeded (w_view w) (w_queue w) = (q, calls)"
    "pending_of before = []" "DoCloseCall \<notin> set before"
  shows "mq_inv ser (perform (before @ calls) (w\<lparr>w_queue := q\<rparr>))"
proof -
  let ?q = "w_queue w"
  have idle: "\<not> mq_is_writing ?q" using assms(1) by (simp add: mq_between_def)
  consider "mq_queue ?q = []" | "mq_queue ?q \<noteq> []" "\<not> usable (w_view w)" | "mq_queue ?q \<noteq> []" "usable (w_view w)"
    by blast
  then show ?thesis
  proof cases
    case 1
    then show ?thesis using assms idle
      by (auto simp: StartWriteIfNeeded_idle mq_inv_def mq_between_def perform_def)
  next
    case 2
    then show ?thesis using assms idle StartWriteIfNeeded_unusable [OF 2(1) idle 2(2)]
      by (auto simp: mq_inv_def mq_between_def perform_def)
  next
    case 3
    obtain p calls' where p: "StartWriteIfNeeded (w_view w) ?q = (?q\<lparr>mq_is_writing := True\<rparr>, calls')"
      "pending_of calls' = [p]" "pending_ok ser (mq_queue ?q) p" "DoCloseCall \<notin> set calls'" "NotifyAll \<notin> set calls'"
      by (rule StartWriteIfNeeded_starts [OF 3(1) idle 3(2)])
    have "\<not> w_failed w" "cv_locks (w_view w)" using assms(1) 3(2) by (auto simp: mq_between_def usable_def)
    then show ?thesis using p assms by (simp add: mq_inv_def mq_between_def perform_def)
  qed
qed

lemma inv_add:
  assumes "mq_inv ser w" "AddMessage (w_view w) m (w_queue w) = (q, calls)"
  shows "mq_inv ser (perform calls (w\<lparr>w_queue := q,
    w_accepted := (if cv_locks (w_view w) then w_accepted w @ [m] else w_accepted w)\<rparr>))"
proof (cases "cv_locks (w_view w)")
  case False
  then show ?thesis using assms
    by (auto simp: AddMessage_def MarkConnectionDeadAndNotify_def mq_inv_def perform_def split: if_splits)
next
  case True
  let ?q = "(w_queue w)\<lparr>mq_queue := mq_queue (w_queue w) @ [m], mq_queue_size := mq_queue_size (w_queue w) + 1\<rparr>"
  let ?w = "w\<lparr>w_queue := ?q, w_accepted := w_accepted w @ [m]\<rparr>"
  have pre: "prefix (w_wire w) (bytes_of ser (w_accepted w) @ message_bytes ser m)"
    using assms(1) by (simp add: mq_inv_def)
  have fifo: "\<not> w_failed w \<Longrightarrow>
      w_wire w @ bytes_of ser (mq_queue (w_queue w)) @ message_bytes ser m = bytes_of ser (w_accepted w) @ message_bytes ser m"
    using assms(1) by (metis append_assoc mq_inv_def)
  have start: "StartWriteIfNeeded (w_view ?w) (w_queue ?w) = (q, calls)"
    using assms(2) True by (simp add: AddMessage_def EnqueueOnStrand_def)
  show ?thesis
  proof (cases "mq_is_writing (w_queue w)")
    case True': True
    then have "q = ?q" "calls = []" using start by (simp_all add: StartWriteIfNeeded_idle)
    then show ?thesis using assms(1) pre fifo True True'
      by (auto simp: mq_inv_def perform_def pending_ok_def)
  next
    case False
    then have "mq_between ser ?w" using assms(1) pre fifo by (auto simp: mq_between_def mq_inv_def)
    then have "mq_inv ser (perform calls (?w\<lparr>w_queue := q\<rparr>))"
      using inv_started [OF _ start, of ser "[]"] by simp
    moreover have "?w\<lparr>w_queue := q\<rparr> = w\<lparr>w_queue := q, w_accepted := w_accepted w @ [m]\<rparr>" by (cases w) simp
    ultimately show ?thesis using True by (simp only: if_True)
  qed
qed

lemma complete_ok_eq:
  assumes "mq_inv ser w" "w_pending w = p # ps" "complete (w_view w) False p (w_queue w) = (q, calls)"
  obtains q1 n1 c1 where
    "n1 = (if mq_queue_size (w_queue w) = pending_count p then [NotifyAll] else [])"
    "q1 = (w_queue w)\<lparr>mq_queue := drop (pending_count p) (mq_queue (w_queue w)),
                      mq_queue_size := mq_queue_size (w_queue w) - pending_count p, mq_is_writing := False\<rparr>"
    "StartWriteIfNeeded (w_view w) q1 = (q, c1)" "calls = (CancelTimeoutCall # n1) @ c1"
proof -
  have w: "cv_locks (w_view w)" "pending_ok ser (mq_queue (w_queue w)) p"
    using assms(1,2) by (auto simp: mq_inv_def split: if_splits)
  have start: "(if mq_queue r \<noteq> [] then StartWriteIfNeeded v r else (r, [])) = StartWriteIfNeeded v r" for v r
    by (simp add: StartWriteIfNeeded_idle)
  show thesis
    by (rule that [OF refl refl, of "snd (StartWriteIfNeeded (w_view w) ((w_queue w)\<lparr>mq_queue := drop (pending_count p) (mq_queue (w_queue w)),
                      mq_queue_size := mq_queue_size (w_queue w) - pending_count p, mq_is_writing := False\<rparr>))"])
      (use assms(3) w in \<open>cases p; auto simp: complete_def HandleBodyWriteComplete_def HandleHeaderWriteComplete_def
        PopFrontNAndNotifyIfEmpty_def PopFrontAndNotifyIfEmpty_def after_pop_def pending_ok_def Let_def min_def
        drop_Suc StartWriteIfNeeded_idle split: prod.splits if_splits\<close>)+
qed

lemma inv_written:
  assumes "mq_inv ser w" "w_pending w = p # ps" "complete (w_view w) False p (w_queue w) = (q, calls)"
  shows "mq_inv ser (perform calls (w\<lparr>w_queue := q, w_pending := ps, w_wire := w_wire w @ pending_bytes ser p\<rparr>))"
proof -
  obtain q1 n1 c1 where c: "n1 = (if mq_queue_size (w_queue w) = pending_count p then [NotifyAll] else [])"
    "q1 = (w_queue w)\<lparr>mq_queue := drop (pending_count p) (mq_queue (w_queue w)),
                      mq_queue_size := mq_queue_size (w_queue w) - pending_count p, mq_is_writing := False\<rparr>"
    "StartWriteIfNeeded (w_view w) q1 = (q, c1)" "calls = (CancelTimeoutCall # n1) @ c1"
    by (rule complete_ok_eq [OF assms])
  let ?w = "w\<lparr>w_queue := q1, w_pending := ps, w_wire := w_wire w @ pending_bytes ser p\<rparr>"
  have i: "ps = []" "pending_ok ser (mq_queue (w_queue w)) p" "\<not> w_failed w"
    "w_wire w @ bytes_of ser (mq_queue (w_queue w)) = bytes_of ser (w_accepted w)"
    using assms(1,2) by (auto simp: mq_inv_def split: if_splits)
  have "(w_wire w @ pending_bytes ser p) @ bytes_of ser (drop (pending_count p) (mq_queue (w_queue w))) = bytes_of ser (w_accepted w)"
    using i(2,4) bytes_of_take_drop [of ser "pending_count p" "mq_queue (w_queue w)"] by (simp add: pending_ok_def)
  moreover from this have "prefix (w_wire w @ pending_bytes ser p) (bytes_of ser (w_accepted w))"
    unfolding prefix_def by metis
  ultimately have "mq_between ser ?w"
    using assms(1) i by (auto simp: mq_between_def mq_inv_def c(2))
  then have "mq_inv ser (perform calls (?w\<lparr>w_queue := q\<rparr>))"
    unfolding c(4) using c(3) by (intro inv_started) (auto simp: c(1))
  moreover have "?w\<lparr>w_queue := q\<rparr> = w\<lparr>w_queue := q, w_pending := ps, w_wire := w_wire w @ pending_bytes ser p\<rparr>"
    by (cases w) simp
  ultimately show ?thesis by simp
qed

lemma complete_error_eq:
  assumes "mq_inv ser w" "w_pending w = p # ps"
  shows "complete (w_view w) True p (w_queue w)
    = ((w_queue w)\<lparr>mq_connection_dead := True, mq_is_writing := False\<rparr>, [CancelTimeoutCall, DoCloseCall, NotifyAll])"
  using assms
  by (auto simp: complete_def HandleBodyWriteComplete_def HandleHeaderWriteComplete_def HandleWriteError_def
      mq_inv_def split: pending.split if_splits)

lemma prefix_part:
  assumes "pending_ok ser ms p" "wire @ bytes_of ser ms = whole" "prefix part (pending_bytes ser p)"
  shows "prefix (wire @ part) whole"
proof -
  obtain r where "pending_bytes ser p = part @ r" using assms(3) by (auto simp: prefix_def)
  then have "whole = (wire @ part) @ r @ bytes_of ser (drop (pending_count p) ms)"
    using assms(1,2) bytes_of_take_drop [of ser "pending_count p" ms] by (metis append_assoc pending_ok_def)
  then show ?thesis unfolding prefix_def by blast
qed

lemma inv_step:
  assumes "mq_step ser w calls w'" "mq_inv ser w"
  shows "mq_inv ser w'"
  using assms(1)
proof cases
  case (add m q)
  then show ?thesis using inv_add [OF assms(2)] by simp
next
  case (written p ps q)
  then show ?thesis using inv_written [OF assms(2)] by simp
next
  case (failed p ps part q)
  have "pending_ok ser (mq_queue (w_queue w)) p" "w_wire w @ bytes_of ser (mq_queue (w_queue w)) = bytes_of ser (w_accepted w)" "ps = []"
    using assms(2) failed(2) by (auto simp: mq_inv_def split: if_splits)
  from prefix_part [OF this(1,2) failed(3)] this(3) show ?thesis
    using failed complete_error_eq [OF assms(2) failed(2)] assms(2) by (auto simp: mq_inv_def perform_def)
qed (use assms(2) in \<open>auto simp: mq_inv_def split: if_splits\<close>)

lemma mq_reach_inv: "mq_reach ser w \<Longrightarrow> mq_inv ser w"
proof (induction rule: mq_reach.induct)
  case start
  show ?case by (simp add: mq_inv_def new_message_queue_def)
next
  case (step w calls w')
  then show ?case using inv_step by blast
qed

section \<open>Properties\<close>


text \<open>A run of the queue that the examples below share: two chunks, merged behind a header.\<close>

definition demo_world :: "string mq_world" where
  "demo_world = \<lparr>w_queue = new_message_queue, w_pending = [], w_wire = [],
      w_view = \<lparr>cv_locks = True, cv_running = True, cv_available = True\<rparr>, w_accepted = [], w_failed = False\<rparr>"

definition demo_add :: "string message \<Rightarrow> string mq_world \<Rightarrow> string mq_world" where
  "demo_add m w = (case AddMessage (w_view w) m (w_queue w) of (q, calls) \<Rightarrow>
     perform calls (w\<lparr>w_queue := q, w_accepted := w_accepted w @ [m]\<rparr>))"

definition demo_written :: "string mq_world \<Rightarrow> string mq_world" where
  "demo_written w = (case complete (w_view w) False (hd (w_pending w)) (w_queue w) of (q, calls) \<Rightarrow>
     perform calls (w\<lparr>w_queue := q, w_pending := tl (w_pending w), w_wire := w_wire w @ pending_bytes id (hd (w_pending w))\<rparr>))"

lemma demo_reach:
  "mq_reach id demo_world"
  "mq_reach id w \<Longrightarrow> cv_locks (w_view w) \<Longrightarrow> mq_reach id (demo_add m w)"
  "mq_reach id w \<Longrightarrow> w_pending w \<noteq> [] \<Longrightarrow> mq_reach id (demo_written w)"
proof -
  show "mq_reach id demo_world" unfolding demo_world_def by (rule mq_reach.start)
  show "mq_reach id (demo_add m w)" if "mq_reach id w" "cv_locks (w_view w)"
    using mq_reach.step [OF that(1) mq_step.add [of w m]] that(2)
    by (cases "AddMessage (w_view w) m (w_queue w)") (auto simp: demo_add_def)
  show "mq_reach id (demo_written w)" if "mq_reach id w" "w_pending w \<noteq> []"
    using mq_reach.step [OF that(1) mq_step.written [of w "hd (w_pending w)" "tl (w_pending w)"]] that(2)
    by (cases "complete (w_view w) False (hd (w_pending w)) (w_queue w)") (auto simp: demo_written_def)
qed


text \<open>
  No wake-up is lost: every step of the queue that makes the predicate of a blocked \<^verbatim>\<open>Wait\<close> true
  notifies the condition variable.
\<close>

theorem blocked_wait_is_notified:
  assumes "mq_reach ser w" "mq_step ser w calls w'" "\<not> Wait_done (w_queue w)" "Wait_done (w_queue w')"
  shows "NotifyAll \<in> set calls"
  using assms(2)
proof cases
  case (add m q)
  have "mq_is_writing (w_queue w)"
    using mq_reach_inv [OF assms(1)] assms(3) by (auto simp: mq_inv_def Wait_done_def)
  then show ?thesis
    using add assms(3,4)
    by (auto simp: AddMessage_def EnqueueOnStrand_def StartWriteIfNeeded_idle MarkConnectionDeadAndNotify_def
        Wait_done_def perform_def split: if_splits)
next
  case (written p ps q)
  obtain q1 n1 c1 where c: "n1 = (if mq_queue_size (w_queue w) = pending_count p then [NotifyAll] else [])"
    "q1 = (w_queue w)\<lparr>mq_queue := drop (pending_count p) (mq_queue (w_queue w)),
                      mq_queue_size := mq_queue_size (w_queue w) - pending_count p, mq_is_writing := False\<rparr>"
    "StartWriteIfNeeded (w_view w) q1 = (q, c1)" "calls = (CancelTimeoutCall # n1) @ c1"
    by (rule complete_ok_eq [OF mq_reach_inv [OF assms(1)] written(2,3)])
  show ?thesis
  proof (rule ccontr)
    assume n: "NotifyAll \<notin> set calls"
    have i: "mq_queue_size (w_queue w) = length (mq_queue (w_queue w))" "pending_count p \<le> length (mq_queue (w_queue w))"
      using mq_reach_inv [OF assms(1)] written(2) by (auto simp: mq_inv_def pending_ok_def split: if_splits)
    then have ne: "mq_queue q1 \<noteq> []" "mq_queue_size q1 \<noteq> 0" using n c(1,2,4) by (auto split: if_splits)
    have idle: "\<not> mq_is_writing q1" by (simp add: c(2))
    have "usable (w_view w)" using StartWriteIfNeeded_unusable [OF ne(1) idle] c(3,4) n by fastforce
    then have "q = q1\<lparr>mq_is_writing := True\<rparr>"
      using StartWriteIfNeeded_starts [OF ne(1) idle, of "w_view w"] c(3) by (metis Pair_inject)
    then show False using assms(3,4) ne written c(2) by (auto simp: Wait_done_def perform_def)
  qed
next
  case (failed p ps part q)
  then show ?thesis using complete_error_eq [OF mq_reach_inv [OF assms(1)] failed(2)] by auto
qed (use assms(3,4) in simp_all)

theorem blocked_wait_is_notified_witness:
  "NotifyAll \<in> set (snd (complete \<lparr>cv_locks = True, cv_running = True, cv_available = True\<rparr> False (PendingBody ''a'' 1)
     (w_queue (demo_add (BodyMessage ''a'' 5) demo_world))))"
proof -
  let ?w = "demo_add (BodyMessage ''a'' 5) demo_world"
  obtain q calls where c: "complete (w_view ?w) False (PendingBody ''a'' 1) (w_queue ?w) = (q, calls)" by fastforce
  have p: "w_pending ?w = [PendingBody ''a'' 1]" by code_simp
  have r: "mq_reach id ?w" by (intro demo_reach) code_simp+
  have "\<not> Wait_done (w_queue ?w)" "Wait_done (fst (complete (w_view ?w) False (PendingBody ''a'' 1) (w_queue ?w)))"
    by code_simp+
  then have "NotifyAll \<in> set calls"
    using blocked_wait_is_notified [OF r mq_step.written [OF p c]] c by (simp add: perform_def)
  moreover have "w_view ?w = \<lparr>cv_locks = True, cv_running = True, cv_available = True\<rparr>" by code_simp
  ultimately show ?thesis using c by simp
qed

end
