(* ===== verification/Server_Connection.thy ===== *)
theory Server_Connection
  imports Route_Table
begin

text \<open>
  One connection of the server (\<^verbatim>\<open>connection/server/http_server_connection.cc\<close> and the HTTP part of
  \<^verbatim>\<open>stream_server_connection_impl.h\<close>): reading a header, routing, reading the body, handing the request
  to a task, writing the response, and going round again or closing.

  An asynchronous call adds an outstanding operation to the connection; its completion handler is a
  function of its own. The step relation at the end completes outstanding operations in any way the
  network allows and lets the timer fire and the server stop at any moment. The timer follows
  \<^verbatim>\<open>asio::steady_timer\<close>: arming it again or cancelling it aborts the wait it replaces.
\<close>

section \<open>Verbs\<close>

datatype HttpVerb = verb_get | verb_post | verb_put | verb_delete | verb_patch | verb_head | verb_other

definition BeastHttpVerbToHttpRequestMethod :: "HttpVerb \<Rightarrow> HttpRequestMethod" where
  "BeastHttpVerbToHttpRequestMethod verb =
     (case verb of verb_get \<Rightarrow> 0 | verb_post \<Rightarrow> 1 | verb_put \<Rightarrow> 2 | verb_delete \<Rightarrow> 3 | verb_patch \<Rightarrow> 4
      | verb_head \<Rightarrow> 5 | verb_other \<Rightarrow> 0)"

definition HttpRequestMethodToBeastHttpVerb :: "HttpRequestMethod \<Rightarrow> HttpVerb" where
  "HttpRequestMethodToBeastHttpVerb method =
     (if method = 0 then verb_get else if method = 1 then verb_post else if method = 2 then verb_put
      else if method = 3 then verb_delete else if method = 4 then verb_patch else if method = 5 then verb_head
      else verb_get)"

lemma verb_roundtrip:
  "method < 6 \<Longrightarrow> BeastHttpVerbToHttpRequestMethod (HttpRequestMethodToBeastHttpVerb method) = method"
  by (cases "method = 0"; cases "method = 1"; cases "method = 2"; cases "method = 3"; cases "method = 4")
    (auto simp: BeastHttpVerbToHttpRequestMethod_def HttpRequestMethodToBeastHttpVerb_def, unat_arith)

section \<open>State\<close>

text \<open>What the library's request parser holds; \<open>ps_body_limit = None\<close> is the limit it is built with.\<close>

record HttpRequestParser =
  ps_header_done :: bool
  ps_method :: HttpVerb
  ps_target :: string
  ps_content_length :: "size_t option"
  ps_body_limit :: "size_t option"

definition new_HttpRequestParser :: HttpRequestParser where
  "new_HttpRequestParser =
     \<lparr>ps_header_done = False, ps_method = verb_get, ps_target = [], ps_content_length = None, ps_body_limit = None\<rparr>"

text \<open>
  An outstanding operation: the job \<^verbatim>\<open>Run\<close> posts, the two reads, the task that handles the request,
  the write of a response (with its keep-alive flag) and an accepted upgrade.
\<close>

datatype 'm conn_op = OpRun | OpReadHeader | OpReadBody | OpTask | OpWriteResponse 'm bool | OpWebSocket

record ('h, 'a, 'm) server_connection =
  cn_closed :: bool
  cn_running :: bool
  cn_timer :: "size_t option"
  cn_header_read_expiry :: size_t
  cn_keep_alive_timeout :: size_t
  cn_route_result :: "('h, 'a) HttpRouteResultInternal"
  cn_parser :: HttpRequestParser
  cn_ops :: "'m conn_op list"

definition empty_route_result :: "('h, 'a) HttpRouteResultInternal" where
  "empty_route_result =
     \<lparr>r_current_location = [], r_route_template = [], r_parameters = [], r_aspects = [], r_handler = None,
      r_max_body_size = 0, r_read_expiry = 0, r_write_expiry = 0\<rparr>"

definition new_server_connection :: "size_t \<Rightarrow> size_t \<Rightarrow> ('h, 'a, 'm) server_connection" where
  "new_server_connection header_read_expiry keep_alive_timeout =
     \<lparr>cn_closed = False, cn_running = True, cn_timer = None, cn_header_read_expiry = header_read_expiry,
      cn_keep_alive_timeout = keep_alive_timeout, cn_route_result = empty_route_result,
      cn_parser = new_HttpRequestParser, cn_ops = []\<rparr>"

section \<open>Operations\<close>

definition IsStreamAvailable :: "('h, 'a, 'm) server_connection \<Rightarrow> bool" where
  "IsStreamAvailable c \<longleftrightarrow> \<not> cn_closed c"

definition IsServerRunning :: "('h, 'a, 'm) server_connection \<Rightarrow> bool" where
  "IsServerRunning c \<longleftrightarrow> cn_running c"

definition conn_usable :: "('h, 'a, 'm) server_connection \<Rightarrow> bool" where
  "conn_usable c \<longleftrightarrow> IsServerRunning c \<and> IsStreamAvailable c"

definition DoClose :: "('h, 'a, 'm) server_connection \<Rightarrow> ('h, 'a, 'm) server_connection" where
  "DoClose c = (if cn_closed c then c else c\<lparr>cn_closed := True\<rparr>)"

definition ArmTimeout :: "size_t \<Rightarrow> ('h, 'a, 'm) server_connection \<Rightarrow> ('h, 'a, 'm) server_connection" where
  "ArmTimeout timeout c = (if timeout = 0 then c else c\<lparr>cn_timer := Some timeout\<rparr>)"

definition CancelTimeout :: "('h, 'a, 'm) server_connection \<Rightarrow> ('h, 'a, 'm) server_connection" where
  "CancelTimeout c = c\<lparr>cn_timer := None\<rparr>"

definition add_op :: "'m conn_op \<Rightarrow> ('h, 'a, 'm) server_connection \<Rightarrow> ('h, 'a, 'm) server_connection" where
  "add_op oper c = c\<lparr>cn_ops := cn_ops c @ [oper]\<rparr>"

definition GetKeepAliveTimeout :: "('h, 'a, 'm) server_connection \<Rightarrow> size_t" where
  "GetKeepAliveTimeout c =
     (if cn_keep_alive_timeout c div 1000 \<noteq> 0 then cn_keep_alive_timeout c div 1000 else 1)"

definition DoReadHeader :: "('h, 'a, 'm) server_connection \<Rightarrow> ('h, 'a, 'm) server_connection" where
  "DoReadHeader c = (if \<not> conn_usable c then DoClose c else add_op OpReadHeader c)"

definition Run :: "('h, 'a, 'm) server_connection \<Rightarrow> ('h, 'a, 'm) server_connection" where
  "Run c = (if \<not> conn_usable c then DoClose c else add_op OpRun c)"

definition run_job :: "('h, 'a, 'm) server_connection \<Rightarrow> ('h, 'a, 'm) server_connection" where
  "run_job c = DoReadHeader (ArmTimeout (cn_header_read_expiry c) c)"

definition DoReadBody :: "('h, 'a, 'm) server_connection \<Rightarrow> ('h, 'a, 'm) server_connection" where
  "DoReadBody c = (if \<not> conn_usable c then DoClose c else add_op OpReadBody c)"

text \<open>
  \<^verbatim>\<open>DoRoute\<close>: an announced body that is too long closes the connection, without a return; the
  buffers the code reserves have no other effect.
\<close>

definition apply_body_limit :: "('h, 'a, 'm) server_connection \<Rightarrow> ('h, 'a, 'm) server_connection" where
  "apply_body_limit c =
     (let limit = r_max_body_size (cn_route_result c)
      in if limit \<noteq> 0 then
           (let c = (case ps_content_length (cn_parser c) of
                       Some n \<Rightarrow> if n > limit then DoClose c else c
                     | None \<Rightarrow> c)
            in c\<lparr>cn_parser := (cn_parser c)\<lparr>ps_body_limit := Some limit\<rparr>\<rparr>)
         else c)"

definition DoRoute ::
  "(string \<Rightarrow> string list option) \<Rightarrow> ('h, 'a) HttpRouteTable \<Rightarrow> ('h, 'a, 'm) server_connection
    \<Rightarrow> ('h, 'a, 'm) server_connection" where
  "DoRoute parse t c =
     (let c = CancelTimeout c
      in if \<not> ps_header_done (cn_parser c) then DoClose c
         else if \<not> conn_usable c then DoClose c
         else
           (let c = c\<lparr>cn_route_result :=
                       RouteInternal parse (BeastHttpVerbToHttpRequestMethod (ps_method (cn_parser c)))
                         (ps_target (cn_parser c)) t\<rparr>
            in if r_handler (cn_route_result c) = None then DoClose c
               else DoReadBody (apply_body_limit (ArmTimeout (r_read_expiry (cn_route_result c)) c))))"

definition DoForwardRequest :: "('h, 'a, 'm) server_connection \<Rightarrow> ('h, 'a, 'm) server_connection" where
  "DoForwardRequest c = (if \<not> conn_usable c then DoClose c else add_op OpTask (CancelTimeout c))"

text \<open>
  \<^verbatim>\<open>DoCycle\<close> first waits for the streaming queue to drain (\<^verbatim>\<open>ClearMessage\<close>, see the theory of the queue);
  the sum of the two timeouts wraps like the unsigned addition it is.
\<close>

definition DoCycle :: "('h, 'a, 'm) server_connection \<Rightarrow> ('h, 'a, 'm) server_connection" where
  "DoCycle c =
     (if conn_usable c
      then Run (ArmTimeout (cn_header_read_expiry c + cn_keep_alive_timeout c)
                 (c\<lparr>cn_route_result := empty_route_result, cn_parser := new_HttpRequestParser\<rparr>))
      else DoClose c)"

text \<open>
  \<open>finish\<close> stands for the calls into the HTTP library that set the keep-alive fields and the payload
  length of the response.
\<close>

definition DoWriteResponse ::
  "(bool \<Rightarrow> size_t \<Rightarrow> 'm \<Rightarrow> 'm) \<Rightarrow> 'm \<Rightarrow> bool \<Rightarrow> size_t \<Rightarrow> ('h, 'a, 'm) server_connection
    \<Rightarrow> ('h, 'a, 'm) server_connection" where
  "DoWriteResponse finish resp keep_alive expiry c =
     (if \<not> conn_usable c then DoClose c
      else
        add_op (OpWriteResponse (finish keep_alive (GetKeepAliveTimeout c) resp) keep_alive) (ArmTimeout expiry c))"

section \<open>Completion handlers\<close>

definition on_header_read ::
  "(string \<Rightarrow> string list option) \<Rightarrow> ('h, 'a) HttpRouteTable \<Rightarrow> HttpRequestParser option
    \<Rightarrow> ('h, 'a, 'm) server_connection \<Rightarrow> ('h, 'a, 'm) server_connection" where
  "on_header_read parse t read c =
     (case read of None \<Rightarrow> DoClose c | Some parser \<Rightarrow> DoRoute parse t (c\<lparr>cn_parser := parser\<rparr>))"

definition on_body_read :: "bool \<Rightarrow> ('h, 'a, 'm) server_connection \<Rightarrow> ('h, 'a, 'm) server_connection" where
  "on_body_read ec c = (if ec then DoClose c else DoForwardRequest c)"

definition on_response_written ::
  "bool \<Rightarrow> bool \<Rightarrow> ('h, 'a, 'm) server_connection \<Rightarrow> ('h, 'a, 'm) server_connection" where
  "on_response_written ec keep_alive c =
     (let c = CancelTimeout c in if ec \<or> \<not> keep_alive then DoClose c else DoCycle c)"

definition on_timeout :: "('h, 'a, 'm) server_connection \<Rightarrow> ('h, 'a, 'm) server_connection" where
  "on_timeout c = (if cn_timer c = None then c else DoClose (c\<lparr>cn_timer := None\<rparr>))"
text \<open>
  The upgrade: the accept of the WebSocket library is outstanding under the keep-alive timeout; its
  completion closes the connection on an error.
\<close>

definition DoWebSocketAccept :: "('h, 'a, 'm) server_connection \<Rightarrow> ('h, 'a, 'm) server_connection" where
  "DoWebSocketAccept c =
     (if \<not> conn_usable c then c else add_op OpWebSocket (ArmTimeout (GetKeepAliveTimeout c * 1000) c))"

definition on_websocket_accepted :: "bool \<Rightarrow> ('h, 'a, 'm) server_connection \<Rightarrow> ('h, 'a, 'm) server_connection" where
  "on_websocket_accepted ec c = (let c = CancelTimeout c in if ec then DoClose c else c)"

section \<open>Steps\<close>

definition drop_op :: "'m conn_op \<Rightarrow> ('h, 'a, 'm) server_connection \<Rightarrow> ('h, 'a, 'm) server_connection" where
  "drop_op oper c = c\<lparr>cn_ops := remove1 oper (cn_ops c)\<rparr>"

text \<open>
  How a task may leave its connection: it writes one response, cycles, closes, hands the connection to
  a WebSocket, or drops it. That the task lifecycle does no more is shown in its own theory.
\<close>

inductive task_end ::
  "(bool \<Rightarrow> size_t \<Rightarrow> 'm \<Rightarrow> 'm) \<Rightarrow> ('h, 'a, 'm) server_connection \<Rightarrow> ('h, 'a, 'm) server_connection \<Rightarrow> bool" for finish where
  writes: "task_end finish c (DoWriteResponse finish resp keep_alive expiry c)"
| cycles: "task_end finish c (DoCycle c)"
| closes: "task_end finish c (DoClose c)"
| upgrades: "task_end finish c (DoWebSocketAccept c)"
| drops: "task_end finish c c"

text \<open>
  A successful header read leaves a parser that reports a complete header, as the HTTP library
  documents. While a task runs, the streaming queue may arm and cancel the timer for its writes; any
  party that holds the connection may close it.
\<close>

inductive conn_step ::
  "(string \<Rightarrow> string list option) \<Rightarrow> ('h, 'a) HttpRouteTable \<Rightarrow> (bool \<Rightarrow> size_t \<Rightarrow> 'm \<Rightarrow> 'm)
    \<Rightarrow> ('h, 'a, 'm) server_connection \<Rightarrow> ('h, 'a, 'm) server_connection \<Rightarrow> bool" for parse t finish where
  run: "OpRun \<in> set (cn_ops c) \<Longrightarrow> conn_step parse t finish c (run_job (drop_op OpRun c))"
| header: "OpReadHeader \<in> set (cn_ops c) \<Longrightarrow> pred_option (\<lambda>p. ps_header_done p \<and> ps_body_limit p = None) read \<Longrightarrow>
    conn_step parse t finish c (on_header_read parse t read (drop_op OpReadHeader c))"
| body: "OpReadBody \<in> set (cn_ops c) \<Longrightarrow> conn_step parse t finish c (on_body_read ec (drop_op OpReadBody c))"
| task: "OpTask \<in> set (cn_ops c) \<Longrightarrow> task_end finish (drop_op OpTask c) c' \<Longrightarrow> conn_step parse t finish c c'"
| written: "OpWriteResponse resp keep_alive \<in> set (cn_ops c) \<Longrightarrow>
    conn_step parse t finish c (on_response_written ec keep_alive (drop_op (OpWriteResponse resp keep_alive) c))"
| upgraded: "OpWebSocket \<in> set (cn_ops c) \<Longrightarrow> conn_step parse t finish c (on_websocket_accepted ec (drop_op OpWebSocket c))"
| stream_arm: "OpTask \<in> set (cn_ops c) \<Longrightarrow> conn_step parse t finish c (ArmTimeout expiry c)"
| stream_cancel: "OpTask \<in> set (cn_ops c) \<Longrightarrow> conn_step parse t finish c (CancelTimeout c)"
| timeout: "conn_step parse t finish c (on_timeout c)"
| closed: "conn_step parse t finish c (DoClose c)"
| stop: "conn_step parse t finish c (c\<lparr>cn_running := False\<rparr>)"

inductive conn_reach ::
  "(string \<Rightarrow> string list option) \<Rightarrow> ('h, 'a) HttpRouteTable \<Rightarrow> (bool \<Rightarrow> size_t \<Rightarrow> 'm \<Rightarrow> 'm)
    \<Rightarrow> size_t \<Rightarrow> size_t \<Rightarrow> ('h, 'a, 'm) server_connection \<Rightarrow> bool" for parse t finish e k where
  accepted: "conn_reach parse t finish e k (Run (new_server_connection e k))"
| step: "conn_reach parse t finish e k c \<Longrightarrow> conn_step parse t finish c c' \<Longrightarrow> conn_reach parse t finish e k c'"

section \<open>Invariant\<close>

definition limits_ok :: "('h, 'a, 'm) server_connection \<Rightarrow> bool" where
  "limits_ok c \<longleftrightarrow>
     r_handler (cn_route_result c) \<noteq> None \<and> ps_header_done (cn_parser c) \<and>
     (r_max_body_size (cn_route_result c) \<noteq> 0 \<longrightarrow>
        ps_body_limit (cn_parser c) = Some (r_max_body_size (cn_route_result c)) \<and>
        pred_option (\<lambda>n. n \<le> r_max_body_size (cn_route_result c)) (ps_content_length (cn_parser c)))"

text \<open>What holds while an operation is outstanding on an open connection.\<close>

definition op_ok :: "('h, 'a, 'm) server_connection \<Rightarrow> 'm conn_op \<Rightarrow> bool" where
  "op_ok c oper \<longleftrightarrow>
     (case oper of
        OpReadHeader \<Rightarrow> cn_header_read_expiry c \<noteq> 0 \<longrightarrow> cn_timer c = Some (cn_header_read_expiry c)
      | OpReadBody \<Rightarrow> limits_ok c \<and>
          (r_read_expiry (cn_route_result c) \<noteq> 0 \<longrightarrow> cn_timer c = Some (r_read_expiry (cn_route_result c)))
      | OpTask \<Rightarrow> limits_ok c
      | _ \<Rightarrow> True)"

definition conn_inv :: "size_t \<Rightarrow> size_t \<Rightarrow> ('h, 'a, 'm) server_connection \<Rightarrow> bool" where
  "conn_inv e k c \<longleftrightarrow>
     cn_header_read_expiry c = e \<and> cn_keep_alive_timeout c = k \<and> length (cn_ops c) \<le> 1 \<and>
     (\<not> cn_closed c \<longrightarrow> (\<forall>oper\<in>set (cn_ops c). op_ok c oper))"

named_theorems conn_simps \<open>selection after a connection operation\<close>

lemma drop_only: "length (cn_ops c) \<le> 1 \<Longrightarrow> oper \<in> set (cn_ops c) \<Longrightarrow> cn_ops (drop_op oper c) = []"
  by (cases "cn_ops c") (auto simp: drop_op_def)

lemma drop_op_simps [conn_simps]:
  "cn_closed (drop_op oper c) = cn_closed c" "cn_running (drop_op oper c) = cn_running c"
  "cn_timer (drop_op oper c) = cn_timer c" "cn_route_result (drop_op oper c) = cn_route_result c"
  "cn_parser (drop_op oper c) = cn_parser c" "cn_header_read_expiry (drop_op oper c) = cn_header_read_expiry c"
  "cn_keep_alive_timeout (drop_op oper c) = cn_keep_alive_timeout c"
  by (simp_all add: drop_op_def)

lemmas conn_defs [conn_simps] =
  DoClose_def ArmTimeout_def CancelTimeout_def add_op_def conn_usable_def IsServerRunning_def IsStreamAvailable_def

lemma inv_closed:
  "cn_closed c \<Longrightarrow> conn_inv e k c \<longleftrightarrow> cn_header_read_expiry c = e \<and> cn_keep_alive_timeout c = k \<and> length (cn_ops c) \<le> 1"
  by (simp add: conn_inv_def)

lemma inv_run_job: "conn_inv e k c \<Longrightarrow> cn_ops c = [] \<Longrightarrow> conn_inv e k (run_job c)"
  by (auto simp: run_job_def DoReadHeader_def conn_inv_def op_ok_def conn_simps)

lemma inv_DoCycle: "conn_inv e k c \<Longrightarrow> cn_ops c = [] \<Longrightarrow> conn_inv e k (DoCycle c)"
  by (auto simp: DoCycle_def Run_def conn_inv_def op_ok_def conn_simps)

lemma inv_DoWriteResponse:
  "conn_inv e k c \<Longrightarrow> cn_ops c = [] \<Longrightarrow> conn_inv e k (DoWriteResponse finish resp keep_alive expiry c)"
  by (auto simp: DoWriteResponse_def conn_inv_def op_ok_def conn_simps)

lemma inv_DoWebSocketAccept: "conn_inv e k c \<Longrightarrow> cn_ops c = [] \<Longrightarrow> conn_inv e k (DoWebSocketAccept c)"
  by (auto simp: DoWebSocketAccept_def conn_inv_def op_ok_def conn_simps)

lemma inv_DoClose: "conn_inv e k c \<Longrightarrow> conn_inv e k (DoClose c)"
  by (auto simp: conn_inv_def conn_simps)

lemma inv_task_end:
  assumes "task_end finish c c'" "conn_inv e k c" "cn_ops c = []"
  shows "conn_inv e k c'"
  using assms(1)
proof cases
  case (writes resp keep_alive expiry)
  then show ?thesis using inv_DoWriteResponse [OF assms(2,3)] by simp
next
  case cycles
  then show ?thesis using inv_DoCycle [OF assms(2,3)] by simp
next
  case closes
  then show ?thesis using inv_DoClose [OF assms(2)] by simp
next
  case upgrades
  then show ?thesis using inv_DoWebSocketAccept [OF assms(2,3)] by simp
next
  case drops
  then show ?thesis using assms(2) by simp
qed

lemma inv_apply_body_limit:
  "cn_closed (apply_body_limit c) \<longleftrightarrow> cn_closed c \<or>
     (r_max_body_size (cn_route_result c) \<noteq> 0 \<and>
      (\<exists>n. ps_content_length (cn_parser c) = Some n \<and> n > r_max_body_size (cn_route_result c)))"
  "cn_ops (apply_body_limit c) = cn_ops c" "cn_timer (apply_body_limit c) = cn_timer c"
  "cn_running (apply_body_limit c) = cn_running c" "cn_route_result (apply_body_limit c) = cn_route_result c"
  "cn_header_read_expiry (apply_body_limit c) = cn_header_read_expiry c"
  "cn_keep_alive_timeout (apply_body_limit c) = cn_keep_alive_timeout c"
  "cn_parser (apply_body_limit c) = (if r_max_body_size (cn_route_result c) \<noteq> 0
     then (cn_parser c)\<lparr>ps_body_limit := Some (r_max_body_size (cn_route_result c))\<rparr> else cn_parser c)"
  by (simp_all add: apply_body_limit_def DoClose_def Let_def split: option.split)

lemma inv_DoRoute:
  assumes "conn_inv e k c" "cn_ops c = []"
  shows "conn_inv e k (DoRoute parse t c)"
proof -
  have read: "conn_inv e k (DoReadBody (apply_body_limit d))"
    if d: "cn_header_read_expiry d = e" "cn_keep_alive_timeout d = k" "cn_ops d = []"
      "r_handler (cn_route_result d) \<noteq> None" "ps_header_done (cn_parser d)"
      "r_read_expiry (cn_route_result d) \<noteq> 0 \<longrightarrow> cn_timer d = Some (r_read_expiry (cn_route_result d))"
    for d :: "('a, 'b, 'c) server_connection"
  proof (cases "conn_usable (apply_body_limit d)")
    case True
    then have "\<not> cn_closed (apply_body_limit d)" by (simp add: conn_simps)
    then have "limits_ok (add_op OpReadBody (apply_body_limit d))"
      using d by (auto simp: limits_ok_def inv_apply_body_limit conn_simps option.pred_set not_less
          elim!: option.set_cases)
    then show ?thesis
      using d True by (auto simp: DoReadBody_def conn_inv_def op_ok_def inv_apply_body_limit add_op_def)
  next
    case False
    then show ?thesis using d by (auto simp: DoReadBody_def conn_inv_def inv_apply_body_limit DoClose_def)
  qed
  let ?r = "RouteInternal parse (BeastHttpVerbToHttpRequestMethod (ps_method (cn_parser c))) (ps_target (cn_parser c)) t"
  let ?c = "CancelTimeout c"
  let ?d = "ArmTimeout (r_read_expiry ?r) (?c\<lparr>cn_route_result := ?r\<rparr>)"
  have "DoRoute parse t c =
      (if \<not> ps_header_done (cn_parser c) \<or> \<not> conn_usable ?c then DoClose ?c
       else if r_handler ?r = None then DoClose (?c\<lparr>cn_route_result := ?r\<rparr>)
       else DoReadBody (apply_body_limit ?d))"
    by (simp add: DoRoute_def Let_def CancelTimeout_def)
  moreover have "conn_inv e k (DoClose ?c)" "conn_inv e k (DoClose (?c\<lparr>cn_route_result := ?r\<rparr>))"
    using assms by (auto simp: conn_inv_def conn_simps)
  moreover have "conn_inv e k (DoReadBody (apply_body_limit ?d))" if "ps_header_done (cn_parser c)" "r_handler ?r \<noteq> None"
    using assms that by (intro read) (auto simp: conn_inv_def conn_simps)
  ultimately show ?thesis by simp
qed

lemma inv_DoForwardRequest:
  "conn_inv e k c \<Longrightarrow> cn_ops c = [] \<Longrightarrow> limits_ok c \<or> cn_closed c \<Longrightarrow> conn_inv e k (DoForwardRequest c)"
  by (auto simp: DoForwardRequest_def conn_inv_def op_ok_def limits_ok_def conn_simps)

lemma inv_drop: "conn_inv e k c \<Longrightarrow> conn_inv e k (drop_op oper c)"
  using length_remove1 [of oper "cn_ops c"] set_remove1_subset [of oper "cn_ops c"]
  by (auto simp: conn_inv_def drop_op_def op_ok_def limits_ok_def split: conn_op.splits if_splits)

lemma inv_conn_step:
  assumes "conn_step parse t finish c c'" "conn_inv e k c"
  shows "conn_inv e k c'"
  using assms(1)
proof cases
  case run
  then show ?thesis using inv_run_job [OF inv_drop [OF assms(2)]] drop_only assms(2) by (auto simp: conn_inv_def)
next
  case (header read)
  have d: "conn_inv e k (drop_op OpReadHeader c)" "cn_ops (drop_op OpReadHeader c) = []"
    using inv_drop [OF assms(2)] drop_only header(2) assms(2) by (auto simp: conn_inv_def)
  have "conn_inv e k ((drop_op OpReadHeader c)\<lparr>cn_parser := p\<rparr>)" for p using d by (simp add: conn_inv_def)
  then show ?thesis
    using header(1) d inv_DoRoute [of e k "(drop_op OpReadHeader c)\<lparr>cn_parser := the read\<rparr>" parse t] inv_DoClose
    by (auto simp: on_header_read_def split: option.split)
next
  case (body ec)
  have d: "conn_inv e k (drop_op OpReadBody c)" "cn_ops (drop_op OpReadBody c) = []"
    using inv_drop [OF assms(2)] drop_only body(2) assms(2) by (auto simp: conn_inv_def)
  have "limits_ok (drop_op OpReadBody c) \<or> cn_closed (drop_op OpReadBody c)"
    using assms(2) body(2) by (auto simp: conn_inv_def op_ok_def limits_ok_def drop_op_def)
  then show ?thesis using body(1) d inv_DoForwardRequest inv_DoClose by (auto simp: on_body_read_def)
next
  case task
  have "conn_inv e k (drop_op OpTask c)" "cn_ops (drop_op OpTask c) = []"
    using inv_drop [OF assms(2)] drop_only task(1) assms(2) by (auto simp: conn_inv_def)
  then show ?thesis using inv_task_end task(2) by blast
next
  case (written resp keep_alive ec)
  let ?c = "CancelTimeout (drop_op (OpWriteResponse resp keep_alive) c)"
  have ops: "cn_ops ?c = []" using drop_only [OF _ written(2)] assms(2) by (simp add: conn_inv_def CancelTimeout_def)
  have "conn_inv e k ?c"
    using inv_drop [OF assms(2), of "OpWriteResponse resp keep_alive"] ops by (simp add: conn_inv_def CancelTimeout_def)
  then show ?thesis using written(1) ops inv_DoCycle inv_DoClose by (auto simp: on_response_written_def Let_def)
next
  case (upgraded ec)
  let ?c = "CancelTimeout (drop_op OpWebSocket c)"
  have ops: "cn_ops ?c = []" using drop_only [OF _ upgraded(2)] assms(2) by (simp add: conn_inv_def CancelTimeout_def)
  have "conn_inv e k ?c"
    using inv_drop [OF assms(2), of OpWebSocket] ops by (simp add: conn_inv_def CancelTimeout_def)
  then show ?thesis using upgraded(1) inv_DoClose by (auto simp: on_websocket_accepted_def Let_def)
next
  case (stream_arm expiry)
  then have "cn_ops c = [OpTask]" using assms(2) by (cases "cn_ops c") (auto simp: conn_inv_def)
  then show ?thesis using stream_arm assms(2) by (auto simp: conn_inv_def op_ok_def limits_ok_def ArmTimeout_def)
next
  case stream_cancel
  then have "cn_ops c = [OpTask]" using assms(2) by (cases "cn_ops c") (auto simp: conn_inv_def)
  then show ?thesis using stream_cancel assms(2) by (auto simp: conn_inv_def op_ok_def limits_ok_def CancelTimeout_def)
next
  case closed
  then show ?thesis using inv_DoClose [OF assms(2)] by simp
next
  case timeout
  then show ?thesis using assms(2) by (auto simp: on_timeout_def conn_inv_def DoClose_def)
next
  case stop
  then show ?thesis using assms(2) by (auto simp: conn_inv_def op_ok_def limits_ok_def split: conn_op.splits)
qed

lemma conn_reach_inv: "conn_reach parse t finish e k c \<Longrightarrow> conn_inv e k c"
proof (induction rule: conn_reach.induct)
  case accepted
  show ?case by (simp add: Run_def new_server_connection_def conn_inv_def op_ok_def conn_simps)
next
  case (step c c')
  then show ?case using inv_conn_step by blast
qed

lemma closed_stays:
  assumes "cn_closed c"
  shows "cn_closed (DoClose c)" "cn_closed (DoCycle c)" "cn_closed (DoWriteResponse finish resp keep_alive expiry c)"
    "cn_closed (DoWebSocketAccept c)" "cn_closed (run_job c)" "cn_closed (DoRoute parse t c)" "cn_closed (DoForwardRequest c)"
    "cn_ops (DoClose c) = cn_ops c" "cn_ops (DoCycle c) = cn_ops c"
    "cn_ops (DoWriteResponse finish resp keep_alive expiry c) = cn_ops c" "cn_ops (DoWebSocketAccept c) = cn_ops c"
    "cn_ops (run_job c) = cn_ops c" "cn_ops (DoRoute parse t c) = cn_ops c" "cn_ops (DoForwardRequest c) = cn_ops c"
  using assms
  by (simp_all add: DoCycle_def DoWriteResponse_def DoWebSocketAccept_def run_job_def DoReadHeader_def DoRoute_def
      DoForwardRequest_def Let_def conn_simps)

lemma closed_step:
  assumes "conn_step parse t finish c c'" "cn_closed c"
  shows "cn_closed c' \<and> set (cn_ops c') \<subseteq> set (cn_ops c)"
proof -
  have sub: "set (cn_ops (drop_op oper c)) \<subseteq> set (cn_ops c)" for oper
    by (simp add: drop_op_def set_remove1_subset)
  have cl: "cn_closed (drop_op oper c)" for oper using assms(2) by (simp add: conn_simps)
  have cp: "cn_closed ((drop_op oper c)\<lparr>cn_parser := p\<rparr>)" for oper p using assms(2) by (simp add: conn_simps)
  have ct: "cn_closed (CancelTimeout (drop_op oper c))" for oper using assms(2) by (simp add: conn_simps)
  have co: "cn_ops (CancelTimeout (drop_op oper c)) = cn_ops (drop_op oper c)" for oper by (simp add: CancelTimeout_def)
  show ?thesis
    using assms(1)
  proof cases
    case (task)
    from task(2) show ?thesis by cases (simp_all add: closed_stays [OF cl] cl sub)
  next
    case stream_arm
    then show ?thesis using assms(2) by (simp add: ArmTimeout_def)
  next
    case stream_cancel
    then show ?thesis using assms(2) by (simp add: CancelTimeout_def)
  qed (use assms(2) sub in \<open>simp_all add: on_header_read_def on_body_read_def on_response_written_def
      on_websocket_accepted_def on_timeout_def Let_def closed_stays [OF cl] closed_stays [OF ct] closed_stays [OF cp]
      cl ct co DoClose_def split: option.split\<close>)
qed

section \<open>Properties\<close>


text \<open>A keep-alive connection in the middle of its second header, for the examples.\<close>

definition demo_table :: "(nat, nat) HttpRouteTable" where
  "demo_table = SetDefaultMaxBodySize 100 (new_HttpRouteTable 7)"

definition demo_parser :: HttpRequestParser where
  "demo_parser = new_HttpRequestParser\<lparr>ps_header_done := True, ps_content_length := Some 100\<rparr>"

definition demo_task :: "(nat, nat, nat) server_connection" where
  "demo_task =
     (let c = Run (new_server_connection 5 60);
          c = run_job (drop_op OpRun c);
          c = on_header_read (\<lambda>_. None) demo_table (Some demo_parser) (drop_op OpReadHeader c)
      in on_body_read False (drop_op OpReadBody c))"

definition demo_second :: "(nat, nat, nat) server_connection" where
  "demo_second =
     (let c = DoWriteResponse (\<lambda>_ _ m. m) 200 True 9 (drop_op OpTask demo_task);
          c = on_response_written False True (drop_op (OpWriteResponse 200 True) c)
      in run_job (drop_op OpRun c))"

abbreviation conn_demo :: "(nat, nat, nat) server_connection \<Rightarrow> bool" where
  "conn_demo \<equiv> conn_reach (\<lambda>_. None) demo_table (\<lambda>_ _ m. m) 5 60"

lemma demo_task_reach: "conn_demo demo_task"
proof -
  let ?c1 = "Run (new_server_connection 5 60) :: (nat, nat, nat) server_connection"
  let ?c2 = "run_job (drop_op OpRun ?c1)"
  let ?c3 = "on_header_read (\<lambda>_. None) demo_table (Some demo_parser) (drop_op OpReadHeader ?c2)"
  have "conn_demo ?c1" by (rule conn_reach.accepted)
  then have "conn_demo ?c2" by (rule conn_reach.step [OF _ conn_step.run]) code_simp
  then have "conn_demo ?c3"
    by (rule conn_reach.step [OF _ conn_step.header]) (code_simp, simp add: demo_parser_def new_HttpRequestParser_def)
  then have "conn_demo (on_body_read False (drop_op OpReadBody ?c3))"
    by (rule conn_reach.step [OF _ conn_step.body]) code_simp
  then show ?thesis by (simp add: demo_task_def)
qed

lemma demo_second_reach: "conn_demo demo_second"
proof -
  let ?c1 = "DoWriteResponse (\<lambda>_ _ m. m) 200 True 9 (drop_op OpTask demo_task)"
  let ?c2 = "on_response_written False True (drop_op (OpWriteResponse 200 True) ?c1)"
  have "conn_demo ?c1"
    by (rule conn_reach.step [OF demo_task_reach conn_step.task]) (code_simp, rule task_end.writes)
  then have "conn_demo ?c2" by (rule conn_reach.step [OF _ conn_step.written]) code_simp
  then have "conn_demo (run_job (drop_op OpRun ?c2))" by (rule conn_reach.step [OF _ conn_step.run]) code_simp
  then show ?thesis by (simp add: demo_second_def)
qed


text \<open>
  A task is only started for a request that was routed to a handler, and never for a body beyond
  the route's limit: the announced length is within it and the parser enforces it on the body that was
  read.
\<close>

theorem forwarded_request_is_within_limits:
  assumes "conn_reach parse t finish e k c" "OpTask \<in> set (cn_ops c)" "\<not> cn_closed c"
  shows "r_handler (cn_route_result c) \<noteq> None \<and>
    (r_max_body_size (cn_route_result c) \<noteq> 0 \<longrightarrow>
       ps_body_limit (cn_parser c) = Some (r_max_body_size (cn_route_result c)) \<and>
       (\<forall>n. ps_content_length (cn_parser c) = Some n \<longrightarrow> n \<le> r_max_body_size (cn_route_result c)))"
  using conn_reach_inv [OF assms(1)] assms(2,3)
  by (auto simp: conn_inv_def op_ok_def limits_ok_def dest!: bspec [of _ _ OpTask])

theorem forwarded_request_is_within_limits_witness:
  "ps_body_limit (cn_parser demo_task) = Some 100 \<and> r_max_body_size (cn_route_result demo_task) = 100"
proof -
  have "OpTask \<in> set (cn_ops demo_task)" "\<not> cn_closed demo_task" "r_max_body_size (cn_route_result demo_task) = 100"
    by code_simp+
  then show ?thesis using forwarded_request_is_within_limits [OF demo_task_reach] by simp
qed

text \<open>
  An open connection that waits for a request header is under the header timer alone. \<^verbatim>\<open>DoCycle\<close>
  arms the sum of the header and keep-alive timeouts, but the job that \<^verbatim>\<open>Run\<close> posts arms the header
  timeout over it, so the keep-alive timeout never prolongs the wait for the next request.
\<close>

theorem header_wait_ignores_keep_alive_timeout:
  assumes "conn_reach parse t finish e k c" "OpReadHeader \<in> set (cn_ops c)" "\<not> cn_closed c" "e \<noteq> 0"
  shows "cn_timer c = Some e"
  using conn_reach_inv [OF assms(1)] assms(2-4)
  by (auto simp: conn_inv_def op_ok_def dest!: bspec [of _ _ OpReadHeader])

theorem header_wait_ignores_keep_alive_timeout_witness:
  "cn_timer demo_second = Some 5 \<and> cn_keep_alive_timeout demo_second = 60"
proof -
  have "OpReadHeader \<in> set (cn_ops demo_second)" "\<not> cn_closed demo_second" "cn_keep_alive_timeout demo_second = 60"
    by code_simp+
  then show ?thesis using header_wait_ignores_keep_alive_timeout [OF demo_second_reach] by simp
qed

end
