(* ===== verification/Task_State.thy ===== *)
theory Task_State
  imports Server_Connection Cookie_Jar
begin

text \<open>
  The state the three phases of a request share (\<^verbatim>\<open>HttpTaskSharedState\<close> of
  \<^verbatim>\<open>connection/include/internal/server/http_server_task_detail.h\<close>), the helpers on it, and the interface
  tasks offer to handlers and aspects (\<^verbatim>\<open>connection/server/http_server_task_base.cc\<close>).

  A task and its connection are one state here: the shared state, the connection it points to, and a
  history of what happened. The fields of a response are the HTTP library's, so a response is an
  opaque header and a body, and what the code does to the header is a parameter.
\<close>

section \<open>Shared state\<close>

datatype HttpTaskConnectionLifecycleMode = kAutomatic | kManual | kWebSocket

datatype WebSocketUpgradeState = upgrade_kNone | upgrade_kRequested | upgrade_kHeaderPrepared | upgrade_kTaskStarted

record 'm HttpResponse =
  rs_header :: 'm
  rs_body :: string

record ('h, 'a, 'm, 'w) HttpTaskSharedState =
  ts_cookie_field :: string
  ts_is_upgrade :: bool
  ts_resp :: "'m HttpResponse"
  ts_cookies :: "(string, string) umap"
  ts_sessionid :: "string option"
  ts_set_cookies :: "ServerSetCookie list"
  ts_conn :: bool
  ts_route_result :: "('h, 'a) HttpRouteResultInternal"
  ts_keep_alive :: bool
  ts_connection_mode :: HttpTaskConnectionLifecycleMode
  ts_aspect_failure_marked :: bool
  ts_aspect_unwind_start_index :: nat
  ts_websocket_upgrade_state :: WebSocketUpgradeState
  ts_websocket_upgrade_handler :: "'w option"
  ts_is_cookie_parsed :: bool

text \<open>What a task does to its connection for good, and the hooks it runs.\<close>

datatype ('h, 'a, 'm) task_event =
    PreHook 'a | ServiceHook 'h | PostHook 'a
  | EndWrite "'m HttpResponse" bool | EndCycle | EndClose | EndUpgrade

record ('h, 'a, 'm, 'w) task_world =
  tw_state :: "('h, 'a, 'm, 'w) HttpTaskSharedState"
  tw_conn :: "('h, 'a, 'm HttpResponse) server_connection"
  tw_events :: "('h, 'a, 'm) task_event list"

text \<open>
  The request enters with the value of its \<^verbatim>\<open>Cookie\<close> field and the library's answer to the question
  whether it asks for an upgrade; \<open>empty_header\<close> is the header of a default-constructed response.
\<close>

definition CreateTaskState ::
  "'m \<Rightarrow> string \<Rightarrow> bool \<Rightarrow> ('h, 'a) HttpRouteResultInternal \<Rightarrow> ('h, 'a, 'm, 'w) HttpTaskSharedState" where
  "CreateTaskState empty_header cookie_field is_upgrade route_result =
     \<lparr>ts_cookie_field = cookie_field, ts_is_upgrade = is_upgrade,
      ts_resp = \<lparr>rs_header = empty_header, rs_body = []\<rparr>, ts_cookies = [], ts_sessionid = None,
      ts_set_cookies = [], ts_conn = True, ts_route_result = route_result, ts_keep_alive = True,
      ts_connection_mode = kAutomatic, ts_aspect_failure_marked = False, ts_aspect_unwind_start_index = 0,
      ts_websocket_upgrade_state = upgrade_kNone, ts_websocket_upgrade_handler = None,
      ts_is_cookie_parsed = False\<rparr>"

section \<open>Cookies of the request\<close>

definition TrimCookieView :: "string \<Rightarrow> string" where
  "TrimCookieView sv = trim_by view_ws sv"

definition ParseCookiePairView :: "string \<Rightarrow> string \<times> string" where
  "ParseCookiePairView token =
     (let token = TrimCookieView token
      in if token = [] then ([], [])
         else case find_char CHR ''='' token of
           None \<Rightarrow> (TrimCookieView token, [])
         | Some eq \<Rightarrow>
             (let name = TrimCookieView (substr token 0 (Some eq));
                  val = TrimCookieView (substr token (eq + 1) None);
                  val = (if length val \<ge> 2 \<and> hd val = CHR 0x22 \<and> last val = CHR 0x22
                         then substr val 1 (Some (length val - 2)) else val)
              in (name, val)))"

text \<open>\<^verbatim>\<open>views::split\<close> yields nothing for an empty range, and one field more than separators otherwise.\<close>

definition SplitCookieHeaderUsingSplit :: "string \<Rightarrow> string list" where
  "SplitCookieHeaderUsingSplit header =
     (if header = [] then [] else map TrimCookieView (split_on CHR '';'' header))"

fun cookie_pairs_loop :: "string list \<Rightarrow> (string, string) umap \<Rightarrow> (string, string) umap" where
  "cookie_pairs_loop [] cookies = cookies"
| "cookie_pairs_loop (token # tokens) cookies =
     (case ParseCookiePairView token of
        (name, val) \<Rightarrow>
          cookie_pairs_loop tokens (if name \<noteq> [] then insert_or_assign name val cookies else cookies))"

definition GenerateCookiePairs :: "('h, 'a, 'm, 'w) HttpTaskSharedState \<Rightarrow> ('h, 'a, 'm, 'w) HttpTaskSharedState" where
  "GenerateCookiePairs s =
     (if ts_is_cookie_parsed s then s
      else s\<lparr>ts_cookies := cookie_pairs_loop (SplitCookieHeaderUsingSplit (ts_cookie_field s)) (ts_cookies s),
             ts_is_cookie_parsed := True\<rparr>)"

text \<open>\<^verbatim>\<open>operator[]\<close> inserts an empty value for an unknown key.\<close>

definition GetCookie :: "string \<Rightarrow> ('h, 'a, 'm, 'w) HttpTaskSharedState \<Rightarrow> string \<times> ('h, 'a, 'm, 'w) HttpTaskSharedState" where
  "GetCookie key s =
     (let s = GenerateCookiePairs s; cookies = emplace key [] (ts_cookies s)
      in (the (map_of cookies key), s\<lparr>ts_cookies := cookies\<rparr>))"

definition AddCookie :: "ServerSetCookie \<Rightarrow> ('h, 'a, 'm, 'w) HttpTaskSharedState \<Rightarrow> ('h, 'a, 'm, 'w) HttpTaskSharedState" where
  "AddCookie cookie s = s\<lparr>ts_set_cookies := ts_set_cookies s @ [cookie]\<rparr>"

text \<open>
  \<open>fresh\<close> is the UUID the generator would return. The loop takes the first entry in the order of the
  map, which for \<^verbatim>\<open>unordered_map\<close> is unspecified when several spellings of the name occur.
\<close>

definition GetSessionId ::
  "string \<Rightarrow> ('h, 'a, 'm, 'w) HttpTaskSharedState \<Rightarrow> string \<times> ('h, 'a, 'm, 'w) HttpTaskSharedState" where
  "GetSessionId fresh s =
     (let s = GenerateCookiePairs s;
          s = (case find (\<lambda>(name, _). to_lower name = ''sessionid'') (ts_cookies s) of
                 Some (_, val) \<Rightarrow> s\<lparr>ts_sessionid := Some val\<rparr>
               | None \<Rightarrow> s)
      in case ts_sessionid s of
           Some sid \<Rightarrow> (sid, s)
         | None \<Rightarrow>
             (fresh, AddCookie (SetValue fresh (SetName ''sessionId'' new_ServerSetCookie))
                       (s\<lparr>ts_sessionid := Some fresh\<rparr>)))"
section \<open>Environment and endings\<close>

definition IsTaskEnvironmentAvailable :: "('h, 'a, 'm, 'w) task_world \<Rightarrow> bool" where
  "IsTaskEnvironmentAvailable w \<longleftrightarrow>
     IsServerRunning (tw_conn w) \<and> ts_conn (tw_state w) \<and> IsStreamAvailable (tw_conn w)"

definition clear_conn :: "('h, 'a, 'm, 'w) task_world \<Rightarrow> ('h, 'a, 'm, 'w) task_world" where
  "clear_conn w = w\<lparr>tw_state := (tw_state w)\<lparr>ts_conn := False\<rparr>\<rparr>"

definition end_with ::
  "('h, 'a, 'm) task_event
    \<Rightarrow> (('h, 'a, 'm HttpResponse) server_connection \<Rightarrow> ('h, 'a, 'm HttpResponse) server_connection)
    \<Rightarrow> ('h, 'a, 'm, 'w) task_world \<Rightarrow> ('h, 'a, 'm, 'w) task_world" where
  "end_with ev f w = w\<lparr>tw_conn := f (tw_conn w), tw_events := tw_events w @ [ev]\<rparr>"

definition TryCloseConnection :: "('h, 'a, 'm, 'w) task_world \<Rightarrow> ('h, 'a, 'm, 'w) task_world" where
  "TryCloseConnection w =
     (if \<not> ts_conn (tw_state w) then w
      else clear_conn (if IsStreamAvailable (tw_conn w) then end_with EndClose DoClose w else w))"

text \<open>
  Two functions of the HTTP library parameterise what follows: \<open>insert_field\<close> adds a \<^verbatim>\<open>Set-Cookie\<close> field
  to a header, and \<open>finish\<close> is the one of the connection's \<^verbatim>\<open>DoWriteResponse\<close>.
\<close>

fun append_cookies_loop :: "(string \<Rightarrow> 'm \<Rightarrow> 'm) \<Rightarrow> ServerSetCookie list \<Rightarrow> 'm \<Rightarrow> 'm" where
  "append_cookies_loop insert_field [] hdr = hdr"
| "append_cookies_loop insert_field (c # cs) hdr =
     append_cookies_loop insert_field cs (if ToString c \<noteq> [] then insert_field (ToString c) hdr else hdr)"

definition AppendSetCookies ::
  "(string \<Rightarrow> 'm \<Rightarrow> 'm) \<Rightarrow> ('h, 'a, 'm, 'w) HttpTaskSharedState \<Rightarrow> ('h, 'a, 'm, 'w) HttpTaskSharedState" where
  "AppendSetCookies insert_field s =
     s\<lparr>ts_resp := (ts_resp s)\<lparr>rs_header := append_cookies_loop insert_field (ts_set_cookies s) (rs_header (ts_resp s))\<rparr>\<rparr>"

datatype ResponseWriteStageResult =
  kWriteSubmitted | kWebSocketAcceptPending | kSkippedManualManagement | kConnectionUnavailable

definition SubmitFinalResponseWriteIfNeeded ::
  "(string \<Rightarrow> 'm \<Rightarrow> 'm) \<Rightarrow> (bool \<Rightarrow> size_t \<Rightarrow> 'm HttpResponse \<Rightarrow> 'm HttpResponse)
    \<Rightarrow> ('h, 'a, 'm, 'w) task_world \<Rightarrow> ResponseWriteStageResult \<times> ('h, 'a, 'm, 'w) task_world" where
  "SubmitFinalResponseWriteIfNeeded insert_field finish w =
     (let mode = ts_connection_mode (tw_state w)
      in if mode = kManual then (kSkippedManualManagement, w)
         else if \<not> ts_conn (tw_state w) \<or> \<not> IsStreamAvailable (tw_conn w)
           then (kConnectionUnavailable, TryCloseConnection w)
         else
           (let s = AppendSetCookies insert_field (tw_state w)
            in if mode = kWebSocket then
                 (kWebSocketAcceptPending,
                  w\<lparr>tw_state := s\<lparr>ts_resp := (ts_resp s)\<lparr>rs_body := []\<rparr>,
                                  ts_websocket_upgrade_state := upgrade_kHeaderPrepared\<rparr>\<rparr>)
               else
                 (kWriteSubmitted,
                  clear_conn (end_with (EndWrite (ts_resp s) (ts_keep_alive s))
                    (DoWriteResponse finish (ts_resp s) (ts_keep_alive s) (r_write_expiry (ts_route_result s)))
                    (w\<lparr>tw_state := s\<rparr>)))))"

definition FinalizeManualConnectionAction :: "('h, 'a, 'm, 'w) task_world \<Rightarrow> ('h, 'a, 'm, 'w) task_world" where
  "FinalizeManualConnectionAction w =
     (if \<not> ts_conn (tw_state w) \<or> \<not> IsStreamAvailable (tw_conn w) then TryCloseConnection w
      else clear_conn
        (if ts_keep_alive (tw_state w) then end_with EndCycle DoCycle w else end_with EndClose DoClose w))"

section \<open>The interface of a task\<close>

text \<open>
  A hook is user code. It acts on the task through the calls below; between two of them the peer or a
  timer may close the connection and the server may stop. \<open>CallEditHeader\<close> stands for any edit of the
  response's fields. \<open>MarkAspectFailure\<close> is a member of the task of the first phase only and
  \<open>UpgradeToWebSocket\<close> of the task of the second. Flushing calls (\<^verbatim>\<open>WriteHeader\<close>, \<^verbatim>\<open>WriteBody\<close>) go to the
  connection's queue and leave the state of the task alone.
\<close>

datatype phase = PrePhase | ServicePhase | PostPhase

datatype ('m, 'w) task_call =
    CallSetBody string | CallAppendBody string | CallEditHeader "'m \<Rightarrow> 'm"
  | CallSetKeepAlive bool | CallSetManualConnectionManagement bool
  | CallAddCookie ServerSetCookie | CallGetCookie string | CallGetSessionId string
  | CallMarkAspectFailure | CallUpgradeToWebSocket "'w option"
  | CallDoClose | CallDoCycle
  | EnvClose | EnvStop

definition SetBody :: "string \<Rightarrow> ('h, 'a, 'm, 'w) HttpTaskSharedState \<Rightarrow> ('h, 'a, 'm, 'w) HttpTaskSharedState" where
  "SetBody body s = s\<lparr>ts_resp := (ts_resp s)\<lparr>rs_body := body\<rparr>\<rparr>"

definition AppendBody :: "string \<Rightarrow> ('h, 'a, 'm, 'w) HttpTaskSharedState \<Rightarrow> ('h, 'a, 'm, 'w) HttpTaskSharedState" where
  "AppendBody body s = s\<lparr>ts_resp := (ts_resp s)\<lparr>rs_body := rs_body (ts_resp s) @ body\<rparr>\<rparr>"

definition SetKeepAlive :: "bool \<Rightarrow> ('h, 'a, 'm, 'w) HttpTaskSharedState \<Rightarrow> ('h, 'a, 'm, 'w) HttpTaskSharedState" where
  "SetKeepAlive v s = s\<lparr>ts_keep_alive := v\<rparr>"

definition SetManualConnectionManagement ::
  "bool \<Rightarrow> ('h, 'a, 'm, 'w) HttpTaskSharedState \<Rightarrow> ('h, 'a, 'm, 'w) HttpTaskSharedState" where
  "SetManualConnectionManagement v s =
     (if \<not> v then s else if ts_connection_mode s = kAutomatic then s\<lparr>ts_connection_mode := kManual\<rparr> else s)"

definition MarkAspectFailure :: "('h, 'a, 'm, 'w) HttpTaskSharedState \<Rightarrow> ('h, 'a, 'm, 'w) HttpTaskSharedState" where
  "MarkAspectFailure s = s\<lparr>ts_aspect_failure_marked := True\<rparr>"

definition UpgradeToWebSocket :: "'w option \<Rightarrow> ('h, 'a, 'm, 'w) task_world \<Rightarrow> bool \<times> ('h, 'a, 'm, 'w) task_world" where
  "UpgradeToWebSocket hnd w =
     (if hnd = None \<or> \<not> ts_is_upgrade (tw_state w) \<or> \<not> IsTaskEnvironmentAvailable w then (False, w)
      else if ts_connection_mode (tw_state w) \<noteq> kAutomatic then (False, w)
      else (True, w\<lparr>tw_state := (tw_state w)\<lparr>ts_connection_mode := kWebSocket, ts_websocket_upgrade_handler := hnd,
                                            ts_websocket_upgrade_state := upgrade_kRequested\<rparr>\<rparr>))"

definition task_DoClose :: "('h, 'a, 'm, 'w) task_world \<Rightarrow> ('h, 'a, 'm, 'w) task_world" where
  "task_DoClose w = (if \<not> ts_conn (tw_state w) then w else clear_conn (end_with EndClose DoClose w))"

definition task_DoCycle :: "('h, 'a, 'm, 'w) task_world \<Rightarrow> ('h, 'a, 'm, 'w) task_world" where
  "task_DoCycle w = (if \<not> ts_conn (tw_state w) then w else clear_conn (end_with EndCycle DoCycle w))"

definition on_state ::
  "(('h, 'a, 'm, 'w) HttpTaskSharedState \<Rightarrow> ('h, 'a, 'm, 'w) HttpTaskSharedState)
    \<Rightarrow> ('h, 'a, 'm, 'w) task_world \<Rightarrow> ('h, 'a, 'm, 'w) task_world" where
  "on_state f w = w\<lparr>tw_state := f (tw_state w)\<rparr>"

definition run_call :: "phase \<Rightarrow> ('m, 'w) task_call \<Rightarrow> ('h, 'a, 'm, 'w) task_world \<Rightarrow> ('h, 'a, 'm, 'w) task_world" where
  "run_call ph call w =
     (case call of
        CallSetBody body \<Rightarrow> on_state (SetBody body) w
      | CallAppendBody body \<Rightarrow> on_state (AppendBody body) w
      | CallEditHeader f \<Rightarrow> on_state (\<lambda>s. s\<lparr>ts_resp := (ts_resp s)\<lparr>rs_header := f (rs_header (ts_resp s))\<rparr>\<rparr>) w
      | CallSetKeepAlive v \<Rightarrow> on_state (SetKeepAlive v) w
      | CallSetManualConnectionManagement v \<Rightarrow> on_state (SetManualConnectionManagement v) w
      | CallAddCookie c \<Rightarrow> on_state (AddCookie c) w
      | CallGetCookie key \<Rightarrow> on_state (\<lambda>s. snd (GetCookie key s)) w
      | CallGetSessionId fresh \<Rightarrow> on_state (\<lambda>s. snd (GetSessionId fresh s)) w
      | CallMarkAspectFailure \<Rightarrow> if ph = PrePhase then on_state MarkAspectFailure w else w
      | CallUpgradeToWebSocket hnd \<Rightarrow> if ph = ServicePhase then snd (UpgradeToWebSocket hnd w) else w
      | CallDoClose \<Rightarrow> task_DoClose w
      | CallDoCycle \<Rightarrow> task_DoCycle w
      | EnvClose \<Rightarrow> w\<lparr>tw_conn := DoClose (tw_conn w)\<rparr>
      | EnvStop \<Rightarrow> w\<lparr>tw_conn := (tw_conn w)\<lparr>cn_running := False\<rparr>\<rparr>)"

definition run_calls :: "phase \<Rightarrow> ('m, 'w) task_call list \<Rightarrow> ('h, 'a, 'm, 'w) task_world \<Rightarrow> ('h, 'a, 'm, 'w) task_world" where
  "run_calls ph calls w = foldl (\<lambda>w call. run_call ph call w) w calls"

end
