(* ===== verification/Task_Lifecycle.thy ===== *)
theory Task_Lifecycle
  imports Task_State
begin

text \<open>
  The life of a request on the server (\<^verbatim>\<open>connection/server/http_server_task_lifecycle.cc\<close>): aspects
  run their pre hooks in order, the handler serves the request, the aspects run their post hooks in
  reverse, and the connection is finalised. Each phase is a task object; the deleter of one creates the
  next. A task lives as long as a hook keeps a reference to it, so the calls of a hook in the model
  include those it makes later, from callbacks, before it drops its reference.
\<close>

section \<open>Finalisation\<close>

definition TakePendingWebSocketHandler :: "('h, 'a, 'm, 'w) task_world \<Rightarrow> 'w option \<times> ('h, 'a, 'm, 'w) task_world" where
  "TakePendingWebSocketHandler w =
     (ts_websocket_upgrade_handler (tw_state w), on_state (\<lambda>s. s\<lparr>ts_websocket_upgrade_handler := None\<rparr>) w)"

text \<open>
  \<^verbatim>\<open>WebSocketServerTask::Start\<close> of a new task: it accepts the upgrade on the connection unless the server
  has stopped. The task could be made because the connection is there.
\<close>

definition websocket_Start :: "('h, 'a, 'm) server_connection \<Rightarrow> ('h, 'a, 'm) server_connection" where
  "websocket_Start c = (if \<not> IsServerRunning c then c else DoWebSocketAccept c)"

definition TryStartWebSocketUpgradeTask :: "('h, 'a, 'm, 'w) task_world \<Rightarrow> bool \<times> ('h, 'a, 'm, 'w) task_world" where
  "TryStartWebSocketUpgradeTask w =
     (if ts_websocket_upgrade_state (tw_state w) \<noteq> upgrade_kHeaderPrepared then (False, w)
      else case TakePendingWebSocketHandler w of
        (hnd, w) \<Rightarrow>
          if hnd = None \<or> \<not> ts_conn (tw_state w) then (False, TryCloseConnection w)
          else (True, clear_conn (on_state (\<lambda>s. s\<lparr>ts_websocket_upgrade_state := upgrade_kTaskStarted\<rparr>)
                        (end_with EndUpgrade websocket_Start w))))"

definition FinalizeAutomaticMode ::
  "(string \<Rightarrow> 'm \<Rightarrow> 'm) \<Rightarrow> (bool \<Rightarrow> size_t \<Rightarrow> 'm HttpResponse \<Rightarrow> 'm HttpResponse)
    \<Rightarrow> ('h, 'a, 'm, 'w) task_world \<Rightarrow> ('h, 'a, 'm, 'w) task_world" where
  "FinalizeAutomaticMode insert_field finish w =
     (case SubmitFinalResponseWriteIfNeeded insert_field finish w of
        (write_stage, w) \<Rightarrow>
          if write_stage = kConnectionUnavailable \<or> write_stage = kWriteSubmitted then w
          else TryCloseConnection w)"

definition FinalizeManualMode ::
  "(string \<Rightarrow> 'm \<Rightarrow> 'm) \<Rightarrow> (bool \<Rightarrow> size_t \<Rightarrow> 'm HttpResponse \<Rightarrow> 'm HttpResponse)
    \<Rightarrow> ('h, 'a, 'm, 'w) task_world \<Rightarrow> ('h, 'a, 'm, 'w) task_world" where
  "FinalizeManualMode insert_field finish w =
     (case SubmitFinalResponseWriteIfNeeded insert_field finish w of
        (write_stage, w) \<Rightarrow>
          if write_stage = kConnectionUnavailable then w
          else if write_stage \<noteq> kSkippedManualManagement then TryCloseConnection w
          else FinalizeManualConnectionAction w)"

definition FinalizeWebSocketMode ::
  "(string \<Rightarrow> 'm \<Rightarrow> 'm) \<Rightarrow> (bool \<Rightarrow> size_t \<Rightarrow> 'm HttpResponse \<Rightarrow> 'm HttpResponse)
    \<Rightarrow> ('h, 'a, 'm, 'w) task_world \<Rightarrow> ('h, 'a, 'm, 'w) task_world" where
  "FinalizeWebSocketMode insert_field finish w =
     (case SubmitFinalResponseWriteIfNeeded insert_field finish w of
        (write_stage, w) \<Rightarrow>
          if write_stage = kConnectionUnavailable then w
          else if write_stage \<noteq> kWebSocketAcceptPending then TryCloseConnection w
          else snd (TryStartWebSocketUpgradeTask w))"

definition FinalizePostPhaseConnection ::
  "(string \<Rightarrow> 'm \<Rightarrow> 'm) \<Rightarrow> (bool \<Rightarrow> size_t \<Rightarrow> 'm HttpResponse \<Rightarrow> 'm HttpResponse)
    \<Rightarrow> ('h, 'a, 'm, 'w) task_world \<Rightarrow> ('h, 'a, 'm, 'w) task_world" where
  "FinalizePostPhaseConnection insert_field finish w =
     (case ts_connection_mode (tw_state w) of
        kAutomatic \<Rightarrow> FinalizeAutomaticMode insert_field finish w
      | kManual \<Rightarrow> FinalizeManualMode insert_field finish w
      | kWebSocket \<Rightarrow> FinalizeWebSocketMode insert_field finish w)"

section \<open>Hooks and phases\<close>

text \<open>
  The user code: what the hooks of an aspect and the service of a handler call, given the state they
  find. An exception is swallowed, so it only ends the list of calls. \<open>h_late\<close> are calls on a retained
  task of the first phase after its loop has ended.
\<close>

record ('h, 'a, 'm, 'w) hooks =
  h_pre :: "'a \<Rightarrow> ('h, 'a, 'm, 'w) task_world \<Rightarrow> ('m, 'w) task_call list"
  h_late :: "('h, 'a, 'm, 'w) task_world \<Rightarrow> ('m, 'w) task_call list"
  h_service :: "'h \<Rightarrow> ('h, 'a, 'm, 'w) task_world \<Rightarrow> ('m, 'w) task_call list"
  h_post :: "'a \<Rightarrow> ('h, 'a, 'm, 'w) task_world \<Rightarrow> ('m, 'w) task_call list"

definition log_event :: "('h, 'a, 'm) task_event \<Rightarrow> ('h, 'a, 'm, 'w) task_world \<Rightarrow> ('h, 'a, 'm, 'w) task_world" where
  "log_event ev w = w\<lparr>tw_events := tw_events w @ [ev]\<rparr>"

text \<open>
  The loop of \<^verbatim>\<open>DoPreService\<close> over the aspects from index \<open>idx\<close> on; no call changes the list it reads.
\<close>

fun pre_loop :: "('h, 'a, 'm, 'w) hooks \<Rightarrow> nat \<Rightarrow> 'a list \<Rightarrow> ('h, 'a, 'm, 'w) task_world \<Rightarrow> ('h, 'a, 'm, 'w) task_world" where
  "pre_loop H idx [] w = w"
| "pre_loop H idx (a # as) w =
     (if ts_aspect_failure_marked (tw_state w) then w
      else
        (let w = on_state (\<lambda>s. s\<lparr>ts_aspect_unwind_start_index := idx\<rparr>) w;
             w = log_event (PreHook a) w;
             w = run_calls PrePhase (h_pre H a w) w
         in if ts_aspect_failure_marked (tw_state w) then w else pre_loop H (idx + 1) as w))"

definition DoPreService :: "('h, 'a, 'm, 'w) hooks \<Rightarrow> ('h, 'a, 'm, 'w) task_world \<Rightarrow> ('h, 'a, 'm, 'w) task_world" where
  "DoPreService H w =
     (let asps = r_aspects (ts_route_result (tw_state w));
          w = pre_loop H 0 asps w
      in if asps = [] then w else run_calls PrePhase (h_late H w) w)"

definition DoService :: "('h, 'a, 'm, 'w) hooks \<Rightarrow> ('h, 'a, 'm, 'w) task_world \<Rightarrow> ('h, 'a, 'm, 'w) task_world" where
  "DoService H w =
     (case r_handler (ts_route_result (tw_state w)) of
        None \<Rightarrow> w
      | Some h \<Rightarrow> (let w = log_event (ServiceHook h) w in run_calls ServicePhase (h_service H h w) w))"

text \<open>The loop of \<^verbatim>\<open>DoPostService\<close> from index \<open>idx\<close> down to the first aspect.\<close>

fun post_loop :: "('h, 'a, 'm, 'w) hooks \<Rightarrow> 'a list \<Rightarrow> nat \<Rightarrow> ('h, 'a, 'm, 'w) task_world \<Rightarrow> ('h, 'a, 'm, 'w) task_world" where
  "post_loop H asps idx w =
     (let w = log_event (PostHook (asps ! idx)) w;
          w = run_calls PostPhase (h_post H (asps ! idx) w) w
      in case idx of 0 \<Rightarrow> w | Suc n \<Rightarrow> post_loop H asps n w)"

declare post_loop.simps [simp del]

definition DoPostService :: "('h, 'a, 'm, 'w) hooks \<Rightarrow> nat \<Rightarrow> ('h, 'a, 'm, 'w) task_world \<Rightarrow> ('h, 'a, 'm, 'w) task_world" where
  "DoPostService H idx w =
     (let asps = r_aspects (ts_route_result (tw_state w))
      in if idx \<ge> length asps then w else post_loop H asps idx w)"

text \<open>\<^verbatim>\<open>DispatchToConnectionExecutor\<close> drops the job when the server has stopped.\<close>

definition DispatchToConnectionExecutor ::
  "(('h, 'a, 'm, 'w) task_world \<Rightarrow> ('h, 'a, 'm, 'w) task_world) \<Rightarrow> ('h, 'a, 'm, 'w) task_world \<Rightarrow> ('h, 'a, 'm, 'w) task_world" where
  "DispatchToConnectionExecutor job w = (if \<not> IsServerRunning (tw_conn w) then w else job w)"

definition pre_Start :: "('h, 'a, 'm, 'w) hooks \<Rightarrow> ('h, 'a, 'm, 'w) task_world \<Rightarrow> ('h, 'a, 'm, 'w) task_world" where
  "pre_Start H w = (if \<not> ts_conn (tw_state w) then w else DispatchToConnectionExecutor (DoPreService H) w)"

definition service_Start :: "('h, 'a, 'm, 'w) hooks \<Rightarrow> ('h, 'a, 'm, 'w) task_world \<Rightarrow> ('h, 'a, 'm, 'w) task_world" where
  "service_Start H w = (if \<not> ts_conn (tw_state w) then w else DispatchToConnectionExecutor (DoService H) w)"

definition post_Start :: "('h, 'a, 'm, 'w) hooks \<Rightarrow> ('h, 'a, 'm, 'w) task_world \<Rightarrow> ('h, 'a, 'm, 'w) task_world" where
  "post_Start H w =
     (let s = tw_state w; asps = r_aspects (ts_route_result s)
      in if asps = [] then w
         else
           (let idx = (if ts_aspect_failure_marked s then ts_aspect_unwind_start_index s else length asps - 1)
            in if idx \<ge> length asps then w
               else if \<not> ts_conn s then w
               else DispatchToConnectionExecutor (DoPostService H idx) w))"

section \<open>Deleters\<close>

definition HttpPostTaskDeleter ::
  "(string \<Rightarrow> 'm \<Rightarrow> 'm) \<Rightarrow> (bool \<Rightarrow> size_t \<Rightarrow> 'm HttpResponse \<Rightarrow> 'm HttpResponse)
    \<Rightarrow> ('h, 'a, 'm, 'w) task_world \<Rightarrow> ('h, 'a, 'm, 'w) task_world" where
  "HttpPostTaskDeleter insert_field finish w =
     (if \<not> IsTaskEnvironmentAvailable w then TryCloseConnection w
      else FinalizePostPhaseConnection insert_field finish w)"

definition post_task ::
  "(string \<Rightarrow> 'm \<Rightarrow> 'm) \<Rightarrow> (bool \<Rightarrow> size_t \<Rightarrow> 'm HttpResponse \<Rightarrow> 'm HttpResponse)
    \<Rightarrow> ('h, 'a, 'm, 'w) hooks \<Rightarrow> ('h, 'a, 'm, 'w) task_world \<Rightarrow> ('h, 'a, 'm, 'w) task_world" where
  "post_task insert_field finish H w = HttpPostTaskDeleter insert_field finish (post_Start H w)"

definition HttpServerTaskDeleter ::
  "(string \<Rightarrow> 'm \<Rightarrow> 'm) \<Rightarrow> (bool \<Rightarrow> size_t \<Rightarrow> 'm HttpResponse \<Rightarrow> 'm HttpResponse)
    \<Rightarrow> ('h, 'a, 'm, 'w) hooks \<Rightarrow> ('h, 'a, 'm, 'w) task_world \<Rightarrow> ('h, 'a, 'm, 'w) task_world" where
  "HttpServerTaskDeleter insert_field finish H w =
     (if \<not> IsTaskEnvironmentAvailable w then TryCloseConnection w else post_task insert_field finish H w)"

definition HttpPreTaskDeleter ::
  "(string \<Rightarrow> 'm \<Rightarrow> 'm) \<Rightarrow> (bool \<Rightarrow> size_t \<Rightarrow> 'm HttpResponse \<Rightarrow> 'm HttpResponse)
    \<Rightarrow> ('h, 'a, 'm, 'w) hooks \<Rightarrow> ('h, 'a, 'm, 'w) task_world \<Rightarrow> ('h, 'a, 'm, 'w) task_world" where
  "HttpPreTaskDeleter insert_field finish H w =
     (if \<not> IsTaskEnvironmentAvailable w then TryCloseConnection w
      else if ts_aspect_failure_marked (tw_state w) then post_task insert_field finish H w
      else if r_handler (ts_route_result (tw_state w)) = None then TryCloseConnection w
      else HttpServerTaskDeleter insert_field finish H (service_Start H w))"

text \<open>A request from \<^verbatim>\<open>HttpPreServerTask::Create\<close> and \<^verbatim>\<open>Start\<close> to the end of its last task.\<close>

definition run_request ::
  "(string \<Rightarrow> 'm \<Rightarrow> 'm) \<Rightarrow> (bool \<Rightarrow> size_t \<Rightarrow> 'm HttpResponse \<Rightarrow> 'm HttpResponse)
    \<Rightarrow> ('h, 'a, 'm, 'w) hooks \<Rightarrow> ('h, 'a, 'm, 'w) task_world \<Rightarrow> ('h, 'a, 'm, 'w) task_world" where
  "run_request insert_field finish H w = HttpPreTaskDeleter insert_field finish H (pre_Start H w)"
section \<open>Invariants of a life\<close>

fun is_end :: "('h, 'a, 'm) task_event \<Rightarrow> bool" where
  "is_end (PreHook _) = False"
| "is_end (ServiceHook _) = False"
| "is_end (PostHook _) = False"
| "is_end _ = True"

lemma GenerateCookiePairs_keeps [simp]:
  "ts_conn (GenerateCookiePairs s) = ts_conn s" "ts_route_result (GenerateCookiePairs s) = ts_route_result s"
  "ts_aspect_failure_marked (GenerateCookiePairs s) = ts_aspect_failure_marked s"
  "ts_aspect_unwind_start_index (GenerateCookiePairs s) = ts_aspect_unwind_start_index s"
  by (simp_all add: GenerateCookiePairs_def)

lemma GetSessionId_keeps [simp]:
  "ts_conn (snd (GetSessionId f s)) = ts_conn s" "ts_route_result (snd (GetSessionId f s)) = ts_route_result s"
  "ts_aspect_failure_marked (snd (GetSessionId f s)) = ts_aspect_failure_marked s"
  "ts_aspect_unwind_start_index (snd (GetSessionId f s)) = ts_aspect_unwind_start_index s"
  by (auto simp: GetSessionId_def Let_def AddCookie_def split: option.splits prod.splits)

lemmas task_state_defs =
  SetBody_def AppendBody_def SetKeepAlive_def SetManualConnectionManagement_def AddCookie_def GetCookie_def
  MarkAspectFailure_def on_state_def Let_def

text \<open>
  An invariant of the lifecycle: a predicate that survives any change of the shared state that leaves the
  connection pointer and the route alone, the logging of a hook, what the environment does to the
  connection, each of the four endings of a task, and letting go of a connection that is closed. Such a
  predicate holds at the end of a request whatever the hooks do.
\<close>

locale lifecycle_invariant =
  fixes insert_field :: "string \<Rightarrow> 'm \<Rightarrow> 'm"
    and finish :: "bool \<Rightarrow> size_t \<Rightarrow> 'm HttpResponse \<Rightarrow> 'm HttpResponse"
    and I :: "('h, 'a, 'm, 'w) task_world \<Rightarrow> bool"
  assumes state: "I w \<Longrightarrow> ts_conn s = ts_conn (tw_state w) \<Longrightarrow> ts_route_result s = ts_route_result (tw_state w) \<Longrightarrow>
      I (w\<lparr>tw_state := s\<rparr>)"
    and hook: "I w \<Longrightarrow> \<not> is_end ev \<Longrightarrow> I (log_event ev w)"
    and env_close: "I w \<Longrightarrow> I (w\<lparr>tw_conn := DoClose (tw_conn w)\<rparr>)"
    and env_stop: "I w \<Longrightarrow> I (w\<lparr>tw_conn := (tw_conn w)\<lparr>cn_running := False\<rparr>\<rparr>)"
    and close: "I w \<Longrightarrow> ts_conn (tw_state w) \<Longrightarrow> I (clear_conn (end_with EndClose DoClose w))"
    and cycle: "I w \<Longrightarrow> ts_conn (tw_state w) \<Longrightarrow> I (clear_conn (end_with EndCycle DoCycle w))"
    and writes: "I w \<Longrightarrow> ts_conn (tw_state w) \<Longrightarrow>
      I (clear_conn (end_with (EndWrite resp keep_alive) (DoWriteResponse finish resp keep_alive expiry) w))"
    and upgrade: "I w \<Longrightarrow> ts_conn (tw_state w) \<Longrightarrow> I (clear_conn (end_with EndUpgrade websocket_Start w))"
    and drop: "I w \<Longrightarrow> ts_conn (tw_state w) \<Longrightarrow> cn_closed (tw_conn w) \<Longrightarrow> I (clear_conn w)"
begin

lemma on_state: "I w \<Longrightarrow> ts_conn (f (tw_state w)) = ts_conn (tw_state w) \<Longrightarrow>
    ts_route_result (f (tw_state w)) = ts_route_result (tw_state w) \<Longrightarrow> I (on_state f w)"
  unfolding on_state_def by (rule state)

lemma run_call: "I w \<Longrightarrow> I (run_call ph call w)"
  by (cases call)
    (auto simp: run_call_def task_DoClose_def task_DoCycle_def UpgradeToWebSocket_def GetCookie_def Let_def
      SetBody_def AppendBody_def SetKeepAlive_def SetManualConnectionManagement_def AddCookie_def
      MarkAspectFailure_def split: if_splits intro!: on_state state env_close env_stop close cycle)

lemma run_calls: "I w \<Longrightarrow> I (run_calls ph calls w)"
  unfolding run_calls_def by (induction calls arbitrary: w) (simp_all add: run_call)

lemma TryClose: "I w \<Longrightarrow> I (TryCloseConnection w)"
  by (auto simp: TryCloseConnection_def IsStreamAvailable_def intro: close drop)

lemma pre_loop: "I w \<Longrightarrow> I (pre_loop H idx as w)"
proof (induction as arbitrary: idx w)
  case (Cons a as)
  have "I (run_calls PrePhase calls (log_event (PreHook a) (on_state (\<lambda>s. s\<lparr>ts_aspect_unwind_start_index := idx\<rparr>) w)))" for calls
    using Cons.prems by (intro run_calls hook on_state) auto
  then show ?case using Cons by (simp add: Let_def)
qed simp

lemma post_loop: "I w \<Longrightarrow> I (post_loop H as idx w)"
proof (induction idx arbitrary: w)
  case 0
  then show ?case by (subst post_loop.simps) (auto simp: Let_def intro!: run_calls hook)
next
  case (Suc n)
  show ?case by (subst post_loop.simps) (auto simp: Let_def intro!: Suc.IH run_calls hook Suc.prems)
qed

lemma starts:
  assumes "I w"
  shows "I (pre_Start H w)" "I (service_Start H w)" "I (post_Start H w)"
  using assms
  by (auto simp: pre_Start_def service_Start_def post_Start_def DispatchToConnectionExecutor_def DoPreService_def
      DoService_def DoPostService_def Let_def intro!: run_calls pre_loop post_loop hook split: option.split)

lemma append_cookies: "I w \<Longrightarrow> I (w\<lparr>tw_state := AppendSetCookies insert_field (tw_state w)\<rparr>)"
  by (rule state) (simp_all add: AppendSetCookies_def)

lemma submit:
  assumes "I w"
  shows "I (snd (SubmitFinalResponseWriteIfNeeded insert_field finish w))"
proof -
  let ?w = "w\<lparr>tw_state := AppendSetCookies insert_field (tw_state w)\<rparr>"
  have "I (clear_conn (end_with (EndWrite r k) (DoWriteResponse finish r k e) ?w))" if "ts_conn (tw_state w)" for r k e
    using append_cookies [OF assms] that by (intro writes) (simp_all add: AppendSetCookies_def)
  moreover have "I (w\<lparr>tw_state := s\<rparr>)"
    if "ts_conn s = ts_conn (tw_state w)" "ts_route_result s = ts_route_result (tw_state w)" for s
    using assms that by (rule state)
  ultimately show ?thesis
    using assms by (auto simp: SubmitFinalResponseWriteIfNeeded_def Let_def AppendSetCookies_def intro: TryClose)
qed

lemma upgrade_task:
  assumes "I w"
  shows "I (snd (TryStartWebSocketUpgradeTask w))"
proof -
  let ?w = "on_state (\<lambda>s. s\<lparr>ts_websocket_upgrade_handler := None\<rparr>) w"
  have w: "I ?w" using assms by (intro on_state) auto
  have "I (clear_conn (on_state (\<lambda>s. s\<lparr>ts_websocket_upgrade_state := upgrade_kTaskStarted\<rparr>) (end_with EndUpgrade websocket_Start ?w)))"
    if "ts_conn (tw_state w)"
  proof -
    have "I (on_state (\<lambda>s. s\<lparr>ts_websocket_upgrade_state := upgrade_kTaskStarted\<rparr>) (clear_conn (end_with EndUpgrade websocket_Start ?w)))"
      using upgrade [OF w] that by (intro on_state) (auto simp: on_state_def)
    moreover have "s\<lparr>ts_websocket_upgrade_handler := None, ts_conn := False, ts_websocket_upgrade_state := upgrade_kTaskStarted\<rparr>
        = s\<lparr>ts_websocket_upgrade_handler := None, ts_websocket_upgrade_state := upgrade_kTaskStarted, ts_conn := False\<rparr>"
      for s :: "('h, 'a, 'm, 'w) HttpTaskSharedState" by (cases s) simp
    ultimately show ?thesis by (simp add: on_state_def clear_conn_def end_with_def)
  qed
  then show ?thesis
    using assms w TryClose [OF w]
    by (auto simp: TryStartWebSocketUpgradeTask_def TakePendingWebSocketHandler_def on_state_def split: prod.splits)
qed

lemma manual_action: "I w \<Longrightarrow> I (FinalizeManualConnectionAction w)"
  by (auto simp: FinalizeManualConnectionAction_def intro: TryClose close cycle)

lemma finalize: "I w \<Longrightarrow> I (FinalizePostPhaseConnection insert_field finish w)"
  using submit [of w] TryClose [OF submit [of w]] manual_action [OF submit [of w]] upgrade_task [OF submit [of w]]
  by (auto simp: FinalizePostPhaseConnection_def FinalizeAutomaticMode_def FinalizeManualMode_def
      FinalizeWebSocketMode_def split: HttpTaskConnectionLifecycleMode.split prod.split)

lemma post: "I w \<Longrightarrow> I (post_task insert_field finish H w)"
  by (auto simp: post_task_def HttpPostTaskDeleter_def intro: TryClose finalize starts)

theorem run_request: "I w \<Longrightarrow> I (run_request insert_field finish H w)"
  by (auto simp: run_request_def HttpPreTaskDeleter_def HttpServerTaskDeleter_def intro: TryClose post starts)

end

section \<open>One ending\<close>

definition ends :: "('h, 'a, 'm, 'w) task_world \<Rightarrow> ('h, 'a, 'm) task_event list" where
  "ends w = filter is_end (tw_events w)"

text \<open>
  A task that still has its connection has not ended; one that has let go of it has ended once, or found
  the connection closed by another party.
\<close>

definition life_ok :: "('h, 'a, 'm, 'w) task_world \<Rightarrow> bool" where
  "life_ok w \<longleftrightarrow>
     (if ts_conn (tw_state w) then ends w = [] else length (ends w) = 1 \<or> (ends w = [] \<and> cn_closed (tw_conn w)))"

interpretation life: lifecycle_invariant insert_field finish life_ok for insert_field finish
  by unfold_locales
    (auto simp: life_ok_def ends_def clear_conn_def end_with_def log_event_def DoClose_def split: if_splits)

text \<open>The connection as its environment changes it: closed by another party, or its server stopped.\<close>

inductive env_step :: "('h, 'a, 'm) server_connection \<Rightarrow> ('h, 'a, 'm) server_connection \<Rightarrow> bool" where
  "env_step c (DoClose c)"
| "env_step c (c\<lparr>cn_running := False\<rparr>)"

definition conn_life ::
  "(bool \<Rightarrow> size_t \<Rightarrow> 'm HttpResponse \<Rightarrow> 'm HttpResponse) \<Rightarrow> ('h, 'a, 'm HttpResponse) server_connection
    \<Rightarrow> ('h, 'a, 'm, 'w) task_world \<Rightarrow> bool" where
  "conn_life finish c w \<longleftrightarrow>
     (if ts_conn (tw_state w) then env_step\<^sup>*\<^sup>* c (tw_conn w)
      else \<exists>c1 c2. env_step\<^sup>*\<^sup>* c c1 \<and> task_end finish c1 c2 \<and> env_step\<^sup>*\<^sup>* c2 (tw_conn w))"

lemma conn_life_env:
  "conn_life finish c w \<Longrightarrow> env_step (tw_conn w) c' \<Longrightarrow> conn_life finish c (w\<lparr>tw_conn := c'\<rparr>)"
  unfolding conn_life_def by (auto intro: rtranclp.rtrancl_into_rtrancl split: if_splits)

lemma conn_life_end:
  "conn_life finish c w \<Longrightarrow> ts_conn (tw_state w) \<Longrightarrow> task_end finish (tw_conn w) (f (tw_conn w)) \<Longrightarrow>
    conn_life finish c (clear_conn (end_with ev f w))"
  unfolding conn_life_def by (auto simp: clear_conn_def end_with_def)

lemma websocket_Start_ends: "task_end finish c (websocket_Start c)"
  by (auto simp: websocket_Start_def intro: task_end.intros)

interpretation connection: lifecycle_invariant insert_field finish "conn_life finish c" for insert_field finish c
proof unfold_locales
  fix w
  assume w: "conn_life finish c w" "ts_conn (tw_state w)"
  show "conn_life finish c (clear_conn (end_with EndClose DoClose w))"
    "conn_life finish c (clear_conn (end_with EndCycle DoCycle w))"
    "conn_life finish c (clear_conn (end_with EndUpgrade websocket_Start w))"
    by (rule conn_life_end [OF w]; intro task_end.intros websocket_Start_ends)+
  show "conn_life finish c (clear_conn (end_with (EndWrite resp keep_alive) (DoWriteResponse finish resp keep_alive expiry) w))"
    for resp keep_alive expiry by (rule conn_life_end [OF w]) (rule task_end.writes)
  have "task_end finish (tw_conn w) (tw_conn w)" by (rule task_end.drops)
  then show "conn_life finish c (clear_conn w)" using w by (auto simp: conn_life_def clear_conn_def)
next
  fix w
  assume "conn_life finish c w"
  then show "conn_life finish c (w\<lparr>tw_conn := DoClose (tw_conn w)\<rparr>)"
    "conn_life finish c (w\<lparr>tw_conn := (tw_conn w)\<lparr>cn_running := False\<rparr>\<rparr>)"
    by (auto intro!: conn_life_env env_step.intros)
qed (auto simp: conn_life_def log_event_def split: if_splits)

lemma TryClose_clears [simp]: "\<not> ts_conn (tw_state (TryCloseConnection w))"
  by (simp add: TryCloseConnection_def clear_conn_def)

lemma finalize_clears:
  assumes "IsTaskEnvironmentAvailable w"
  shows "\<not> ts_conn (tw_state (FinalizePostPhaseConnection insert_field finish w))"
proof -
  have manual: "\<not> ts_conn (tw_state (FinalizeManualConnectionAction w))"
    by (simp add: FinalizeManualConnectionAction_def clear_conn_def)
  show ?thesis
    using assms manual
    by (cases "ts_connection_mode (tw_state w)")
      (auto simp: FinalizePostPhaseConnection_def FinalizeAutomaticMode_def FinalizeManualMode_def FinalizeWebSocketMode_def
        SubmitFinalResponseWriteIfNeeded_def IsTaskEnvironmentAvailable_def TryStartWebSocketUpgradeTask_def
        TakePendingWebSocketHandler_def on_state_def clear_conn_def Let_def)
qed

lemma run_request_clears: "\<not> ts_conn (tw_state (run_request insert_field finish H w))"
  by (auto simp: run_request_def HttpPreTaskDeleter_def HttpServerTaskDeleter_def post_task_def HttpPostTaskDeleter_def
      finalize_clears)

section \<open>The order of the hooks\<close>

definition hooks_of :: "('h, 'a, 'm, 'w) task_world \<Rightarrow> ('h, 'a, 'm) task_event list" where
  "hooks_of w = filter (\<lambda>ev. \<not> is_end ev) (tw_events w)"

abbreviation failed :: "('h, 'a, 'm, 'w) task_world \<Rightarrow> bool" where
  "failed w \<equiv> ts_aspect_failure_marked (tw_state w)"

abbreviation unwind :: "('h, 'a, 'm, 'w) task_world \<Rightarrow> nat" where
  "unwind w \<equiv> ts_aspect_unwind_start_index (tw_state w)"

abbreviation route_of :: "('h, 'a, 'm, 'w) task_world \<Rightarrow> ('h, 'a) HttpRouteResultInternal" where
  "route_of w \<equiv> ts_route_result (tw_state w)"

lemma hooks_of_simps [simp]:
  "hooks_of (on_state f w) = hooks_of w" "hooks_of (clear_conn w) = hooks_of w" "hooks_of (w\<lparr>tw_conn := c\<rparr>) = hooks_of w"
  "hooks_of (w\<lparr>tw_state := s\<rparr>) = hooks_of w"
  "is_end ev \<Longrightarrow> hooks_of (end_with ev g w) = hooks_of w"
  "\<not> is_end ev \<Longrightarrow> hooks_of (log_event ev w) = hooks_of w @ [ev]"
  by (simp_all add: hooks_of_def on_state_def clear_conn_def end_with_def log_event_def)

lemma log_event_simps [simp]: "tw_state (log_event ev w) = tw_state w" "tw_conn (log_event ev w) = tw_conn w"
  by (simp_all add: log_event_def)

text \<open>What a call leaves alone.\<close>

definition same_frame :: "('h, 'a, 'm, 'w) task_world \<Rightarrow> ('h, 'a, 'm, 'w) task_world \<Rightarrow> bool" where
  "same_frame w w' \<longleftrightarrow> hooks_of w' = hooks_of w \<and> route_of w' = route_of w \<and> unwind w' = unwind w"

lemma run_call_frame: "same_frame w (run_call ph call w) \<and> (ph \<noteq> PrePhase \<longrightarrow> failed (run_call ph call w) = failed w) \<and>
    (failed w \<longrightarrow> failed (run_call ph call w))"
proof (cases call)
  case (CallGetCookie key)
  then show ?thesis by (simp add: run_call_def same_frame_def on_state_def GetCookie_def Let_def)
next
  case (CallUpgradeToWebSocket hnd)
  then show ?thesis by (auto simp: run_call_def same_frame_def UpgradeToWebSocket_def)
qed (auto simp: run_call_def same_frame_def on_state_def task_DoClose_def task_DoCycle_def clear_conn_def end_with_def
    hooks_of_def SetBody_def AppendBody_def SetKeepAlive_def SetManualConnectionManagement_def AddCookie_def MarkAspectFailure_def)

lemma run_calls_frame:
  "same_frame w (run_calls ph calls w) \<and> (ph \<noteq> PrePhase \<longrightarrow> failed (run_calls ph calls w) = failed w) \<and>
    (failed w \<longrightarrow> failed (run_calls ph calls w))"
proof (induction calls arbitrary: w)
  case (Cons call calls)
  then show ?case using run_call_frame [of w ph call] Cons.IH [of "run_call ph call w"]
    by (auto simp: run_calls_def same_frame_def)
qed (simp add: run_calls_def same_frame_def)

lemmas run_calls_simps =
  run_calls_frame [THEN conjunct1, unfolded same_frame_def, THEN conjunct1]
  run_calls_frame [THEN conjunct1, unfolded same_frame_def, THEN conjunct2, THEN conjunct1]
  run_calls_frame [THEN conjunct1, unfolded same_frame_def, THEN conjunct2, THEN conjunct2]

lemma pre_loop_hooks:
  assumes "\<not> failed w"
  shows "\<exists>i\<le>length as. hooks_of (pre_loop H idx as w) = hooks_of w @ map PreHook (take i as) \<and>
    route_of (pre_loop H idx as w) = route_of w \<and>
    (i = 0 \<longrightarrow> as = [] \<and> \<not> failed (pre_loop H idx as w)) \<and> (0 < i \<longrightarrow> unwind (pre_loop H idx as w) = idx + i - 1) \<and>
    (failed (pre_loop H idx as w) \<or> i = length as)"
  using assms
proof (induction as arbitrary: idx w)
  case (Cons a as)
  let ?w1 = "log_event (PreHook a) (on_state (\<lambda>s. s\<lparr>ts_aspect_unwind_start_index := idx\<rparr>) w)"
  let ?w2 = "run_calls PrePhase (h_pre H a ?w1) ?w1"
  have w2: "hooks_of ?w2 = hooks_of w @ [PreHook a]" "route_of ?w2 = route_of w" "unwind ?w2 = idx"
    by (simp_all add: run_calls_simps) (simp_all add: on_state_def)
  have eq: "pre_loop H idx (a # as) w = (if failed ?w2 then ?w2 else pre_loop H (idx + 1) as ?w2)"
    using Cons.prems by (simp add: Let_def)
  show ?case
  proof (cases "failed ?w2")
    case True
    then show ?thesis unfolding eq using w2 by (intro exI [of _ 1]) simp
  next
    case False
    then obtain i where i: "i \<le> length as" "hooks_of (pre_loop H (idx + 1) as ?w2) = hooks_of ?w2 @ map PreHook (take i as)"
      "route_of (pre_loop H (idx + 1) as ?w2) = route_of ?w2" "i = 0 \<longrightarrow> as = [] \<and> \<not> failed (pre_loop H (idx + 1) as ?w2)"
      "0 < i \<longrightarrow> unwind (pre_loop H (idx + 1) as ?w2) = idx + 1 + i - 1"
      "failed (pre_loop H (idx + 1) as ?w2) \<or> i = length as"
      using Cons.IH by blast
    have "i = 0 \<Longrightarrow> unwind (pre_loop H (idx + 1) as ?w2) = idx" using i(4) w2(3) by simp
    then show ?thesis unfolding eq using i w2 False by (intro exI [of _ "i + 1"]) auto
  qed
qed simp

lemma post_loop_hooks:
  "idx < length as \<Longrightarrow> hooks_of (post_loop H as idx w) = hooks_of w @ map PostHook (rev (take (Suc idx) as)) \<and>
    failed (post_loop H as idx w) = failed w"
proof (induction idx arbitrary: w)
  case 0
  then show ?case
    by (subst post_loop.simps, subst (2) post_loop.simps) (cases as; simp add: Let_def run_calls_simps run_calls_frame)
next
  case (Suc n)
  then show ?case
    by (subst post_loop.simps, subst (2) post_loop.simps)
      (simp add: Let_def run_calls_simps run_calls_frame take_Suc_conv_app_nth [of "Suc n"])
qed

lemma TryClose_frame [simp]:
  "hooks_of (TryCloseConnection w) = hooks_of w" "failed (TryCloseConnection w) = failed w"
  by (simp_all add: TryCloseConnection_def) (simp_all add: clear_conn_def end_with_def)

lemma finalize_frame:
  "hooks_of (FinalizePostPhaseConnection insert_field finish w) = hooks_of w \<and>
    failed (FinalizePostPhaseConnection insert_field finish w) = failed w"
proof -
  have submit: "hooks_of (snd (SubmitFinalResponseWriteIfNeeded insert_field finish w)) = hooks_of w \<and>
      failed (snd (SubmitFinalResponseWriteIfNeeded insert_field finish w)) = failed w" for w
    by (simp add: SubmitFinalResponseWriteIfNeeded_def Let_def) (simp add: AppendSetCookies_def clear_conn_def end_with_def)
  have manual: "hooks_of (FinalizeManualConnectionAction w) = hooks_of w \<and> failed (FinalizeManualConnectionAction w) = failed w"
    for w
    by (simp add: FinalizeManualConnectionAction_def) (simp add: clear_conn_def end_with_def)
  have upgrade: "hooks_of (snd (TryStartWebSocketUpgradeTask w)) = hooks_of w \<and> failed (snd (TryStartWebSocketUpgradeTask w)) = failed w"
    for w
    by (simp add: TryStartWebSocketUpgradeTask_def TakePendingWebSocketHandler_def)
      (simp add: on_state_def clear_conn_def end_with_def)
  obtain st w' where s: "SubmitFinalResponseWriteIfNeeded insert_field finish w = (st, w')" by fastforce
  then have "hooks_of w' = hooks_of w" "failed w' = failed w" using submit [of w] by simp_all
  then show ?thesis
    by (simp add: FinalizePostPhaseConnection_def FinalizeAutomaticMode_def FinalizeManualMode_def
        FinalizeWebSocketMode_def s manual upgrade split: HttpTaskConnectionLifecycleMode.split)
qed

lemma post_Start_hooks:
  assumes "route_of w = r" "failed w \<longrightarrow> r_aspects r = [] \<or> unwind w < length (r_aspects r)"
  shows "failed (post_Start H w) = failed w \<and>
    (\<exists>j. (j = 0 \<or> j = (if failed w then unwind w + 1 else length (r_aspects r))) \<and> j \<le> length (r_aspects r) \<and>
      hooks_of (post_Start H w) = hooks_of w @ map PostHook (rev (take j (r_aspects r))))"
proof -
  let ?as = "r_aspects r"
  let ?idx = "if failed w then unwind w else length ?as - 1"
  have eq: "post_Start H w = (if ?as = [] \<or> \<not> ts_conn (tw_state w) \<or> \<not> IsServerRunning (tw_conn w) then w
      else post_loop H ?as ?idx w)"
    using assms by (cases ?as) (auto simp: post_Start_def Let_def DispatchToConnectionExecutor_def DoPostService_def)
  show ?thesis
  proof (cases "?as = [] \<or> \<not> ts_conn (tw_state w) \<or> \<not> IsServerRunning (tw_conn w)")
    case True
    then have "post_Start H w = w" using eq by auto
    then show ?thesis by (auto intro!: exI [of _ 0])
  next
    case False
    then have "?idx < length ?as" using assms(2) by auto
    from post_loop_hooks [OF this, of H w] show ?thesis
      unfolding eq if_not_P [OF False] using False \<open>?idx < length ?as\<close>
      by (intro conjI exI [of _ "Suc ?idx"]) (auto split: if_splits)
  qed
qed

lemma post_task_hooks:
  assumes "route_of w = r" "failed w \<longrightarrow> r_aspects r = [] \<or> unwind w < length (r_aspects r)"
  shows "failed (post_task insert_field finish H w) = failed w \<and>
    (\<exists>j. (j = 0 \<or> j = (if failed w then unwind w + 1 else length (r_aspects r))) \<and> j \<le> length (r_aspects r) \<and>
      hooks_of (post_task insert_field finish H w) = hooks_of w @ map PostHook (rev (take j (r_aspects r))))"
  using post_Start_hooks [OF assms, of H]
  by (simp add: post_task_def HttpPostTaskDeleter_def finalize_frame)

lemma pre_Start_hooks:
  assumes "\<not> failed w" "hooks_of w = []" "r_aspects (route_of w) = as"
  shows "\<exists>i\<le>length as. hooks_of (pre_Start H w) = map PreHook (take i as) \<and> route_of (pre_Start H w) = route_of w \<and>
    (failed (pre_Start H w) \<or> i = length as \<or> \<not> IsTaskEnvironmentAvailable (pre_Start H w)) \<and>
    (failed (pre_Start H w) \<longrightarrow> 0 < i \<and> unwind (pre_Start H w) + 1 = i)"
proof (cases "ts_conn (tw_state w) \<and> IsServerRunning (tw_conn w)")
  case False
  then have "pre_Start H w = w" "\<not> IsTaskEnvironmentAvailable w"
    by (auto simp: pre_Start_def DispatchToConnectionExecutor_def IsTaskEnvironmentAvailable_def)
  then show ?thesis using assms by (intro exI [of _ 0]) simp
next
  case True
  let ?p = "pre_loop H 0 as w"
  let ?l = "if as = [] then ?p else run_calls PrePhase (h_late H ?p) ?p"
  have eq: "pre_Start H w = ?l"
    using True assms(3) by (simp add: pre_Start_def DispatchToConnectionExecutor_def DoPreService_def Let_def)
  obtain i where i: "i \<le> length as" "hooks_of ?p = hooks_of w @ map PreHook (take i as)" "route_of ?p = route_of w"
    "i = 0 \<longrightarrow> as = [] \<and> \<not> failed ?p" "0 < i \<longrightarrow> unwind ?p = 0 + i - 1" "failed ?p \<or> i = length as"
    using pre_loop_hooks [OF assms(1), of as H 0] by blast
  have "hooks_of ?l = hooks_of ?p" "route_of ?l = route_of ?p" "unwind ?l = unwind ?p" "failed ?p \<longrightarrow> failed ?l"
    "as = [] \<longrightarrow> ?l = ?p"
    using run_calls_frame [of ?p PrePhase "h_late H ?p"] by (auto simp: same_frame_def)
  then show ?thesis unfolding eq using i assms(2) by (intro exI [of _ i]) auto
qed

lemma service_Start_hooks:
  "failed (service_Start H w) = failed w \<and> route_of (service_Start H w) = route_of w \<and> unwind (service_Start H w) = unwind w \<and>
    (hooks_of (service_Start H w) = hooks_of w \<or>
     (\<exists>h. r_handler (route_of w) = Some h \<and> hooks_of (service_Start H w) = hooks_of w @ [ServiceHook h]))"
  by (auto simp: service_Start_def DispatchToConnectionExecutor_def DoService_def Let_def run_calls_simps run_calls_frame
      split: option.split)

lemma run_request_hooks:
  assumes "\<not> failed w" "hooks_of w = []" "r_aspects (route_of w) = as"
  shows "\<exists>i j svc. i \<le> length as \<and> (j = 0 \<or> j = i) \<and>
    hooks_of (run_request insert_field finish H w) = map PreHook (take i as) @ svc @ map PostHook (rev (take j as)) \<and>
    (svc = [] \<or> (i = length as \<and> \<not> failed (run_request insert_field finish H w) \<and>
       (\<exists>h. r_handler (route_of w) = Some h \<and> svc = [ServiceHook h])))"
proof -
  let ?p = "pre_Start H w"
  obtain i where i: "i \<le> length as" "hooks_of ?p = map PreHook (take i as)" "route_of ?p = route_of w"
    "failed ?p \<or> i = length as \<or> \<not> IsTaskEnvironmentAvailable ?p" "failed ?p \<longrightarrow> 0 < i \<and> unwind ?p + 1 = i"
    using pre_Start_hooks [OF assms, of H] by (elim exE conjE) (rule that; assumption)
  show ?thesis
  proof (cases "IsTaskEnvironmentAvailable ?p \<and> (failed ?p \<or> r_handler (route_of w) \<noteq> None)")
    case False
    then have "run_request insert_field finish H w = TryCloseConnection ?p"
      using i(3) by (auto simp: run_request_def HttpPreTaskDeleter_def)
    then have "hooks_of (run_request insert_field finish H w) = map PreHook (take i as) @ [] @ map PostHook (rev (take 0 as))"
      using i(2) by simp
    then show ?thesis using i(1) by blast
  next
    case av: True
    show ?thesis
    proof (cases "failed ?p")
      case True
      then have eq: "run_request insert_field finish H w = post_task insert_field finish H ?p"
        using av by (simp add: run_request_def HttpPreTaskDeleter_def)
      have "unwind ?p < length as" using True i by simp
      then have "failed ?p \<longrightarrow> as = [] \<or> unwind ?p < length as" by blast
      note post_task_hooks [OF i(3), unfolded assms(3), OF this, of insert_field finish H]
      then obtain j where "j = 0 \<or> j = i"
        "hooks_of (post_task insert_field finish H ?p) = hooks_of ?p @ map PostHook (rev (take j as))"
        using i(5) True unfolding if_P [OF True] by blast
      moreover have "map PreHook (take i as) @ map PostHook (rev (take j as))
          = map PreHook (take i as) @ [] @ map PostHook (rev (take j as))" by simp
      ultimately show ?thesis unfolding eq using i(1,2) by metis
    next
      case False
      let ?s = "service_Start H ?p"
      have s: "\<not> failed ?s" "route_of ?s = route_of w"
        "hooks_of ?s = hooks_of ?p \<or> (\<exists>h. r_handler (route_of w) = Some h \<and> hooks_of ?s = hooks_of ?p @ [ServiceHook h])"
        using service_Start_hooks [of H ?p] False i(3) by auto
      have full: "i = length as" using i(4) av False by blast
      obtain svc where svc: "hooks_of ?s = map PreHook (take i as) @ svc"
        "svc = [] \<or> (\<exists>h. r_handler (route_of w) = Some h \<and> svc = [ServiceHook h])"
      proof (cases "hooks_of ?s = hooks_of ?p")
        case True
        then show thesis using that [of "[]"] i(2) by simp
      next
        case False
        then show thesis using that s(3) i(2) by metis
      qed
      have eq: "run_request insert_field finish H w =
          (if IsTaskEnvironmentAvailable ?s then post_task insert_field finish H ?s else TryCloseConnection ?s)"
        using av False i(3) by (auto simp: run_request_def HttpPreTaskDeleter_def HttpServerTaskDeleter_def)
      obtain j where j: "j = 0 \<or> j = length as"
        "hooks_of (run_request insert_field finish H w) = hooks_of ?s @ map PostHook (rev (take j as))"
        "\<not> failed (run_request insert_field finish H w)"
      proof (cases "IsTaskEnvironmentAvailable ?s")
        case True
        then have "run_request insert_field finish H w = post_task insert_field finish H ?s" using eq by simp
        moreover have "failed ?s \<longrightarrow> as = [] \<or> unwind ?s < length as" using s(1) by blast
        note post_task_hooks [OF s(2), unfolded assms(3), OF this, of insert_field finish H]
        ultimately show thesis using s(1) that unfolding if_not_P [OF s(1)] by metis
      next
        case False
        then show thesis using that [of 0] s(1) eq by simp
      qed
      have "j = 0 \<or> j = i" using j(1) full by simp
      moreover have "hooks_of (run_request insert_field finish H w)
          = map PreHook (take i as) @ svc @ map PostHook (rev (take j as))"
        using j(2) svc(1) by simp
      ultimately show ?thesis using i(1) svc(2) j(3) full by blast
    qed
  qed
qed

section \<open>Calm requests\<close>

text \<open>
  Hooks that leave the end of the request to the framework, on a connection that nobody else closes.
\<close>

fun calm_call :: "('m, 'w) task_call \<Rightarrow> bool" where
  "calm_call CallDoClose = False"
| "calm_call CallDoCycle = False"
| "calm_call EnvClose = False"
| "calm_call EnvStop = False"
| "calm_call _ = True"

definition calm_hooks :: "('h, 'a, 'm, 'w) hooks \<Rightarrow> bool" where
  "calm_hooks H \<longleftrightarrow>
     (\<forall>a w. list_all calm_call (h_pre H a w)) \<and> (\<forall>w. list_all calm_call (h_late H w)) \<and>
     (\<forall>h w. list_all calm_call (h_service H h w)) \<and> (\<forall>a w. list_all calm_call (h_post H a w))"

text \<open>What calm calls keep: the connection as it is, and a handler behind every marked upgrade.\<close>

definition calm_frame :: "('h, 'a, 'm, 'w) task_world \<Rightarrow> ('h, 'a, 'm, 'w) task_world \<Rightarrow> bool" where
  "calm_frame w w' \<longleftrightarrow>
     tw_conn w' = tw_conn w \<and> ts_conn (tw_state w') = ts_conn (tw_state w) \<and>
     (ts_connection_mode (tw_state w') = kWebSocket \<longrightarrow> ts_websocket_upgrade_handler (tw_state w') \<noteq> None)"

abbreviation upgrade_ok :: "('h, 'a, 'm, 'w) task_world \<Rightarrow> bool" where
  "upgrade_ok w \<equiv> ts_connection_mode (tw_state w) = kWebSocket \<longrightarrow> ts_websocket_upgrade_handler (tw_state w) \<noteq> None"

lemma cookie_calls_mode [simp]:
  "ts_connection_mode (GenerateCookiePairs s) = ts_connection_mode s"
  "ts_websocket_upgrade_handler (GenerateCookiePairs s) = ts_websocket_upgrade_handler s"
  "ts_connection_mode (snd (GetSessionId f s)) = ts_connection_mode s"
  "ts_websocket_upgrade_handler (snd (GetSessionId f s)) = ts_websocket_upgrade_handler s"
  by (auto simp: GenerateCookiePairs_def GetSessionId_def Let_def AddCookie_def split: option.splits prod.splits)

lemma calm_run_call: "calm_call call \<Longrightarrow> upgrade_ok w \<Longrightarrow> calm_frame w (run_call ph call w)"
  by (cases call)
    (auto simp: run_call_def calm_frame_def on_state_def UpgradeToWebSocket_def GetCookie_def Let_def
      SetBody_def AppendBody_def SetKeepAlive_def SetManualConnectionManagement_def AddCookie_def MarkAspectFailure_def)

lemma calm_run_calls: "list_all calm_call calls \<Longrightarrow> upgrade_ok w \<Longrightarrow> calm_frame w (run_calls ph calls w)"
proof (induction calls arbitrary: w)
  case (Cons call calls)
  then show ?case using calm_run_call [of call w ph] Cons.IH [of "run_call ph call w"]
    by (auto simp: run_calls_def calm_frame_def)
qed (simp add: run_calls_def calm_frame_def)

lemma calm_pre_loop: "calm_hooks H \<Longrightarrow> upgrade_ok w \<Longrightarrow> calm_frame w (pre_loop H idx as w)"
proof (induction as arbitrary: idx w)
  case (Cons a as)
  let ?w1 = "log_event (PreHook a) (on_state (\<lambda>s. s\<lparr>ts_aspect_unwind_start_index := idx\<rparr>) w)"
  let ?w2 = "run_calls PrePhase (h_pre H a ?w1) ?w1"
  have "calm_frame ?w1 ?w2"
    using Cons.prems by (intro calm_run_calls) (auto simp: calm_hooks_def on_state_def)
  then have "calm_frame w ?w2" by (simp add: calm_frame_def on_state_def)
  moreover from this have "calm_frame ?w2 (pre_loop H (idx + 1) as ?w2)"
    using Cons.IH [of ?w2 "idx + 1"] Cons.prems by (simp add: calm_frame_def)
  moreover have "calm_frame w w" using Cons.prems by (simp add: calm_frame_def)
  ultimately show ?case by (auto simp: Let_def calm_frame_def)
qed (simp add: calm_frame_def)

lemma calm_post_loop: "calm_hooks H \<Longrightarrow> upgrade_ok w \<Longrightarrow> calm_frame w (post_loop H as idx w)"
proof (induction idx arbitrary: w)
  case 0
  have "calm_frame (log_event (PostHook (as ! 0)) w) (run_calls PostPhase (h_post H (as ! 0) (log_event (PostHook (as ! 0)) w)) (log_event (PostHook (as ! 0)) w))"
    using 0 by (intro calm_run_calls) (auto simp: calm_hooks_def)
  then show ?case by (subst post_loop.simps) (simp add: Let_def calm_frame_def)
next
  case (Suc n)
  let ?w1 = "log_event (PostHook (as ! Suc n)) w"
  let ?w2 = "run_calls PostPhase (h_post H (as ! Suc n) ?w1) ?w1"
  have f: "calm_frame ?w1 ?w2" using Suc.prems by (intro calm_run_calls) (auto simp: calm_hooks_def)
  then have "calm_frame ?w2 (post_loop H as n ?w2)" using Suc.IH [of ?w2] Suc.prems by (simp add: calm_frame_def)
  with f show ?case by (subst post_loop.simps) (auto simp: Let_def calm_frame_def)
qed

lemma calm_frame_trans: "calm_frame u v \<Longrightarrow> calm_frame v w \<Longrightarrow> calm_frame u w"
  by (simp add: calm_frame_def)

lemma calm_available:
  "calm_frame w w' \<Longrightarrow> IsTaskEnvironmentAvailable w \<Longrightarrow> IsTaskEnvironmentAvailable w' \<and> upgrade_ok w'"
  by (simp add: calm_frame_def IsTaskEnvironmentAvailable_def)

lemma calm_starts:
  assumes "calm_hooks H" "upgrade_ok w" "IsTaskEnvironmentAvailable w"
  shows "calm_frame w (pre_Start H w)" "calm_frame w (service_Start H w)" "calm_frame w (post_Start H w)"
proof -
  let ?as = "r_aspects (route_of w)" and ?p = "pre_loop H 0 (r_aspects (route_of w)) w"
  have w: "calm_frame w w" using assms(2) by (simp add: calm_frame_def)
  have p: "calm_frame w ?p" by (rule calm_pre_loop [OF assms(1,2)])
  then have "calm_frame ?p (run_calls PrePhase (h_late H ?p) ?p)"
    using assms(1) by (intro calm_run_calls) (auto simp: calm_hooks_def calm_frame_def)
  then have "calm_frame w (run_calls PrePhase (h_late H ?p) ?p)" by (rule calm_frame_trans [OF p])
  with w p show "calm_frame w (pre_Start H w)"
    by (auto simp: pre_Start_def DispatchToConnectionExecutor_def DoPreService_def Let_def)
  have "calm_frame (log_event (ServiceHook h) w) (run_calls ServicePhase (h_service H h (log_event (ServiceHook h) w)) (log_event (ServiceHook h) w))" for h
    using assms by (intro calm_run_calls) (auto simp: calm_hooks_def)
  then have "calm_frame w (run_calls ServicePhase (h_service H h (log_event (ServiceHook h) w)) (log_event (ServiceHook h) w))" for h
    by (simp add: calm_frame_def)
  with w show "calm_frame w (service_Start H w)"
    by (auto simp: service_Start_def DispatchToConnectionExecutor_def DoService_def Let_def split: option.split)
  show "calm_frame w (post_Start H w)"
    using w calm_post_loop [OF assms(1,2)]
    by (auto simp: post_Start_def DispatchToConnectionExecutor_def DoPostService_def Let_def)
qed

text \<open>The one thing a task does to a healthy connection at its end, by the mode it is in.\<close>

definition final_event :: "(string \<Rightarrow> 'm \<Rightarrow> 'm) \<Rightarrow> ('h, 'a, 'm, 'w) HttpTaskSharedState \<Rightarrow> ('h, 'a, 'm) task_event" where
  "final_event insert_field s =
     (case ts_connection_mode s of
        kAutomatic \<Rightarrow>
          EndWrite \<lparr>rs_header = append_cookies_loop insert_field (ts_set_cookies s) (rs_header (ts_resp s)),
                    rs_body = rs_body (ts_resp s)\<rparr> (ts_keep_alive s)
      | kManual \<Rightarrow> if ts_keep_alive s then EndCycle else EndClose
      | kWebSocket \<Rightarrow> EndUpgrade)"

lemma finalize_event:
  assumes "IsTaskEnvironmentAvailable w" "upgrade_ok w"
  shows "ends (FinalizePostPhaseConnection insert_field finish w) = ends w @ [final_event insert_field (tw_state w)]"
  using assms
  by (cases "ts_connection_mode (tw_state w)")
    (auto simp: FinalizePostPhaseConnection_def FinalizeAutomaticMode_def FinalizeManualMode_def FinalizeWebSocketMode_def
      SubmitFinalResponseWriteIfNeeded_def FinalizeManualConnectionAction_def TryStartWebSocketUpgradeTask_def
      TakePendingWebSocketHandler_def IsTaskEnvironmentAvailable_def AppendSetCookies_def on_state_def clear_conn_def
      end_with_def ends_def final_event_def Let_def)

lemma post_Start_full:
  assumes "ts_conn (tw_state w)" "IsServerRunning (tw_conn w)" "failed w \<longrightarrow> unwind w < length (r_aspects (route_of w))"
  shows "hooks_of (post_Start H w) = hooks_of w @
    map PostHook (rev (take (if failed w then unwind w + 1 else length (r_aspects (route_of w))) (r_aspects (route_of w))))"
proof (cases "r_aspects (route_of w) = []")
  case False
  let ?as = "r_aspects (route_of w)"
  let ?idx = "if failed w then unwind w else length ?as - 1"
  have idx: "?idx < length ?as" using assms(3) False by (cases ?as) auto
  then have "post_Start H w = post_loop H ?as ?idx w"
    using assms(1,2) False by (simp add: post_Start_def Let_def DispatchToConnectionExecutor_def DoPostService_def)
  moreover have "Suc ?idx = (if failed w then unwind w + 1 else length ?as)" using False by (cases ?as) auto
  ultimately show ?thesis using post_loop_hooks [OF idx, of H w] by simp
qed (simp add: post_Start_def Let_def)

lemma service_Start_full:
  "IsTaskEnvironmentAvailable w \<Longrightarrow> r_handler (route_of w) = Some h \<Longrightarrow>
    hooks_of (service_Start H w) = hooks_of w @ [ServiceHook h]"
  by (simp add: service_Start_def DispatchToConnectionExecutor_def DoService_def IsTaskEnvironmentAvailable_def Let_def
      run_calls_simps)

lemma ends_no_calls: "tw_events w = [] \<Longrightarrow> ends w = []" "tw_events w = [] \<Longrightarrow> hooks_of w = []"
  by (simp_all add: ends_def hooks_of_def)

section \<open>Properties\<close>

text \<open>
  (C4) However the hooks behave, and whatever happens to the connection meanwhile, a request lets go of
  its connection exactly when it has ended: it writes one response, or cycles, or closes, or hands over to
  a WebSocket, exactly once, unless another party had closed the connection before.
\<close>

theorem request_ends_exactly_once:
  assumes "ts_conn (tw_state w)" "tw_events w = []"
  shows "\<not> ts_conn (tw_state (run_request insert_field finish H w)) \<and>
    (length (ends (run_request insert_field finish H w)) = 1 \<or>
     (ends (run_request insert_field finish H w) = [] \<and> cn_closed (tw_conn (run_request insert_field finish H w))))"
proof -
  have "life_ok w" using assms by (simp add: life_ok_def ends_def)
  from life.run_request [OF this, of insert_field finish H] show ?thesis
    using run_request_clears [of insert_field finish H w] by (simp add: life_ok_def)
qed

text \<open>
  (C34) Seen from its connection, a whole request is one step: after whatever the environment did, the task
  takes one of the ways to end that the connection allows, and only the environment acts after that.
\<close>

theorem request_is_one_step_of_its_connection:
  assumes "ts_conn (tw_state w)"
  shows "\<exists>c1 c2. env_step\<^sup>*\<^sup>* (tw_conn w) c1 \<and> task_end finish c1 c2 \<and>
    env_step\<^sup>*\<^sup>* c2 (tw_conn (run_request insert_field finish H w))"
proof -
  have "conn_life finish (tw_conn w) w" using assms by (simp add: conn_life_def)
  from connection.run_request [OF this, of insert_field H] show ?thesis
    using run_request_clears [of insert_field finish H w] by (simp add: conn_life_def)
qed


text \<open>
  On a healthy connection, with hooks that leave its end to the framework, everything runs: without a
  marked failure all pre hooks, the handler and all post hooks, and with one the post hooks of exactly the
  aspects entered so far. Then the task ends by its mode: it writes the response the hooks built with the
  cookies they added, or cycles or closes by the keep-alive flag, or starts the upgrade.
\<close>

theorem calm_request_runs_to_its_end:
  assumes "calm_hooks H" "tw_state w = CreateTaskState empty_header cookie_field is_upgrade r" "tw_events w = []"
    "conn_usable (tw_conn w)" "r_handler r = Some h"
  shows "let p = pre_Start H w; v = post_Start H (if failed p then p else service_Start H p);
             w' = run_request insert_field finish H w
    in hooks_of w' =
        (if failed p
         then map PreHook (take (unwind p + 1) (r_aspects r)) @ map PostHook (rev (take (unwind p + 1) (r_aspects r)))
         else map PreHook (r_aspects r) @ [ServiceHook h] @ map PostHook (rev (r_aspects r))) \<and>
       ends w' = [final_event insert_field (tw_state v)]"
proof -
  have w: "\<not> failed w" "hooks_of w = []" "ends w = []" "upgrade_ok w" "IsTaskEnvironmentAvailable w" "route_of w = r"
    "ts_conn (tw_state w)"
    using assms(2-4) by (simp_all add: CreateTaskState_def hooks_of_def ends_def IsTaskEnvironmentAvailable_def conn_usable_def)
  let ?p = "pre_Start H w"
  let ?s = "if failed ?p then ?p else service_Start H ?p"
  let ?v = "post_Start H ?s"
  have p: "calm_frame w ?p" using calm_starts(1) [OF assms(1) w(4,5)] .
  note pa = calm_available [OF p w(5)]
  have s: "calm_frame ?p ?s"
    using calm_starts(2) [OF assms(1) pa [THEN conjunct2] pa [THEN conjunct1]] pa by (simp add: calm_frame_def)
  note sa = calm_available [OF s pa [THEN conjunct1]]
  have v: "calm_frame ?s ?v" using calm_starts(3) [OF assms(1) sa [THEN conjunct2] sa [THEN conjunct1]] .
  note va = calm_available [OF v sa [THEN conjunct1]]
  obtain i where i: "i \<le> length (r_aspects r)" "hooks_of ?p = map PreHook (take i (r_aspects r))" "route_of ?p = r"
    "failed ?p \<or> i = length (r_aspects r)" "failed ?p \<longrightarrow> 0 < i \<and> unwind ?p + 1 = i"
    using pre_Start_hooks [OF w(1,2), of "r_aspects r" H] w(6) pa by auto
  have run: "run_request insert_field finish H w = FinalizePostPhaseConnection insert_field finish ?v"
    using pa sa va i(3) assms(5)
    by (auto simp: run_request_def HttpPreTaskDeleter_def HttpServerTaskDeleter_def post_task_def HttpPostTaskDeleter_def split: if_splits)
  have hs: "hooks_of ?s = hooks_of ?p @ (if failed ?p then [] else [ServiceHook h])" "failed ?s = failed ?p"
    "unwind ?s = unwind ?p" "route_of ?s = r"
    using service_Start_full [OF pa [THEN conjunct1], of h H] service_Start_hooks [of H ?p] i(3) assms(5) by auto
  have "ts_conn (tw_state ?s)" "IsServerRunning (tw_conn ?s)" using sa by (simp_all add: IsTaskEnvironmentAvailable_def)
  from post_Start_full [OF this, of H] hs i
  have "hooks_of ?v = map PreHook (take i (r_aspects r)) @ (if failed ?p then [] else [ServiceHook h])
      @ map PostHook (rev (take i (r_aspects r)))"
    by (cases "failed ?p") auto
  moreover have "life_ok w" using w(3,7) by (simp add: life_ok_def)
  then have "life_ok ?v" by (cases "failed ?p") (simp_all add: life.starts)
  then have "ends ?v = []" using va by (simp add: life_ok_def IsTaskEnvironmentAvailable_def)
  ultimately show ?thesis
    using i va finalize_frame [of insert_field finish ?v] finalize_event [of ?v insert_field finish]
    by (auto simp: Let_def run)
qed

section \<open>Examples\<close>

text \<open>
  Aspects are numbers and headers are lists of cookie texts. The hooks add a cookie in the first pre hook
  and set the body in the handler; aspect 13 marks a failure.
\<close>

definition demo_hooks :: "(nat, nat, string list, unit) hooks" where
  "demo_hooks =
     \<lparr>h_pre = (\<lambda>a w. if a = 13 then [CallMarkAspectFailure, CallSetBody ''no'']
                     else [CallAddCookie (SetValue ''v'' (SetName ''n'' new_ServerSetCookie))]),
      h_late = (\<lambda>w. []), h_service = (\<lambda>h w. [CallSetBody ''ok'', CallSetKeepAlive False]), h_post = (\<lambda>a w. [])\<rparr>"

definition demo_request :: "nat list \<Rightarrow> (nat, nat, string list, unit) task_world" where
  "demo_request asps =
     \<lparr>tw_state = CreateTaskState [] [] False (empty_route_result\<lparr>r_aspects := asps, r_handler := Some 7\<rparr>),
      tw_conn = drop_op OpTask (new_server_connection 5 60), tw_events = []\<rparr>"

definition demo_run :: "nat list \<Rightarrow> (nat, nat, string list, unit) task_world" where
  "demo_run asps = run_request (\<lambda>c h. h @ [c]) (\<lambda>_ _ m. m) demo_hooks (demo_request asps)"

lemma demo_request_simps [simp]:
  "ts_conn (tw_state (demo_request asps))" "tw_events (demo_request asps) = []" "\<not> failed (demo_request asps)"
  "r_aspects (route_of (demo_request asps)) = asps" "r_handler (route_of (demo_request asps)) = Some 7"
  by (simp_all add: demo_request_def CreateTaskState_def)

theorem request_ends_exactly_once_witness:
  "length (ends (demo_run [1, 2])) = 1 \<or> (ends (demo_run [1, 2]) = [] \<and> cn_closed (tw_conn (demo_run [1, 2])))"
  unfolding demo_run_def
  using request_ends_exactly_once [of "demo_request [1, 2]" "\<lambda>c h. h @ [c]" "\<lambda>_ _ m. m" demo_hooks] by simp

theorem request_is_one_step_of_its_connection_witness:
  "\<exists>c1 c2. env_step\<^sup>*\<^sup>* (tw_conn (demo_request [1])) c1 \<and> task_end (\<lambda>_ _ m. m) c1 c2 \<and> env_step\<^sup>*\<^sup>* c2 (tw_conn (demo_run [1]))"
  unfolding demo_run_def
  by (rule request_is_one_step_of_its_connection) simp


theorem calm_request_runs_to_its_end_witness:
  "ends (demo_run [1, 2]) = [EndWrite \<lparr>rs_header = [''n=v'', ''n=v''], rs_body = ''ok''\<rparr> False]"
proof -
  let ?w = "demo_request [1, 2]" and ?r = "empty_route_result\<lparr>r_aspects := [1, 2], r_handler := Some 7\<rparr>"
  have calm: "calm_hooks demo_hooks" by (simp add: calm_hooks_def demo_hooks_def)
  have st: "tw_state ?w = CreateTaskState [] [] False ?r" by (simp add: demo_request_def)
  have cu: "conn_usable (tw_conn ?w)" by code_simp
  have hd: "r_handler ?r = Some 7" by simp
  have "ends (demo_run [1, 2]) = [final_event (\<lambda>c h. h @ [c]) (tw_state (post_Start demo_hooks
      (if failed (pre_Start demo_hooks ?w) then pre_Start demo_hooks ?w else service_Start demo_hooks (pre_Start demo_hooks ?w))))]"
    using calm_request_runs_to_its_end [OF calm st demo_request_simps(2) cu hd, of "\<lambda>c h. h @ [c]" "\<lambda>_ _ m. m"]
    unfolding demo_run_def Let_def by (rule conjunct2)
  also have "\<dots> = [EndWrite \<lparr>rs_header = [''n=v'', ''n=v''], rs_body = ''ok''\<rparr> False]" by code_simp
  finally show ?thesis .
qed

end
