(* ===== verification/Cookie_Exchange.thy ===== *)
theory Cookie_Exchange
  imports Task_State
begin

text \<open>
  Client and server together: the \<^verbatim>\<open>Cookie\<close> field that a client's jar prints, as the server's task reads
  it, and the way of a session id from the server through the jar and back.
\<close>

section \<open>Cookies that can be sent\<close>

definition sendable :: "Cookie \<Rightarrow> bool" where
  "sendable c \<longleftrightarrow>
     c_name c \<noteq> [] \<and> CHR '';'' \<notin> set (c_name c) \<and> CHR ''='' \<notin> set (c_name c) \<and> TrimView (c_name c) = c_name c \<and>
     CHR '';'' \<notin> set (c_value c) \<and> TrimView (c_value c) = c_value c"

lemma TrimView_set: "set (TrimView s) \<subseteq> set s"
  unfolding TrimView_def trim_by_eq by (auto dest!: set_dropWhileD)

lemma SplitOnce_parts:
  assumes "SplitOnce s d = (k, v)"
  shows "d \<notin> set k \<and> set k \<subseteq> set s \<and> set v \<subseteq> set s"
proof (cases "find_char d s")
  case None
  then have "k = s" "v = []" using assms by (simp_all add: SplitOnce_def)
  moreover have "d \<notin> set s" using None by (simp add: find_char_None_iff)
  ultimately show ?thesis by simp
next
  case (Some i)
  note f = find_char_SomeD [OF Some]
  have "k = take i s" "v = drop (i + 1) s" using assms Some by (auto simp: SplitOnce_def substr_def)
  then show ?thesis using f(3) set_take_subset [of i s] set_drop_subset [of "i + 1" s] by auto
qed

lemma ParseSetCookieValue_sendable:
  assumes "ParseSetCookieValue g now host target val = Some c"
  shows "sendable c"
proof -
  let ?tokens = "SplitSetCookieTokens (TrimView val)"
  obtain nv vv where sp: "SplitOnce (hd ?tokens) CHR ''='' = (nv, vv)" by fastforce
  let ?k = "\<lparr>c_name = TrimView nv, c_value = TrimView vv, c_domain = NormalizeHost host, c_host_only = True,
             c_path = DefaultPathFromTarget target, c_secure = False, c_expiry = None\<rparr>"
  obtain c1 x where p: "TrimView nv \<noteq> []" "?tokens \<noteq> []"
    "apply_attributes g (NormalizeHost host) (tl ?tokens) (?k, no_expiry_info) = Some (c1, x)"
    "c = snd (ComputeAndApplyExpiry now x c1)"
    using assms sp by (auto simp: ParseSetCookieValue_def Let_def split: if_splits option.splits prod.splits)
  obtain f where f: "f \<in> set (split_on CHR '';'' (TrimView val))" "hd ?tokens = TrimView f"
  proof -
    have "?tokens = map TrimView (split_fields (TrimView val))" by (rule SplitSetCookieTokens_eq)
    then have "hd ?tokens \<in> TrimView ` set (split_fields (TrimView val))" using p(2) by (metis hd_in_set set_map)
    moreover have "set (split_fields (TrimView val)) \<subseteq> set (split_on CHR '';'' (TrimView val))"
      by (auto simp: split_fields_def Let_def dest: in_set_butlastD)
    ultimately show thesis using that by auto
  qed
  have "CHR '';'' \<notin> set (hd ?tokens)" using split_on_fields [OF f(1)] TrimView_set [of f] f(2) by auto
  then have k: "CHR '';'' \<notin> set nv" "CHR '';'' \<notin> set vv" "CHR ''='' \<notin> set nv" using SplitOnce_parts [OF sp] by auto
  have "c_name c = TrimView nv" "c_value c = TrimView vv \<or> c_value c = []"
    using apply_attributes_name [OF p(3)] p(4) by (auto simp: ComputeAndApplyExpiry_def split: option.splits)
  moreover have "TrimView (TrimView s) = TrimView s" "TrimView [] = []" for s
    by (simp_all add: TrimView_def) (simp add: trim_by_eq)
  ultimately show ?thesis using p(1) k TrimView_set [of nv] TrimView_set [of vv] unfolding sendable_def by auto
qed

definition jar_sendable :: "jar \<Rightarrow> bool" where
  "jar_sendable cookies \<longleftrightarrow> (\<forall>c\<in>set cookies. sendable c)"

lemma jar_sendable_Upsert: "jar_sendable cookies \<Longrightarrow> sendable c \<Longrightarrow> jar_sendable (UpsertCookieLocked c cookies)"
  by (induction c cookies rule: UpsertCookieLocked.induct) (auto simp: jar_sendable_def sendable_def same_cookie_def)

lemma jar_sendable_Sync:
  "jar_sendable cookies \<Longrightarrow> jar_sendable (SyncSetCookie g now1 now2 now3 host target val cookies)"
proof -
  assume j: "jar_sendable cookies"
  have f: "jar_sendable (filter P (filter Q cookies))" "jar_sendable (filter Q cookies)" for P Q
    using j by (auto simp: jar_sendable_def)
  show ?thesis
    unfolding SyncSetCookie_def UpsertFromSetCookieLocked_def CleanupExpiredLocked_def
    using f ParseSetCookieValue_sendable by (auto split: option.split intro!: jar_sendable_Upsert)
qed

section \<open>Reading what was printed\<close>

definition unquote :: "string \<Rightarrow> string" where
  "unquote v = (if length v \<ge> 2 \<and> hd v = CHR 0x22 \<and> last v = CHR 0x22 then take (length v - 2) (drop 1 v) else v)"

definition cookie_pair :: "Cookie \<Rightarrow> string" where
  "cookie_pair c = c_name c @ ''='' @ c_value c"

lemma trimmed_ends: "TrimView s = s \<Longrightarrow> s \<noteq> [] \<Longrightarrow> \<not> view_ws (hd s) \<and> \<not> view_ws (last s)"
  using trim_by_result [of view_ws s] by (simp add: TrimView_def)

lemma TrimCookieView_eq: "TrimCookieView = TrimView"
  by (auto simp: TrimCookieView_def TrimView_def)

lemma sendable_pair_trimmed:
  assumes "sendable c"
  shows "TrimView (cookie_pair c) = cookie_pair c"
proof -
  have "\<not> view_ws (hd (cookie_pair c))" using assms trimmed_ends [of "c_name c"] by (simp add: sendable_def cookie_pair_def)
  moreover have "\<not> view_ws (last (cookie_pair c))"
    using assms trimmed_ends [of "c_value c"] by (cases "c_value c = []") (auto simp: sendable_def cookie_pair_def view_ws_def)
  ultimately show ?thesis unfolding TrimView_def by (intro trim_by_id) blast
qed

lemma ParseCookiePairView_pair:
  assumes "sendable c"
  shows "ParseCookiePairView (cookie_pair c) = (c_name c, unquote (c_value c))"
proof -
  have "find_char CHR ''='' (cookie_pair c) = Some (length (c_name c))"
    using assms by (simp add: cookie_pair_def sendable_def find_char_append)
  moreover have "cookie_pair c \<noteq> []" by (simp add: cookie_pair_def)
  moreover have "take (length (c_name c)) (cookie_pair c) = c_name c" "drop (length (c_name c) + 1) (cookie_pair c) = c_value c"
    by (simp_all add: cookie_pair_def)
  ultimately show ?thesis
    using assms sendable_pair_trimmed [OF assms]
    by (simp add: ParseCookiePairView_def TrimCookieView_eq substr_def Let_def unquote_def sendable_def)
qed

lemma print_cookies_parts: "print_cookies (d # ds) = print_parts (cookie_pair d) (map cookie_pair ds)"
  by (simp add: print_cookies_def print_parts_def cookie_pair_def comp_def)

lemma SplitCookieHeader_print:
  assumes "\<forall>c\<in>set cs. sendable c"
  shows "SplitCookieHeaderUsingSplit (print_cookies cs) = map cookie_pair cs"
proof (cases cs)
  case (Cons d ds)
  have "CHR '';'' \<notin> set (cookie_pair c)" if "c \<in> set cs" for c using assms that by (auto simp: sendable_def cookie_pair_def)
  then have "split_on CHR '';'' (print_cookies cs) = cookie_pair d # map (\<lambda>q. CHR '' '' # q) (map cookie_pair ds)"
    unfolding Cons print_cookies_parts by (intro split_print_parts) (auto simp: Cons)
  moreover have "TrimView (CHR '' '' # cookie_pair c) = cookie_pair c" if "sendable c" for c
    using sendable_pair_trimmed [OF that] by (simp add: TrimView_def trim_by_Cons_ws view_ws_def)
  moreover have "print_cookies cs \<noteq> []" by (simp add: Cons print_cookies_def)
  ultimately show ?thesis
    using assms sendable_pair_trimmed by (simp add: SplitCookieHeaderUsingSplit_def TrimCookieView_eq Cons)
qed (simp add: print_cookies_def SplitCookieHeaderUsingSplit_def)

lemma cookie_pairs_loop_map:
  "\<forall>c\<in>set cs. sendable c \<Longrightarrow>
    cookie_pairs_loop (map cookie_pair cs) m = fold (\<lambda>c. insert_or_assign (c_name c) (unquote (c_value c))) cs m"
  by (induction cs arbitrary: m) (auto simp: ParseCookiePairView_pair, simp add: sendable_def)

lemma map_of_fold_assign:
  "map_of (fold (\<lambda>c. insert_or_assign (f c) (g c)) cs m) k
    = (case find (\<lambda>c. f c = k) (rev cs) of Some c \<Rightarrow> Some (g c) | None \<Rightarrow> map_of m k)"
proof (induction cs arbitrary: m)
  case (Cons c cs)
  have "find P (xs @ [c]) = (case find P xs of None \<Rightarrow> if P c then Some c else None | Some y \<Rightarrow> Some y)" for P xs
    by (induction xs) auto
  then show ?case using Cons by (auto simp: map_of_insert_or_assign split: option.split)
qed simp
lemma jar_sendable_op: "jar_sendable cookies \<Longrightarrow> jar_sendable (apply_jar_op g srt oper cookies)"
proof -
  assume j: "jar_sendable cookies"
  have h: "jar_sendable c \<Longrightarrow> jar_sendable (OnResponseHeader g host target vals c)" for host target vals c
    by (induction g host target vals c rule: OnResponseHeader.induct) (auto intro: jar_sendable_Sync)
  have f: "jar_sendable (filter P cookies)" for P using j by (simp add: jar_sendable_def)
  show ?thesis
    using j h f jar_sendable_Sync
    by (cases oper) (auto simp: apply_jar_op_def MaybeInjectCookies_def CookieCount_def ClearCookies_def CleanupExpiredLocked_def
        Let_def jar_sendable_def [of "[]"])
qed

lemma jar_sendable_ops: "jar_sendable (foldl (\<lambda>j oper. apply_jar_op g srt oper j) [] opers)"
proof -
  have "jar_sendable j \<Longrightarrow> jar_sendable (foldl (\<lambda>j oper. apply_jar_op g srt oper j) j opers)" for j
    by (induction opers arbitrary: j) (auto intro: jar_sendable_op)
  from this [of "[]"] show ?thesis by (simp add: jar_sendable_def [of "[]"])
qed

text \<open>A task that has not looked at its cookies yet.\<close>

definition fresh_cookies :: "string \<Rightarrow> ('h, 'a, 'm, 'w) HttpTaskSharedState \<Rightarrow> bool" where
  "fresh_cookies field s \<longleftrightarrow> ts_cookie_field s = field \<and> ts_cookies s = [] \<and> \<not> ts_is_cookie_parsed s \<and> ts_sessionid s = None"

lemma GenerateCookiePairs_print:
  "fresh_cookies (print_cookies cs) s \<Longrightarrow> \<forall>c\<in>set cs. sendable c \<Longrightarrow>
    ts_cookies (GenerateCookiePairs s) = fold (\<lambda>c. insert_or_assign (c_name c) (unquote (c_value c))) cs [] \<and>
    ts_sessionid (GenerateCookiePairs s) = None"
  by (simp add: GenerateCookiePairs_def fresh_cookies_def SplitCookieHeader_print cookie_pairs_loop_map)

lemma TrimView_session: "TrimView ''sessionId'' = ''sessionId''"
  by code_simp

section \<open>Properties\<close>

text \<open>
  The server reads the field the client's jar prints: for any cookies of a jar, however it came
  about, the value of a name on the server is the value of the last cookie of that name in the field,
  without enclosing quotes, and empty when the field has none.
\<close>

theorem cookie_field_is_read_back:
  assumes "set cs \<subseteq> set (foldl (\<lambda>j oper. apply_jar_op g srt oper j) [] opers)"
    and "fresh_cookies (print_cookies cs) s"
  shows "fst (GetCookie key s) =
    (case find (\<lambda>c. c_name c = key) (rev cs) of Some c \<Rightarrow> unquote (c_value c) | None \<Rightarrow> [])"
proof -
  have "\<forall>c\<in>set cs. sendable c" using assms(1) jar_sendable_ops [of g srt opers] by (auto simp: jar_sendable_def)
  from GenerateCookiePairs_print [OF assms(2) this] show ?thesis
    using map_of_fold_assign [of c_name "\<lambda>c. unquote (c_value c)" cs "[]" key]
    by (auto simp: GetCookie_def Let_def emplace_def map_add_def split: option.splits)
qed

theorem cookie_field_is_read_back_witness:
  "fst (GetCookie ''b'' (CreateTaskState () ''a=1; b=2'' False empty_route_result :: (nat, nat, unit, unit) HttpTaskSharedState)) = ''2''"
proof -
  let ?s = "CreateTaskState () ''a=1; b=2'' False empty_route_result :: (nat, nat, unit, unit) HttpTaskSharedState"
  let ?opers = "[OpSync 1 1 1 ''h'' ''/'' ''a=1'', OpSync 1 1 1 ''h'' ''/'' ''b=2'']"
  let ?cs = "foldl (\<lambda>j oper. apply_jar_op (\<lambda>_. None) id oper j) [] ?opers"
  have "print_cookies ?cs = ''a=1; b=2''" by code_simp
  then have "fresh_cookies (print_cookies ?cs) ?s" by (simp add: fresh_cookies_def CreateTaskState_def)
  note r = cookie_field_is_read_back [OF order.refl this, of "''b''"]
  have "(case find (\<lambda>c. c_name c = ''b'') (rev ?cs) of Some c \<Rightarrow> unquote (c_value c) | None \<Rightarrow> []) = ''2''" by code_simp
  then show ?thesis using r by simp
qed



end
