(* ===== verification/File_Io.thy ===== *)
theory File_Io
  imports Std_String
begin

text \<open>
  Reading a file into memory and writing memory to a file (\<^verbatim>\<open>file/file_reader.cc\<close>,
  \<^verbatim>\<open>file/file_writer.cc\<close>). A request posts an operation to the work executor; the operation runs
  once and hands its state to the callback. What the operating system answers is an argument of the
  operation: the size of the file, whether it opens, the bytes it still has and whether the device fails.
\<close>

section \<open>Readers, writers and their states\<close>

text \<open>An error code is \<open>None\<close> when it is clear. An executor is only tested for being set.\<close>

datatype errc = io_error | invalid_argument | operation_not_supported | system_error nat

record FileReader =
  fr_path :: string
  fr_work_executor :: bool
  fr_callback_executor :: bool

record FileWriter =
  fw_data :: string
  fw_valid :: bool
  fw_work_executor :: bool
  fw_callback_executor :: bool

record FileReadingState =
  rs_path :: string
  rs_ec :: "errc option"
  rs_size :: nat
  rs_writer :: "FileWriter option"

record FileWritingState =
  ws_path :: string
  ws_ec :: "errc option"
  ws_size :: nat
  ws_reader :: "FileReader option"

definition new_FileReadingState :: FileReadingState where
  "new_FileReadingState = \<lparr>rs_path = [], rs_ec = None, rs_size = 0, rs_writer = None\<rparr>"

definition new_FileWritingState :: FileWritingState where
  "new_FileWritingState = \<lparr>ws_path = [], ws_ec = None, ws_size = 0, ws_reader = None\<rparr>"

definition FileReader_Create :: "string \<Rightarrow> bool \<Rightarrow> bool \<Rightarrow> FileReader" where
  "FileReader_Create path work_executor callback_executor =
     \<lparr>fr_path = path, fr_work_executor = work_executor, fr_callback_executor = callback_executor\<rparr>"

definition Assign :: "string \<Rightarrow> FileWriter \<Rightarrow> FileWriter" where
  "Assign payload w = w\<lparr>fw_data := payload, fw_valid := True\<rparr>"

definition FileWriter_Create :: "string \<Rightarrow> bool \<Rightarrow> bool \<Rightarrow> FileWriter" where
  "FileWriter_Create payload work_executor callback_executor =
     Assign payload \<lparr>fw_data = [], fw_valid = False, fw_work_executor = work_executor,
                     fw_callback_executor = callback_executor\<rparr>"

definition fw_Size :: "FileWriter \<Rightarrow> nat" where
  "fw_Size w = length (fw_data w)"

definition reader_IsValid :: "FileReader \<Rightarrow> bool" where
  "reader_IsValid r \<longleftrightarrow> fr_path r \<noteq> []"

text \<open>\<open>CopyTo\<close> into a buffer \<open>dest\<close>; a null pointer is \<open>None\<close>. The result is the buffer after the call.\<close>

definition CopyTo :: "string option \<Rightarrow> FileWriter \<Rightarrow> bool \<times> string option" where
  "CopyTo dest w =
     (if \<not> fw_valid w \<or> (fw_Size w \<noteq> 0 \<and> (case dest of None \<Rightarrow> True | Some b \<Rightarrow> length b < fw_Size w)) then (False, dest)
      else (True, if fw_Size w \<noteq> 0 then map_option (\<lambda>b. fw_data w @ drop (fw_Size w) b) dest else dest))"

section \<open>Operations\<close>

text \<open>How a callback is run: not at all, posted to an executor, or called in place.\<close>

datatype ('cb, 's) dispatched = NoCallback | PostedTo 'cb 's | CalledWith 'cb 's

definition DispatchReadCallback :: "bool \<Rightarrow> FileReadingState \<Rightarrow> 'cb option \<Rightarrow> ('cb, FileReadingState) dispatched" where
  "DispatchReadCallback executor state callback =
     (case callback of None \<Rightarrow> NoCallback | Some f \<Rightarrow> if executor then PostedTo f state else CalledWith f state)"

definition DispatchWriteCallback :: "bool \<Rightarrow> FileWritingState \<Rightarrow> 'cb option \<Rightarrow> ('cb, FileWritingState) dispatched" where
  "DispatchWriteCallback executor state callback =
     (case callback of None \<Rightarrow> NoCallback | Some f \<Rightarrow> if executor then PostedTo f state else CalledWith f state)"

record 'cb AsyncFileReadOp =
  ro_reader :: FileReader
  ro_state :: FileReadingState
  ro_callback :: "'cb option"

record 'cb AsyncFileWriteOp =
  wo_writer :: FileWriter
  wo_path :: string
  wo_state :: FileWritingState
  wo_callback :: "'cb option"

text \<open>The posted operation, or \<open>None\<close> when the call returns false.\<close>

definition AsyncReadFromDisk ::
  "FileReadingState option \<Rightarrow> 'cb option \<Rightarrow> FileReader \<Rightarrow> 'cb AsyncFileReadOp option" where
  "AsyncReadFromDisk state callback r =
     (if \<not> reader_IsValid r \<or> \<not> fr_work_executor r \<or> (callback \<noteq> None \<and> \<not> fr_callback_executor r) then None
      else Some \<lparr>ro_reader = r, ro_state = (case state of None \<Rightarrow> new_FileReadingState | Some s \<Rightarrow> s), ro_callback = callback\<rparr>)"

definition AsyncWriteToDisk ::
  "string \<Rightarrow> FileWritingState option \<Rightarrow> 'cb option \<Rightarrow> FileWriter \<Rightarrow> 'cb AsyncFileWriteOp option" where
  "AsyncWriteToDisk path state callback w =
     (if \<not> fw_valid w \<or> \<not> fw_work_executor w \<or> path = [] \<or> (callback \<noteq> None \<and> \<not> fw_callback_executor w) then None
      else Some \<lparr>wo_writer = w, wo_path = path, wo_state = (case state of None \<Rightarrow> new_FileWritingState | Some s \<Rightarrow> s),
                 wo_callback = callback\<rparr>)"

text \<open>
  \<open>in_file\<close> is what opening the file gives: nothing, or the bytes that can be read and whether the device
  fails before the requested number is reached. Reading past the end sets the end-of-file bit, which the
  code accepts; the buffer was filled with zero bytes before.
\<close>

definition read_buffer :: "nat \<Rightarrow> string \<Rightarrow> string" where
  "read_buffer n bytes = take n bytes @ replicate (n - length bytes) (CHR 0x00)"

definition reader_Run ::
  "errc + nat \<Rightarrow> (string \<times> bool) option \<Rightarrow> 'cb AsyncFileReadOp \<Rightarrow> ('cb, FileReadingState) dispatched" where
  "reader_Run file_size in_file op =
     (let finish = (\<lambda>s. DispatchReadCallback (fr_callback_executor (ro_reader op)) s (ro_callback op));
          s = (ro_state op)\<lparr>rs_path := fr_path (ro_reader op)\<rparr>
      in case file_size of
           Inl ec \<Rightarrow> finish (s\<lparr>rs_ec := Some ec\<rparr>)
         | Inr sz \<Rightarrow>
             (let s = s\<lparr>rs_size := sz\<rparr>
              in case in_file of
                   None \<Rightarrow> finish (s\<lparr>rs_ec := Some io_error\<rparr>)
                 | Some (bytes, bad) \<Rightarrow>
                     if sz \<noteq> 0 \<and> length bytes < sz \<and> bad then finish (s\<lparr>rs_ec := Some io_error\<rparr>)
                     else finish (s\<lparr>rs_ec := None,
                       rs_writer := Some (FileWriter_Create (read_buffer sz bytes) (fr_work_executor (ro_reader op))
                         (fr_callback_executor (ro_reader op)))\<rparr>)))"

text \<open>
  Writing changes the disk. \<open>accepts\<close> is \<open>None\<close> when the file cannot be opened for writing, and otherwise
  the number of bytes that reach it before the device fails; opening truncates.
\<close>

type_synonym disk = "string \<Rightarrow> string option"

definition writer_Run ::
  "nat option \<Rightarrow> disk \<Rightarrow> 'cb AsyncFileWriteOp \<Rightarrow> disk \<times> ('cb, FileWritingState) dispatched" where
  "writer_Run accepts d op =
     (let w = wo_writer op;
          finish = (\<lambda>s. DispatchWriteCallback (fw_callback_executor w) s (wo_callback op));
          s = (wo_state op)\<lparr>ws_path := wo_path op, ws_size := fw_Size w\<rparr>
      in case accepts of
           None \<Rightarrow> (d, finish (s\<lparr>ws_ec := Some io_error\<rparr>))
         | Some k \<Rightarrow>
             (let d = d(wo_path op \<mapsto> take k (fw_data w))
              in if k < fw_Size w then (d, finish (s\<lparr>ws_ec := Some io_error\<rparr>))
                 else (d, finish (s\<lparr>ws_ec := None,
                        ws_reader := Some (FileReader_Create (wo_path op) (fw_work_executor w) (fw_callback_executor w))\<rparr>))))"

text \<open>What a disk answers when nothing fails.\<close>

definition size_on :: "disk \<Rightarrow> string \<Rightarrow> errc + nat" where
  "size_on d p = (case d p of None \<Rightarrow> Inl (system_error 2) | Some s \<Rightarrow> Inr (length s))"

definition open_on :: "disk \<Rightarrow> string \<Rightarrow> (string \<times> bool) option" where
  "open_on d p = map_option (\<lambda>s. (s, False)) (d p)"

fun dispatched_state :: "('cb, 's) dispatched \<Rightarrow> 's option" where
  "dispatched_state NoCallback = None"
| "dispatched_state (PostedTo f s) = Some s"
| "dispatched_state (CalledWith f s) = Some s"

section \<open>Lemmas\<close>

lemma read_buffer_full [simp]: "read_buffer (length s) s = s"
  by (simp add: read_buffer_def)

lemma length_read_buffer [simp]: "length (read_buffer n s) = n"
  by (simp add: read_buffer_def)

lemma FileWriter_Create_simps [simp]:
  "fw_data (FileWriter_Create p a b) = p" "fw_valid (FileWriter_Create p a b)"
  "fw_work_executor (FileWriter_Create p a b) = a" "fw_callback_executor (FileWriter_Create p a b) = b"
  "fw_Size (FileWriter_Create p a b) = length p"
  by (simp_all add: FileWriter_Create_def Assign_def fw_Size_def)

lemma FileReader_Create_simps [simp]:
  "fr_path (FileReader_Create p a b) = p" "fr_work_executor (FileReader_Create p a b) = a"
  "fr_callback_executor (FileReader_Create p a b) = b"
  by (simp_all add: FileReader_Create_def)

lemma dispatched_state_read:
  "dispatched_state (DispatchReadCallback e s (Some f)) = Some s"
  by (simp add: DispatchReadCallback_def)

lemma dispatched_state_write:
  "dispatched_state (DispatchWriteCallback e s (Some f)) = Some s"
  by (simp add: DispatchWriteCallback_def)

lemma AsyncReadFromDisk_simps:
  assumes "AsyncReadFromDisk st cb r = Some op"
  shows "ro_reader op = r" "ro_callback op = cb"
  using assms by (auto simp: AsyncReadFromDisk_def split: if_splits)

lemma AsyncWriteToDisk_simps:
  assumes "AsyncWriteToDisk path st cb w = Some op"
  shows "wo_writer op = w" "wo_callback op = cb" "wo_path op = path"
  using assms by (auto simp: AsyncWriteToDisk_def split: if_splits)

text \<open>Reading from a disk where nothing fails gives the content of the file, or an error when it is missing.\<close>

lemma read_on_disk:
  assumes "AsyncReadFromDisk (Some new_FileReadingState) (Some f) r = Some op"
  shows "dispatched_state (reader_Run (size_on d (fr_path r)) (open_on d (fr_path r)) op) =
    Some (case d (fr_path r) of
        None \<Rightarrow> \<lparr>rs_path = fr_path r, rs_ec = Some (system_error 2), rs_size = 0, rs_writer = None\<rparr>
      | Some s \<Rightarrow> \<lparr>rs_path = fr_path r, rs_ec = None, rs_size = length s,
          rs_writer = Some (FileWriter_Create s (fr_work_executor r) (fr_callback_executor r))\<rparr>)"
  using assms
  by (auto simp: reader_Run_def size_on_def open_on_def dispatched_state_read AsyncReadFromDisk_def
      new_FileReadingState_def Let_def split: if_splits option.splits)

text \<open>A dump that the device takes in full leaves exactly the payload on the disk and reports success.\<close>

lemma write_on_disk:
  assumes "AsyncWriteToDisk path (Some new_FileWritingState) (Some f) w = Some op" "fw_Size w \<le> k"
  shows "fst (writer_Run (Some k) d op) = d(path \<mapsto> fw_data w)"
    "dispatched_state (snd (writer_Run (Some k) d op)) =
       Some \<lparr>ws_path = path, ws_ec = None, ws_size = fw_Size w,
             ws_reader = Some (FileReader_Create path (fw_work_executor w) (fw_callback_executor w))\<rparr>"
  using assms
  by (auto simp: writer_Run_def dispatched_state_write AsyncWriteToDisk_def new_FileWritingState_def Let_def fw_Size_def
      split: if_splits)

section \<open>Properties\<close>

text \<open>
  What is written is read back: when a dump succeeds, the reader in its state reads the payload from the
  resulting disk, whatever the device had held, and a dump reports success only if the payload is on the disk.
\<close>

theorem dumped_file_is_read_back:
  assumes "AsyncWriteToDisk path (Some new_FileWritingState) (Some f) w = Some op"
    and "writer_Run accepts d op = (d', result)" "dispatched_state result = Some st" "ws_ec st = None"
  shows "d' = d(path \<mapsto> fw_data w) \<and>
    (\<exists>r op'. ws_reader st = Some r \<and> AsyncReadFromDisk (Some new_FileReadingState) (Some g) r = Some op' \<and>
      (\<exists>rst w'. dispatched_state (reader_Run (size_on d' (fr_path r)) (open_on d' (fr_path r)) op') = Some rst \<and>
        rs_ec rst = None \<and> rs_writer rst = Some w' \<and> fw_data w' = fw_data w))"
proof -
  note op = AsyncWriteToDisk_simps [OF assms(1)]
  obtain k where k: "accepts = Some k" "fw_Size w \<le> k"
    using assms(2-4) op by (auto simp: writer_Run_def dispatched_state_write Let_def split: option.splits if_splits)
  note wr = write_on_disk [OF assms(1) k(2), of d]
  let ?r = "FileReader_Create path (fw_work_executor w) (fw_callback_executor w)"
  have d': "d' = d(path \<mapsto> fw_data w)" and st: "ws_reader st = Some ?r"
    using wr assms(2,3) k(1) by auto
  obtain op' where op': "AsyncReadFromDisk (Some new_FileReadingState) (Some g) ?r = Some op'"
    using assms(1) by (auto simp: AsyncReadFromDisk_def AsyncWriteToDisk_def reader_IsValid_def split: if_splits)
  show ?thesis using d' st op' read_on_disk [OF op', of d'] by simp
qed

theorem dumped_file_is_read_back_witness:
  "\<exists>op op' rst w'. AsyncWriteToDisk ''f'' (Some new_FileWritingState) (Some ()) (FileWriter_Create ''abc'' True True) = Some op \<and>
     AsyncReadFromDisk (Some new_FileReadingState) (Some ()) (FileReader_Create ''f'' True True) = Some op' \<and>
     dispatched_state (reader_Run (Inr 3) (Some (''abc'', False)) op') = Some rst \<and> rs_writer rst = Some w' \<and> fw_data w' = ''abc''"
proof -
  let ?w = "FileWriter_Create ''abc'' True True"
  obtain op where op: "AsyncWriteToDisk ''f'' (Some new_FileWritingState) (Some ()) ?w = Some op"
    by (simp add: AsyncWriteToDisk_def)
  note wr = write_on_disk [OF op order.refl, of "\<lambda>_. None"]
  from dumped_file_is_read_back [OF op prod.collapse [symmetric] wr(2), of "()"] op show ?thesis
    by (auto simp: wr(1) size_on_def open_on_def numeral_3_eq_3)
qed

text \<open>
  A read that is reported as a success always hands over as many bytes as the file had when its size was
  asked for; the bytes that have disappeared since are zero bytes, so a file that is truncated
  meanwhile is delivered padded instead of reported.
\<close>

theorem truncated_file_is_delivered_padded:
  assumes "AsyncReadFromDisk (Some new_FileReadingState) (Some f) r = Some op"
    and "dispatched_state (reader_Run (Inr sz) (Some (bytes, bad)) op) = Some st"
  shows "(rs_ec st = None \<longleftrightarrow> \<not> (length bytes < sz \<and> bad)) \<and>
    (rs_ec st = None \<longrightarrow> map_option fw_data (rs_writer st) = Some (take sz bytes @ replicate (sz - length bytes) (CHR 0x00))) \<and>
    (rs_ec st \<noteq> None \<longrightarrow> rs_ec st = Some io_error \<and> rs_writer st = None)"
  using assms
  by (auto simp: reader_Run_def dispatched_state_read AsyncReadFromDisk_def new_FileReadingState_def Let_def read_buffer_def
      split: if_splits)

theorem truncated_file_is_delivered_padded_witness:
  "\<exists>op st. AsyncReadFromDisk (Some new_FileReadingState) (Some ()) (FileReader_Create ''f'' True True) = Some op \<and>
     dispatched_state (reader_Run (Inr 3) (Some (''a'', False)) op) = Some st \<and> rs_ec st = None \<and>
     map_option fw_data (rs_writer st) = Some [CHR ''a'', CHR 0x00, CHR 0x00]"
proof -
  let ?r = "FileReader_Create ''f'' True True"
  obtain op where op: "AsyncReadFromDisk (Some new_FileReadingState) (Some ()) ?r = Some op"
    by (simp add: AsyncReadFromDisk_def reader_IsValid_def)
  then obtain st where st: "dispatched_state (reader_Run (Inr 3) (Some (''a'', False)) op) = Some st"
    by (simp add: reader_Run_def dispatched_state_read AsyncReadFromDisk_simps [OF op] Let_def)
  from truncated_file_is_delivered_padded [OF op st] show ?thesis using op st by (simp add: numeral_3_eq_3)
qed

end
