(* ===== verification/Multipart.thy ===== *)
theory Multipart
  imports File_Io Server_Connection
begin

text \<open>
  Multipart form data: the server's parser (\<^verbatim>\<open>connection/server/multipart_parser.cc\<close> with the helpers of
  \<^verbatim>\<open>request_body_processor_detail.h\<close>) and the body the client's generator writes
  (\<^verbatim>\<open>connection/client/multipart_generator.cc\<close>). The parser is characterised by the decompositions of the
  body it accepts, and it reads back what the generator wrote.
\<close>

section \<open>Requests and header values\<close>

text \<open>The part of a request both sides use.\<close>

record HttpRequest =
  rq_method :: HttpVerb
  rq_content_type :: "string option"
  rq_body :: string

abbreviation crlf :: string where
  "crlf \<equiv> [CHR 0x0D, CHR 0x0A]"

definition TrimAscii :: "string \<Rightarrow> string" where
  "TrimAscii = trim_by (\<lambda>c. c \<in> {CHR '' '', CHR 0x09, CHR 0x0D, CHR 0x0A})"

definition ToLowerAscii :: "string \<Rightarrow> string" where
  "ToLowerAscii = to_lower"

definition Unquote :: "string \<Rightarrow> string" where
  "Unquote sv =
     (let sv = TrimAscii sv
      in if length sv \<ge> 2 \<and> hd sv = CHR 0x22 \<and> last sv = CHR 0x22 then butlast (tl sv) else sv)"

text \<open>The loops over the parameters of a header value, separated by semicolons.\<close>

definition token_boundary :: "string \<Rightarrow> string option" where
  "token_boundary token =
     (case find_char (CHR ''='') token of
        None \<Rightarrow> None
      | Some eq \<Rightarrow>
          if ToLowerAscii (TrimAscii (substr token 0 (Some eq))) = ''boundary''
          then (let boundary = Unquote (substr token (eq + 1) None) in if boundary \<noteq> [] then Some boundary else None)
          else None)"

function boundary_loop :: "string \<Rightarrow> string option" where
  "boundary_loop params =
     (if params = [] then None
      else case token_boundary (TrimAscii (substr params 0 (find_char (CHR '';'') params))) of
             Some boundary \<Rightarrow> Some boundary
           | None \<Rightarrow> (case find_char (CHR '';'') params of
                       None \<Rightarrow> None
                     | Some n \<Rightarrow> boundary_loop (drop (n + 1) params)))"
  by pat_completeness auto
termination by (relation "measure length") auto

definition ExtractBoundary :: "string \<Rightarrow> string option" where
  "ExtractBoundary content_type =
     (let semi = find_char (CHR '';'') content_type;
          mime = ToLowerAscii (TrimAscii (substr content_type 0 semi))
      in case semi of
           None \<Rightarrow> None
         | Some s \<Rightarrow> if mime \<noteq> ''multipart/form-data'' then None else boundary_loop (substr content_type (s + 1) None))"

definition token_is_filename :: "string \<Rightarrow> bool" where
  "token_is_filename token =
     (case find_char (CHR ''='') token of
        None \<Rightarrow> False
      | Some eq \<Rightarrow> ToLowerAscii (TrimAscii (substr token 0 (Some eq))) = ''filename'')"

function disposition_loop :: "string \<Rightarrow> bool" where
  "disposition_loop params =
     (if params = [] then False
      else if token_is_filename (TrimAscii (substr params 0 (find_char (CHR '';'') params))) then True
      else (case find_char (CHR '';'') params of
              None \<Rightarrow> False
            | Some n \<Rightarrow> disposition_loop (drop (n + 1) params)))"
  by pat_completeness auto
termination by (relation "measure length") auto

definition ParseDisposition :: "string \<Rightarrow> bool" where
  "ParseDisposition val =
     (case find_char (CHR '';'') val of None \<Rightarrow> False | Some s \<Rightarrow> disposition_loop (substr val (s + 1) None))"

definition apply_header_line :: "string \<Rightarrow> string \<times> bool \<Rightarrow> string \<times> bool" where
  "apply_header_line line acc =
     (case find_char (CHR '':'') line of
        None \<Rightarrow> acc
      | Some colon \<Rightarrow>
          (let name = ToLowerAscii (TrimAscii (substr line 0 (Some colon)));
               val = TrimAscii (substr line (colon + 1) None)
           in if name = ''content-type'' then (val, snd acc)
              else if name = ''content-disposition'' then (fst acc, ParseDisposition val)
              else acc))"

function header_lines_loop :: "string \<Rightarrow> string \<times> bool \<Rightarrow> string \<times> bool" where
  "header_lines_loop header_block acc =
     (if header_block = [] then acc
      else (let line_end = find_sub crlf header_block;
                acc = apply_header_line (substr header_block 0 line_end) acc
            in case line_end of
                 None \<Rightarrow> acc
               | Some n \<Rightarrow> header_lines_loop (drop (n + 2) header_block) acc))"
  by pat_completeness auto
termination by (relation "measure (length \<circ> fst)") auto

definition ParsePartHeaders :: "string \<Rightarrow> string \<times> bool" where
  "ParsePartHeaders header_block = header_lines_loop header_block ([], False)"

definition GetHeaderValue :: "HttpRequest \<Rightarrow> string" where
  "GetHeaderValue request = (case rq_content_type request of None \<Rightarrow> [] | Some v \<Rightarrow> v)"

section \<open>The parser\<close>

record PartData =
  pd_content_type :: string
  pd_payload :: string
  pd_is_file :: bool
  pd_writer :: "FileWriter option"

definition PrepareMultipartBody :: "string \<Rightarrow> string \<Rightarrow> bool" where
  "PrepareMultipartBody body delimiter \<longleftrightarrow> starts_with delimiter body"

definition compare_at :: "string \<Rightarrow> nat \<Rightarrow> string \<Rightarrow> bool" where
  "compare_at body cursor pat \<longleftrightarrow> take (length pat) (drop cursor body) = pat"

definition ReachedMultipartTerminator :: "string \<Rightarrow> nat \<Rightarrow> string \<Rightarrow> bool" where
  "ReachedMultipartTerminator body cursor delimiter \<longleftrightarrow>
     compare_at body cursor delimiter \<and> cursor + length delimiter + 2 \<le> length body \<and>
     compare_at body (cursor + length delimiter) ''--''"

text \<open>The cursor after the part, its content type and payload, and whether it is a file; \<open>None\<close> for false.\<close>

definition ParseMultipartPart :: "string \<Rightarrow> string \<Rightarrow> string \<Rightarrow> nat \<Rightarrow> (nat \<times> string \<times> string \<times> bool) option" where
  "ParseMultipartPart body delimiter boundary_marker cursor =
     (if \<not> compare_at body cursor delimiter then None
      else
        (let cursor = cursor + length delimiter
         in if cursor + 2 \<le> length body \<and> compare_at body cursor ''--'' then None
            else if cursor + 2 > length body \<or> \<not> compare_at body cursor crlf then None
            else
              (let cursor = cursor + 2
               in case find_sub_from (crlf @ crlf) cursor body of
                    None \<Rightarrow> None
                  | Some header_end \<Rightarrow>
                      (let (content_type, is_file) = ParsePartHeaders (substr body cursor (Some (header_end - cursor)));
                           payload_start = header_end + 4
                       in case find_sub_from boundary_marker payload_start body of
                            None \<Rightarrow> None
                          | Some next_boundary \<Rightarrow>
                              Some (next_boundary + 2, content_type,
                                    substr body payload_start (Some (next_boundary - payload_start)), is_file)))))"

text \<open>A file part keeps its payload in a writer only.\<close>

definition make_part :: "bool \<Rightarrow> bool \<Rightarrow> string \<Rightarrow> string \<Rightarrow> bool \<Rightarrow> PartData" where
  "make_part work_executor callback_executor content_type payload is_file =
     (if is_file
      then \<lparr>pd_content_type = content_type, pd_payload = [], pd_is_file = True,
            pd_writer = Some (FileWriter_Create payload work_executor callback_executor)\<rparr>
      else \<lparr>pd_content_type = content_type, pd_payload = payload, pd_is_file = False, pd_writer = None\<rparr>)"

lemma ParseMultipartPart_advances:
  "ParseMultipartPart body delimiter boundary_marker cursor = Some (cursor', r) \<Longrightarrow> cursor < cursor'"
  by (auto simp: ParseMultipartPart_def find_sub_from_def Let_def split: if_splits option.splits prod.splits)

function parse_loop :: "bool \<Rightarrow> bool \<Rightarrow> string \<Rightarrow> string \<Rightarrow> string \<Rightarrow> nat \<Rightarrow> PartData list \<Rightarrow> PartData list" where
  "parse_loop work_executor callback_executor body delimiter boundary_marker cursor parts =
     (if cursor < length body
      then if ReachedMultipartTerminator body cursor delimiter then parts
           else (case ParseMultipartPart body delimiter boundary_marker cursor of
                   None \<Rightarrow> []
                 | Some (cursor', content_type, payload, is_file) \<Rightarrow>
                     parse_loop work_executor callback_executor body delimiter boundary_marker cursor'
                       (parts @ [make_part work_executor callback_executor content_type payload is_file]))
      else parts)"
  by pat_completeness auto
termination
  by (relation "measure (\<lambda>(_, _, body, _, _, cursor, _). length body - cursor)")
    (auto dest: ParseMultipartPart_advances intro: diff_less_mono2)

definition Parse :: "bool \<Rightarrow> bool \<Rightarrow> HttpRequest \<Rightarrow> PartData list" where
  "Parse work_executor callback_executor request =
     (case ExtractBoundary (GetHeaderValue request) of
        None \<Rightarrow> []
      | Some boundary \<Rightarrow>
          (let delimiter = ''--'' @ boundary; boundary_marker = crlf @ delimiter; body = rq_body request
           in if \<not> PrepareMultipartBody body delimiter then []
              else parse_loop work_executor callback_executor body delimiter boundary_marker 0 []))"

text \<open>The accessors: an index out of range gives an empty answer.\<close>

definition GetPartType :: "nat \<Rightarrow> PartData list \<Rightarrow> string" where
  "GetPartType i parts = (if i \<ge> length parts then [] else pd_content_type (parts ! i))"

definition IsFile :: "nat \<Rightarrow> PartData list \<Rightarrow> bool" where
  "IsFile i parts = (if i \<ge> length parts then False else pd_is_file (parts ! i))"

definition GetFileWriter :: "nat \<Rightarrow> PartData list \<Rightarrow> FileWriter option" where
  "GetFileWriter i parts = (if i \<ge> length parts then None else pd_writer (parts ! i))"

text \<open>
  The dump of a part; \<open>None\<close> when the call returns false. The callback of the operation is the given one,
  to be called with whether the state has no error.
\<close>

definition AsyncDumpToDisk :: "nat \<Rightarrow> string \<Rightarrow> 'cb option \<Rightarrow> PartData list \<Rightarrow> 'cb AsyncFileWriteOp option" where
  "AsyncDumpToDisk i path callback parts =
     (case GetFileWriter i parts of
        None \<Rightarrow> None
      | Some w \<Rightarrow>
          if path = [] then None
          else (case callback of
                  None \<Rightarrow> AsyncWriteToDisk path (Some new_FileWritingState) None w
                | Some f \<Rightarrow> AsyncWriteToDisk path (Some new_FileWritingState) (Some f) w))"

definition dump_succeeded :: "FileWritingState \<Rightarrow> bool" where
  "dump_succeeded st \<longleftrightarrow> ws_ec st = None"

declare boundary_loop.simps [simp del] disposition_loop.simps [simp del] header_lines_loop.simps [simp del]
  parse_loop.simps [simp del]

section \<open>What the parser accepts\<close>

text \<open>
  A multipart body is a sequence of blocks, each a header text and a payload, and a terminator. A block is
  well delimited when its header text ends at the first empty line and its payload at the first marker.
\<close>

definition block_bytes :: "string \<Rightarrow> string \<times> string \<Rightarrow> string" where
  "block_bytes delimiter hp = delimiter @ crlf @ fst hp @ crlf @ crlf @ snd hp @ crlf"

definition multipart_bytes :: "string \<Rightarrow> (string \<times> string) list \<Rightarrow> string \<Rightarrow> string" where
  "multipart_bytes delimiter blocks tail = concat (map (block_bytes delimiter) blocks) @ delimiter @ ''--'' @ tail"

definition block_ok :: "string \<Rightarrow> string \<times> string \<Rightarrow> bool" where
  "block_ok delimiter hp \<longleftrightarrow>
     find_sub (crlf @ crlf) (fst hp @ crlf @ crlf) = Some (length (fst hp)) \<and>
     find_sub (crlf @ delimiter) (snd hp @ crlf @ delimiter) = Some (length (snd hp))"

definition part_of :: "bool \<Rightarrow> bool \<Rightarrow> string \<times> string \<Rightarrow> PartData" where
  "part_of work_executor callback_executor hp =
     make_part work_executor callback_executor (fst (ParsePartHeaders (fst hp))) (snd hp) (snd (ParsePartHeaders (fst hp)))"

lemma prefix_iff_take: "prefix (p :: string) s \<longleftrightarrow> take (length p) s = p"
  using starts_with_iff_prefix [of p s] by (simp add: starts_with_def)

lemma find_sub_pat_append:
  "find_sub pat (h @ pat @ x) = Some (length h) \<longleftrightarrow> find_sub pat (h @ pat) = Some (length h)"
proof -
  have *: "prefix pat (drop j (h @ pat @ x)) \<longleftrightarrow> prefix pat (drop j (h @ pat))" if "j \<le> length h" for j
  proof -
    have "take (length pat) (drop j (h @ pat @ x)) = take (length pat) (drop j (h @ pat))" using that by simp
    then show ?thesis by (simp only: prefix_iff_take)
  qed
  show ?thesis
  proof
    assume "find_sub pat (h @ pat @ x) = Some (length h)"
    from find_sub_first [OF this] show "find_sub pat (h @ pat) = Some (length h)"
      by (intro find_sub_eqI) (simp_all add: * [symmetric] less_imp_le del: drop_append, simp)
  next
    assume "find_sub pat (h @ pat) = Some (length h)"
    from find_sub_first [OF this] show "find_sub pat (h @ pat @ x) = Some (length h)"
      by (intro find_sub_eqI) (simp_all add: * less_imp_le del: drop_append, simp)
  qed
qed

lemma compare_at_append [simp]:
  "compare_at (pre @ s) (length pre) pat \<longleftrightarrow> prefix pat s"
  "compare_at (pre @ s) (length pre + n) pat \<longleftrightarrow> prefix pat (drop n s)"
  by (simp_all add: compare_at_def prefix_iff_take)

lemma find_sub_block:
  "find_sub pat (h @ pat) = Some (length h) \<Longrightarrow> find_sub pat (h @ pat @ x) = Some (length h)"
  by (simp add: find_sub_pat_append)

lemma block_ok_finds:
  assumes "block_ok delimiter (h, p)"
  shows "find_sub (crlf @ crlf) (h @ crlf @ crlf @ x) = Some (length h)"
    "find_sub (crlf @ delimiter) (p @ crlf @ delimiter @ x) = Some (length p)"
  using find_sub_block [of "crlf @ crlf" h x] find_sub_block [of "crlf @ delimiter" p x] assms
  by (simp_all add: block_ok_def)

lemma find_sub_from_at: "find_sub_from pat (length a) (a @ b) = map_option (\<lambda>i. length a + i) (find_sub pat b)"
  by (simp add: find_sub_from_def)

lemma ParsePart_block:
  assumes "block_ok delimiter (h, p)"
  shows "ParseMultipartPart (pre @ block_bytes delimiter (h, p) @ delimiter @ rest) delimiter (crlf @ delimiter) (length pre)
    = Some (length pre + length (block_bytes delimiter (h, p)), fst (ParsePartHeaders h), p, snd (ParsePartHeaders h))"
proof -
  let ?d = "length delimiter"
  let ?body = "pre @ block_bytes delimiter (h, p) @ delimiter @ rest"
  define a where "a = pre @ delimiter @ crlf"
  define b where "b = a @ h @ crlf @ crlf"
  have body: "?body = a @ h @ crlf @ crlf @ p @ crlf @ delimiter @ rest" "?body = b @ p @ crlf @ delimiter @ rest"
    by (simp_all add: block_bytes_def a_def b_def)
  have la: "length pre + ?d + 2 = length a" and lb: "length a + length h + 4 = length b" by (simp_all add: a_def b_def)
  have hd: "find_sub_from (crlf @ crlf) (length a) ?body = Some (length a + length h)"
    unfolding body(1) find_sub_from_at block_ok_finds(1) [OF assms] by simp
  have pl: "find_sub_from (crlf @ delimiter) (length b) ?body = Some (length b + length p)"
    unfolding body(2) find_sub_from_at block_ok_finds(2) [OF assms] by simp
  have h: "substr ?body (length a) (Some (length a + length h - length a)) = h"
    unfolding body(1) by (simp add: substr_def)
  have p: "substr ?body (length b) (Some (length b + length p - length b)) = p"
    unfolding body(2) by (simp add: substr_def)
  have c: "compare_at ?body (length pre) delimiter" "\<not> compare_at ?body (length pre + ?d) ''--''"
    "compare_at ?body (length pre + ?d) crlf" "\<not> length a > length ?body"
    by (simp_all add: block_bytes_def a_def)
  have l: "length pre + length (block_bytes delimiter (h, p)) = length b + length p + 2"
    by (simp add: block_bytes_def a_def b_def)
  show ?thesis
    unfolding ParseMultipartPart_def Let_def la hd option.case h case_prod_beta lb pl p l using c by simp
qed

lemma find_sub_split:
  assumes "find_sub pat s = Some i"
  obtains h r where "s = h @ pat @ r" "length h = i" "find_sub pat (h @ pat) = Some i"
proof
  let ?h = "take i s" and ?r = "drop (i + length pat) s"
  show s: "s = ?h @ pat @ ?r" and l: "length ?h = i" using find_sub_SomeD [OF assms] by simp_all
  have "find_sub pat (?h @ pat @ ?r) = Some (length ?h)" using assms s l by simp
  then show "find_sub pat (?h @ pat) = Some i" using find_sub_pat_append [of pat ?h ?r] l by simp
qed

lemma ParsePart_SomeD:
  assumes "ParseMultipartPart (pre @ s) delimiter (crlf @ delimiter) (length pre) = Some (c, ct, p, f)"
  obtains h rest where "s = block_bytes delimiter (h, p) @ delimiter @ rest" "block_ok delimiter (h, p)"
proof -
  let ?d = "length delimiter"
  from assms have c1: "prefix delimiter s" and c2: "prefix crlf (drop ?d s)"
    by (auto simp: ParseMultipartPart_def Let_def split: if_splits)
  then obtain t where t: "s = delimiter @ crlf @ t" by (auto simp: prefix_def)
  define a where "a = pre @ delimiter @ crlf"
  have body: "pre @ s = a @ t" and la: "length pre + ?d + 2 = length a" by (simp_all add: a_def t)
  from assms obtain i where i: "find_sub (crlf @ crlf) t = Some i"
    unfolding ParseMultipartPart_def Let_def la body find_sub_from_at
    by (auto split: if_splits option.splits)
  obtain h r where h: "t = h @ (crlf @ crlf) @ r" "length h = i" "find_sub (crlf @ crlf) (h @ crlf @ crlf) = Some i"
    by (rule find_sub_split [OF i])
  define b where "b = a @ h @ crlf @ crlf"
  have body': "pre @ s = b @ r" and lb: "length a + i + 4 = length b" by (simp_all add: b_def h body)
  have hd: "find_sub_from (crlf @ crlf) (length a) (pre @ s) = Some (length a + i)"
    unfolding body find_sub_from_at i by simp
  have nb: "find_sub_from (crlf @ delimiter) (length b) (pre @ s) = map_option (\<lambda>j. length b + j) (find_sub (crlf @ delimiter) r)"
    unfolding body' find_sub_from_at by simp
  have sub: "substr (pre @ s) (length b) (Some (length b + j - length b)) = take j r" for j
    unfolding body' by (simp add: substr_def)
  from assms obtain j where j: "find_sub (crlf @ delimiter) r = Some j" and p: "p = take j r"
    unfolding ParseMultipartPart_def Let_def la hd option.case lb nb case_prod_beta
    by (cases "find_sub (crlf @ delimiter) r") (simp_all only: option.map option.case sub if_cancel option.simps prod.simps split: if_splits)
  obtain p' rest where p': "r = p' @ (crlf @ delimiter) @ rest" "length p' = j"
    "find_sub (crlf @ delimiter) (p' @ crlf @ delimiter) = Some j"
    by (rule find_sub_split [OF j])
  have "p = p'" using p p'(1,2) by simp
  then have "block_ok delimiter (h, p)" "s = block_bytes delimiter (h, p) @ delimiter @ rest"
    using h p' by (simp_all add: block_ok_def block_bytes_def t)
  then show thesis using that by blast
qed

lemma multipart_bytes_starts: "\<exists>r. multipart_bytes delimiter blocks tail = delimiter @ r"
  by (cases blocks) (simp_all add: multipart_bytes_def block_bytes_def)

lemma parse_loop_blocks:
  assumes "list_all (block_ok delimiter) blocks"
  shows "parse_loop we ce (pre @ multipart_bytes delimiter blocks tail) delimiter (crlf @ delimiter) (length pre) parts
    = parts @ map (part_of we ce) blocks"
  using assms
proof (induction blocks arbitrary: pre parts)
  case Nil
  then show ?case
    by (subst parse_loop.simps) (simp add: multipart_bytes_def ReachedMultipartTerminator_def)
next
  case (Cons hp blocks)
  obtain h p where hp: "hp = (h, p)" by (cases hp)
  let ?pre = "pre @ block_bytes delimiter hp"
  obtain r where r: "multipart_bytes delimiter blocks tail = delimiter @ r" using multipart_bytes_starts by blast
  have body: "pre @ multipart_bytes delimiter (hp # blocks) tail = pre @ block_bytes delimiter (h, p) @ delimiter @ r"
    "pre @ multipart_bytes delimiter (hp # blocks) tail = ?pre @ multipart_bytes delimiter blocks tail"
    using r by (simp_all add: multipart_bytes_def hp)
  let ?B = "pre @ multipart_bytes delimiter (hp # blocks) tail"
  have nt: "\<not> ReachedMultipartTerminator ?B (length pre) delimiter"
    unfolding body(1) by (simp add: ReachedMultipartTerminator_def block_bytes_def)
  have lt: "length pre < length ?B" unfolding body(1) by (simp add: block_bytes_def)
  have ok: "block_ok delimiter (h, p)" and oks: "list_all (block_ok delimiter) blocks" using Cons.prems hp by simp_all
  have pp: "ParseMultipartPart ?B delimiter (crlf @ delimiter) (length pre)
      = Some (length ?pre, fst (ParsePartHeaders h), p, snd (ParsePartHeaders h))"
    unfolding body(1) ParsePart_block [OF ok] by (simp add: hp)
  have part: "part_of we ce hp = make_part we ce (fst (ParsePartHeaders h)) p (snd (ParsePartHeaders h))"
    by (simp add: part_of_def hp)
  have "parse_loop we ce ?B delimiter (crlf @ delimiter) (length pre) parts
      = parse_loop we ce ?B delimiter (crlf @ delimiter) (length ?pre) (parts @ [part_of we ce hp])"
    by (subst parse_loop.simps) (simp only: nt lt pp part if_True if_False option.case prod.case)
  then show ?case unfolding body(2) using Cons.IH [OF oks, of ?pre "parts @ [part_of we ce hp]"] by simp
qed

lemma parse_loop_sound:
  assumes "prefix delimiter s" "delimiter \<noteq> []"
  shows "parse_loop we ce (pre @ s) delimiter (crlf @ delimiter) (length pre) parts = [] \<or>
    (\<exists>blocks tail. s = multipart_bytes delimiter blocks tail \<and> list_all (block_ok delimiter) blocks)"
  using assms(1)
proof (induction "length s" arbitrary: s pre parts rule: less_induct)
  case less
  note unfold = parse_loop.simps [of we ce "pre @ s" delimiter "crlf @ delimiter" "length pre" parts]
  have lt: "length pre < length (pre @ s)" using less.prems assms(2) by (auto simp: prefix_def)
  show ?case
  proof (cases "ReachedMultipartTerminator (pre @ s) (length pre) delimiter")
    case True
    then obtain t where "s = delimiter @ ''--'' @ t"
      by (auto simp: ReachedMultipartTerminator_def prefix_def)
    then have "s = multipart_bytes delimiter [] t \<and> list_all (block_ok delimiter) []" by (simp add: multipart_bytes_def)
    then show ?thesis by blast
  next
    case nt: False
    show ?thesis
    proof (cases "ParseMultipartPart (pre @ s) delimiter (crlf @ delimiter) (length pre)")
      case None
      then show ?thesis using unfold nt lt by simp
    next
      case (Some r)
      obtain c ct p f where r: "r = (c, ct, p, f)" by (cases r)
      obtain h rest where s: "s = block_bytes delimiter (h, p) @ delimiter @ rest" and ok: "block_ok delimiter (h, p)"
        by (rule ParsePart_SomeD [OF Some [unfolded r]])
      let ?pre = "pre @ block_bytes delimiter (h, p)" and ?t = "delimiter @ rest"
      have c: "c = length ?pre" using Some r ParsePart_block [OF ok, of pre rest] s by simp
      have "length ?t < length s" "prefix delimiter ?t" unfolding s by (simp_all add: block_bytes_def)
      from less.hyps [OF this, of ?pre] show ?thesis
      proof
        assume "parse_loop we ce (?pre @ ?t) delimiter (crlf @ delimiter) (length ?pre) (parts @ [make_part we ce ct p f]) = []"
        then show ?thesis using unfold nt lt Some r c s by simp
      next
        assume "\<exists>blocks tail. ?t = multipart_bytes delimiter blocks tail \<and> list_all (block_ok delimiter) blocks"
        then obtain blocks tail where "?t = multipart_bytes delimiter blocks tail" "list_all (block_ok delimiter) blocks"
          by blast
        then have "s = multipart_bytes delimiter ((h, p) # blocks) tail \<and> list_all (block_ok delimiter) ((h, p) # blocks)"
          using s ok by (simp add: multipart_bytes_def)
        then show ?thesis by blast
      qed
    qed
  qed
qed

section \<open>The body the generator writes\<close>

record PartSpec =
  sp_is_file :: bool
  sp_file_index :: nat
  sp_name :: string
  sp_value :: string
  sp_reader :: "FileReader option"
  sp_filename_override :: string
  sp_content_type_override :: string

fun EscapeQuotedParameter :: "string \<Rightarrow> string" where
  "EscapeQuotedParameter [] = []"
| "EscapeQuotedParameter (ch # s) =
     (if ch = CHR 0x22 \<or> ch = CHR 0x5C then [CHR 0x5C, ch] else [ch]) @ EscapeQuotedParameter s"

definition BuildBoundary :: "size_t \<Rightarrow> string" where
  "BuildBoundary counter = ''bsrvcore-boundary-'' @ std_to_string (uint counter)"

text \<open>\<^verbatim>\<open>path::filename\<close> is what follows the last separator.\<close>

definition DefaultFilename :: "FileReader option \<Rightarrow> string" where
  "DefaultFilename reader =
     (case reader of
        None \<Rightarrow> ''file''
      | Some r \<Rightarrow> (let filename = last (split_on (CHR ''/'') (fr_path r)) in if filename = [] then ''file'' else filename))"

abbreviation quote :: string where
  "quote \<equiv> [CHR 0x22]"

text \<open>
  The state of a part's file: the slot the reads filled, \<open>None\<close> for a null pointer. Its content when it can
  be used, and otherwise the error the generator reports.
\<close>

definition part_file :: "FileReadingState option list \<Rightarrow> PartSpec \<Rightarrow> errc + string" where
  "part_file states part =
     (case (if sp_file_index part < length states then states ! sp_file_index part else None) of
        None \<Rightarrow> Inl io_error
      | Some state \<Rightarrow>
          (case rs_ec state of
             Some ec \<Rightarrow> Inl ec
           | None \<Rightarrow> (case rs_writer state of None \<Rightarrow> Inl io_error | Some w \<Rightarrow> Inr (fw_data w))))"

definition part_filename :: "PartSpec \<Rightarrow> string" where
  "part_filename part =
     (if sp_filename_override part = [] then DefaultFilename (sp_reader part) else sp_filename_override part)"

text \<open>
  The loop over the parts, as in the code: the quote that closes the name is pushed for every part, and a
  text part appends another one before the line ends.
\<close>

fun build_parts :: "string \<Rightarrow> FileReadingState option list \<Rightarrow> PartSpec list \<Rightarrow> string \<Rightarrow> errc + string" where
  "build_parts boundary states [] body = Inr body"
| "build_parts boundary states (part # parts) body =
     (let body = body @ ''--'' @ boundary @ crlf;
          body = body @ ''Content-Disposition: form-data; name='' @ quote @ EscapeQuotedParameter (sp_name part) @ quote
      in if sp_is_file part
         then (case part_file states part of
                 Inl ec \<Rightarrow> Inl ec
               | Inr content \<Rightarrow>
                   (let content_type = (if sp_content_type_override part = [] then ''application/octet-stream''
                                        else sp_content_type_override part);
                        body = body @ ''; filename='' @ quote @ EscapeQuotedParameter (part_filename part) @ quote @ crlf;
                        body = body @ ''Content-Type: '' @ content_type @ crlf @ crlf;
                        body = body @ content @ crlf
                    in build_parts boundary states parts body))
         else
           (let body = body @ quote @ crlf;
                body = (if sp_content_type_override part \<noteq> []
                        then body @ ''Content-Type: '' @ sp_content_type_override part @ crlf else body);
                body = body @ crlf @ sp_value part @ crlf
            in build_parts boundary states parts body))"

definition multipart_body :: "string \<Rightarrow> FileReadingState option list \<Rightarrow> PartSpec list \<Rightarrow> errc + string" where
  "multipart_body boundary states parts =
     (case build_parts boundary states parts [] of
        Inl ec \<Rightarrow> Inl ec
      | Inr body \<Rightarrow> Inr (body @ ''--'' @ boundary @ ''--'' @ crlf))"

section \<open>What is written is read back\<close>

text \<open>The block of a part: its header text and its payload.\<close>

definition part_payload :: "FileReadingState option list \<Rightarrow> PartSpec \<Rightarrow> string" where
  "part_payload states part =
     (if sp_is_file part then (case part_file states part of Inl _ \<Rightarrow> [] | Inr content \<Rightarrow> content) else sp_value part)"

definition disposition_line :: "PartSpec \<Rightarrow> string" where
  "disposition_line part =
     ''Content-Disposition: form-data; name='' @ quote @ EscapeQuotedParameter (sp_name part) @ quote @
     (if sp_is_file part then ''; filename='' @ quote @ EscapeQuotedParameter (part_filename part) @ quote else quote)"

definition part_content_type :: "PartSpec \<Rightarrow> string" where
  "part_content_type part =
     (if sp_content_type_override part = [] \<and> sp_is_file part then ''application/octet-stream''
      else sp_content_type_override part)"

definition part_header :: "PartSpec \<Rightarrow> string" where
  "part_header part =
     disposition_line part @ (if part_content_type part = [] then [] else crlf @ ''Content-Type: '' @ part_content_type part)"

text \<open>
  What the texts of a part must satisfy to arrive: no carriage return in what goes into the header, no
  semicolon in the name of a text part, and no marker in the payload.
\<close>

definition part_plain :: "string \<Rightarrow> FileReadingState option list \<Rightarrow> PartSpec \<Rightarrow> bool" where
  "part_plain boundary states part \<longleftrightarrow>
     CHR 0x0D \<notin> set (sp_name part @ sp_content_type_override part) \<and>
     (if sp_is_file part then CHR 0x0D \<notin> set (part_filename part) \<and> (\<exists>content. part_file states part = Inr content)
      else CHR '';'' \<notin> set (sp_name part)) \<and>
     \<not> sublist (crlf @ ''--'' @ boundary) (part_payload states part)"

lemma build_parts_blocks:
  assumes "list_all (part_plain boundary states) parts"
  shows "build_parts boundary states parts body =
    Inr (body @ concat (map (\<lambda>p. block_bytes (''--'' @ boundary) (part_header p, part_payload states p)) parts))"
  using assms
proof (induction parts arbitrary: body)
  case (Cons part parts)
  from Cons.prems have ok: "part_plain boundary states part" and oks: "list_all (part_plain boundary states) parts" by simp_all
  show ?case
  proof (cases "sp_is_file part")
    case True
    with ok obtain content where "part_file states part = Inr content" by (auto simp: part_plain_def)
    then show ?thesis using True
      by (simp add: Cons.IH [OF oks] block_bytes_def part_header_def disposition_line_def part_content_type_def
          part_payload_def Let_def)
  next
    case False
    then show ?thesis
      by (simp add: Cons.IH [OF oks] block_bytes_def part_header_def disposition_line_def part_content_type_def
          part_payload_def Let_def)
  qed
qed simp

lemma find_sub_Cons_free:
  assumes "c \<notin> set h"
  shows "find_sub (c # ps) (h @ (c # ps) @ x) = Some (length h)"
  using assms by (induction h) auto

text \<open>A pattern whose first character does not come back cannot overlap itself.\<close>

lemma find_sub_unbordered:
  assumes "c \<notin> set ps" "\<not> sublist (c # ps) p"
  shows "find_sub (c # ps) (p @ c # ps) = Some (length p)"
  using assms(2)
proof (induction p)
  case (Cons x p)
  have "\<not> prefix (c # ps) ((x # p) @ c # ps)"
  proof
    assume "prefix (c # ps) ((x # p) @ c # ps)"
    then have pre: "prefix ps (p @ c # ps)" and x: "x = c" by auto
    show False
    proof (cases "length ps \<le> length p")
      case True
      then have "prefix ps p" using pre by (auto simp: prefix_iff_take)
      then show False using Cons.prems x by (auto simp: sublist_Cons_right)
    next
      case False
      then have "take (length ps) (p @ c # ps) = ps" "length p < length ps" using pre by (simp_all add: prefix_iff_take)
      then have "ps ! length p = c" by (metis nth_append_length nth_take)
      then show False using \<open>length p < length ps\<close> assms(1) by (metis nth_mem)
    qed
  qed
  moreover have "\<not> sublist (c # ps) p" using Cons.prems by (simp add: sublist_Cons_right)
  ultimately show ?case using Cons.IH by simp
qed simp

lemma header_lines_Cons:
  assumes "CHR 0x0D \<notin> set l"
  shows "header_lines_loop (l @ crlf @ rest) acc = header_lines_loop rest (apply_header_line l acc)"
proof -
  have "find_sub crlf (l @ crlf @ rest) = Some (length l)" using find_sub_Cons_free [OF assms, of "[CHR 0x0A]" rest] by simp
  then show ?thesis by (subst header_lines_loop.simps) (simp add: substr_def)
qed

lemma header_lines_last:
  assumes "CHR 0x0D \<notin> set l"
  shows "header_lines_loop l acc = apply_header_line l acc"
proof -
  have "find_sub crlf l = None" using assms by (auto simp: str_simps sublist_def)
  moreover have "apply_header_line [] acc = acc" by (simp add: apply_header_line_def)
  ultimately show ?thesis by (subst header_lines_loop.simps) (auto simp: substr_def Let_def)
qed

lemma disposition_loop_eq:
  "disposition_loop p \<longleftrightarrow> list_ex (\<lambda>f. token_is_filename (TrimAscii f)) (split_on (CHR '';'') p)"
proof (induction p rule: disposition_loop.induct)
  case (1 p)
  have e: "\<not> token_is_filename (TrimAscii [])" by (simp add: token_is_filename_def TrimAscii_def trim_by_def)
  show ?case
  proof (cases "find_char (CHR '';'') p")
    case None
    then have "split_on (CHR '';'') p = [p]" by (auto simp: str_simps split_on_none)
    then show ?thesis using None e by (subst disposition_loop.simps) (cases "p = []", auto simp: substr_0)
  next
    case (Some n)
    note n = find_char_SomeD [OF Some]
    have "split_on (CHR '';'') p = take n p # split_on (CHR '';'') (drop (n + 1) p)"
      using split_on_append [OF n(3), of "drop (Suc n) p"] n(4) by simp
    moreover have "p \<noteq> []" using n(1) by auto
    moreover have "substr p 0 (Some n) = take n p" by (simp add: substr_def)
    ultimately show ?thesis
      using 1 [OF \<open>p \<noteq> []\<close>] Some by (subst disposition_loop.simps) auto
  qed
qed

lemma TrimAscii_id: "s \<noteq> [] \<Longrightarrow> hd s \<notin> {CHR '' '', CHR 0x09, CHR 0x0D, CHR 0x0A} \<Longrightarrow>
    last s \<notin> {CHR '' '', CHR 0x09, CHR 0x0D, CHR 0x0A} \<Longrightarrow> TrimAscii s = s"
  unfolding TrimAscii_def by (rule trim_by_id) blast

lemma TrimAscii_blank: "TrimAscii (CHR '' '' # s) = TrimAscii s"
  unfolding TrimAscii_def by (rule trim_by_Cons_ws) simp

text \<open>The header texts of the generator, as the parser reads them.\<close>

lemma Escape_set: "c \<notin> set s \<Longrightarrow> c \<noteq> CHR 0x5C \<Longrightarrow> c \<notin> set (EscapeQuotedParameter s)"
  by (induction s rule: EscapeQuotedParameter.induct) auto

lemma names_lower:
  "ToLowerAscii (TrimAscii ''Content-Disposition'') = ''content-disposition''"
  "ToLowerAscii (TrimAscii ''Content-Type'') = ''content-type''"
  "ToLowerAscii (TrimAscii ''name'') = ''name''" "ToLowerAscii (TrimAscii ''filename'') = ''filename''"
  "ToLowerAscii (TrimAscii ''boundary'') = ''boundary''"
  "ToLowerAscii (TrimAscii ''multipart/form-data'') = ''multipart/form-data''"
  by code_simp+

lemma apply_content_type: "apply_header_line (''Content-Type: '' @ ct) acc = (TrimAscii ct, snd acc)"
proof -
  have "find_char (CHR '':'') (''Content-Type: '' @ ct) = Some 12" by simp
  moreover have "substr (''Content-Type: '' @ ct) 0 (Some 12) = ''Content-Type''" by (simp add: substr_def)
  moreover have "substr (''Content-Type: '' @ ct) (12 + 1) None = CHR '' '' # ct" by (simp add: substr_def)
  ultimately show ?thesis by (simp only: apply_header_line_def option.case names_lower TrimAscii_blank Let_def) simp
qed

lemma apply_disposition:
  assumes "v \<noteq> []" "last v \<notin> {CHR '' '', CHR 0x09, CHR 0x0D, CHR 0x0A}"
  shows "apply_header_line (''Content-Disposition: form-data;'' @ v) acc = (fst acc, disposition_loop v)"
proof -
  let ?l = "''Content-Disposition: form-data;'' @ v"
  have "find_char (CHR '':'') ?l = Some 19" by simp
  moreover have "substr ?l 0 (Some 19) = ''Content-Disposition''" by (simp add: substr_def)
  moreover have "substr ?l (19 + 1) None = CHR '' '' # ''form-data;'' @ v" by (simp add: substr_def)
  moreover have "TrimAscii (CHR '' '' # ''form-data;'' @ v) = ''form-data;'' @ v"
    unfolding TrimAscii_blank by (rule TrimAscii_id) (use assms in simp_all)
  moreover have "ParseDisposition (''form-data;'' @ v) = disposition_loop v" by (simp add: ParseDisposition_def substr_def)
  ultimately show ?thesis by (simp only: apply_header_line_def option.case names_lower Let_def) simp
qed

lemma token_name: "\<not> token_is_filename (TrimAscii ('' name='' @ quote @ s @ quote))"
proof -
  have "TrimAscii ('' name='' @ quote @ s @ quote) = ''name='' @ quote @ s @ quote"
    using TrimAscii_id [of "''name='' @ quote @ s @ quote"] by (simp add: TrimAscii_blank)
  moreover have "find_char (CHR ''='') (''name='' @ quote @ s @ quote) = Some 4" by simp
  moreover have "substr (''name='' @ quote @ s @ quote) 0 (Some 4) = ''name''" by (simp add: substr_def)
  ultimately show ?thesis by (simp only: token_is_filename_def option.case names_lower) simp
qed

lemma TrimAscii_solid:
  assumes "a \<noteq> []" "hd a \<notin> {CHR '' '', CHR 0x09, CHR 0x0D, CHR 0x0A}" "last a \<notin> {CHR '' '', CHR 0x09, CHR 0x0D, CHR 0x0A}"
  shows "\<exists>t. TrimAscii (a @ s) = a @ t"
  unfolding TrimAscii_def by (rule trim_by_solid) (rule assms)+

lemma token_filename: "token_is_filename (TrimAscii ('' filename='' @ s))"
proof -
  obtain t where t: "TrimAscii (''filename='' @ s) = ''filename='' @ t" using TrimAscii_solid [of "''filename=''" s] by auto
  have "TrimAscii ('' filename='' @ s) = ''filename='' @ t" using t TrimAscii_blank [of "''filename='' @ s"] by simp
  moreover have "find_char (CHR ''='') (''filename='' @ t) = Some 8" by simp
  moreover have "substr (''filename='' @ t) 0 (Some 8) = ''filename''" by (simp add: substr_def)
  ultimately show ?thesis by (simp only: token_is_filename_def option.case names_lower)
qed

lemma split_on_prefix_free:
  "c \<notin> set a \<Longrightarrow> split_on c (a @ x) = (a @ hd (split_on c x)) # tl (split_on c x)"
  using split_on_ne [of c x] by (induction a) auto

lemma split_on_at: "split_on c (a @ c # b) = split_on c a @ split_on c b"
  using split_on_append_any [of c a "c # b"] split_on_append [OF split_on_last_free, of c a b] split_on_ne [of c a]
  by (metis append_Cons append_Nil append_assoc append_butlast_last_id)

lemma disposition_of_part:
  assumes "part_plain boundary states part"
  shows "apply_header_line (disposition_line part) acc = (fst acc, sp_is_file part)"
proof -
  let ?n = "EscapeQuotedParameter (sp_name part)" and ?f = "EscapeQuotedParameter (part_filename part)"
  let ?v = "'' name='' @ quote @ ?n @ quote @ (if sp_is_file part then ''; filename='' @ quote @ ?f @ quote else quote)"
  have "disposition_line part = ''Content-Disposition: form-data;'' @ ?v" by (simp add: disposition_line_def)
  moreover have "disposition_loop ?v = sp_is_file part"
  proof (cases "sp_is_file part")
    case True
    let ?b = "'' filename='' @ quote @ ?f @ quote"
    have "?v = ('' name='' @ quote @ ?n @ quote) @ CHR '';'' # ?b" using True by simp
    then have sp: "split_on (CHR '';'') ?v
        = split_on (CHR '';'') ('' name='' @ quote @ ?n @ quote) @ split_on (CHR '';'') ?b"
      by (simp only: split_on_at)
    have "split_on (CHR '';'') ?b = ('' filename='' @ hd (split_on (CHR '';'') (quote @ ?f @ quote))) #
        tl (split_on (CHR '';'') (quote @ ?f @ quote))"
      by (rule split_on_prefix_free) simp
    then have "list_ex (\<lambda>f. token_is_filename (TrimAscii f)) (split_on (CHR '';'') ?v)"
      using sp token_filename [of "hd (split_on (CHR '';'') (quote @ ?f @ quote))"]
      by (simp only: list_ex_iff set_append list.set Un_iff bex_Un) blast
    then show ?thesis using True by (simp only: disposition_loop_eq)
  next
    case False
    then have "CHR '';'' \<notin> set ?n" using assms Escape_set [of "CHR '';''" "sp_name part"] by (simp add: part_plain_def)
    then have "split_on (CHR '';'') ?v = [?v]" using False by (intro split_on_none) simp
    moreover have "?v = '' name='' @ quote @ (?n @ quote) @ quote" using False by simp
    ultimately have "split_on (CHR '';'') ?v = ['' name='' @ quote @ (?n @ quote) @ quote]" by (simp only:)
    then have "\<not> list_ex (\<lambda>f. token_is_filename (TrimAscii f)) (split_on (CHR '';'') ?v)"
      using token_name by (simp only: list_ex_iff list.set) blast
    then show ?thesis using False by (simp only: disposition_loop_eq)
  qed
  ultimately show ?thesis using apply_disposition [of ?v acc] by simp
qed

lemma header_of_part:
  assumes "part_plain boundary states part"
  shows "ParsePartHeaders (part_header part) = (TrimAscii (part_content_type part), sp_is_file part)"
proof -
  have esc: "CHR 0x0D \<notin> set (EscapeQuotedParameter s)" if "CHR 0x0D \<notin> set s" for s using that by (rule Escape_set) simp
  have l: "CHR 0x0D \<notin> set (disposition_line part)"
    using assms esc by (auto simp: part_plain_def disposition_line_def)
  have t: "CHR 0x0D \<notin> set (''Content-Type: '' @ part_content_type part)"
    using assms by (auto simp: part_plain_def part_content_type_def)
  show ?thesis
  proof (cases "part_content_type part = []")
    case True
    then show ?thesis
      using header_lines_last [OF l] disposition_of_part [OF assms]
      by (simp add: ParsePartHeaders_def part_header_def TrimAscii_def trim_by_def)
  next
    case False
    then show ?thesis
      using header_lines_Cons [OF l] header_lines_last [OF t] disposition_of_part [OF assms]
      by (simp add: ParsePartHeaders_def part_header_def apply_content_type [simplified])
  qed
qed

lemma find_blank_line_step:
  assumes "CHR 0x0D \<notin> set l" "z \<noteq> CHR 0x0D"
  shows "find_sub (crlf @ crlf) (l @ crlf @ z # zs) = map_option (\<lambda>i. length l + 2 + i) (find_sub (crlf @ crlf) (z # zs))"
  using assms(1)
proof (induction l)
  case Nil
  then show ?case using assms(2) by (cases "find_sub (crlf @ crlf) (z # zs)") auto
next
  case (Cons x l)
  then show ?case by (cases "find_sub (crlf @ crlf) (z # zs)") auto
qed

lemma block_ok_part:
  assumes "part_plain boundary states part" "CHR 0x0D \<notin> set boundary"
  shows "block_ok (''--'' @ boundary) (part_header part, part_payload states part)"
proof -
  have esc: "CHR 0x0D \<notin> set (EscapeQuotedParameter s)" if "CHR 0x0D \<notin> set s" for s using that by (rule Escape_set) simp
  have l: "CHR 0x0D \<notin> set (disposition_line part)"
    using assms esc by (auto simp: part_plain_def disposition_line_def)
  have t: "CHR 0x0D \<notin> set (''Content-Type: '' @ part_content_type part)"
    using assms by (auto simp: part_plain_def part_content_type_def)
  have "find_sub (crlf @ crlf) (part_header part @ crlf @ crlf) = Some (length (part_header part))"
  proof (cases "part_content_type part = []")
    case True
    then show ?thesis using find_sub_Cons_free [OF l, of "CHR 0x0A # crlf" "[]"] by (simp add: part_header_def)
  next
    case False
    then show ?thesis
      using find_blank_line_step [OF l, of "CHR ''C''" "''ontent-Type: '' @ part_content_type part @ crlf @ crlf"]
        find_sub_Cons_free [OF t, of "CHR 0x0A # crlf" "[]"]
      by (simp add: part_header_def)
  qed
  moreover have "find_sub (crlf @ ''--'' @ boundary) (part_payload states part @ crlf @ ''--'' @ boundary)
      = Some (length (part_payload states part))"
    using find_sub_unbordered [of "CHR 0x0D" "CHR 0x0A # ''--'' @ boundary" "part_payload states part"] assms
    by (simp add: part_plain_def)
  ultimately show ?thesis by (simp add: block_ok_def)
qed

text \<open>A boundary as the generator builds it is found in the content type it sets.\<close>

definition boundary_plain :: "string \<Rightarrow> bool" where
  "boundary_plain b \<longleftrightarrow> b \<noteq> [] \<and> set b \<inter> {CHR '';'', CHR 0x22, CHR '' '', CHR 0x09, CHR 0x0D, CHR 0x0A} = {}"

lemma boundary_plain_ends:
  assumes "boundary_plain b"
  shows "hd b \<notin> {CHR 0x22, CHR '' '', CHR 0x09, CHR 0x0D, CHR 0x0A}" "last b \<notin> {CHR '' '', CHR 0x09, CHR 0x0D, CHR 0x0A}"
proof -
  have "hd b \<in> set b" "last b \<in> set b" using assms by (simp_all add: boundary_plain_def)
  then show "hd b \<notin> {CHR 0x22, CHR '' '', CHR 0x09, CHR 0x0D, CHR 0x0A}" "last b \<notin> {CHR '' '', CHR 0x09, CHR 0x0D, CHR 0x0A}"
    using assms unfolding boundary_plain_def by blast+
qed

lemma ExtractBoundary_plain:
  assumes "boundary_plain b"
  shows "ExtractBoundary (''multipart/form-data; boundary='' @ b) = Some b"
proof -
  note e = boundary_plain_ends [OF assms]
  have ne: "b \<noteq> []" and semi: "CHR '';'' \<notin> set b" using assms by (auto simp: boundary_plain_def)
  have "Unquote b = b" unfolding Unquote_def using TrimAscii_id [OF ne] e by (simp add: Let_def)
  moreover have "find_char (CHR ''='') (''boundary='' @ b) = Some 8"
    "substr (''boundary='' @ b) 0 (Some 8) = ''boundary''" "substr (''boundary='' @ b) (8 + 1) None = b"
    by (simp_all add: substr_def)
  ultimately have tok: "token_boundary (''boundary='' @ b) = Some b"
    using ne by (simp only: token_boundary_def option.case names_lower Let_def) simp
  have fc: "find_char (CHR '';'') ('' boundary='' @ b) = None" using semi by (simp add: find_char_None_iff)
  have trim: "TrimAscii ('' boundary='' @ b) = ''boundary='' @ b"
    using TrimAscii_id [of "''boundary='' @ b"] e ne by (simp add: TrimAscii_blank)
  have "boundary_loop ('' boundary='' @ b) = Some b"
    unfolding boundary_loop.simps [of "'' boundary='' @ b"] fc substr_0 trim tok option.case by simp
  moreover have "find_char (CHR '';'') (''multipart/form-data; boundary='' @ b) = Some 19"
    "substr (''multipart/form-data; boundary='' @ b) 0 (Some 19) = ''multipart/form-data''"
    "substr (''multipart/form-data; boundary='' @ b) (19 + 1) None = '' boundary='' @ b"
    by (simp_all add: substr_def)
  ultimately show ?thesis by (simp only: ExtractBoundary_def Let_def names_lower option.case simp_thms if_False)
qed

lemma BuildBoundary_plain: "boundary_plain (BuildBoundary counter)"
proof -
  have "set (std_to_string (uint counter)) \<inter> {CHR '';'', CHR 0x22, CHR '' '', CHR 0x09, CHR 0x0D, CHR 0x0A} = {}"
    using std_to_string_chars [of "CHR '';''" "uint counter"] std_to_string_chars [of "CHR 0x22" "uint counter"]
      std_to_string_chars [of "CHR '' ''" "uint counter"] std_to_string_chars [of "CHR 0x09" "uint counter"]
      std_to_string_chars [of "CHR 0x0D" "uint counter"] std_to_string_chars [of "CHR 0x0A" "uint counter"]
    by (auto simp: is_digit_def)
  then show ?thesis by (simp add: boundary_plain_def BuildBoundary_def)
qed

lemma Parse_multipart_body:
  assumes "list_all (part_plain b states) parts" "boundary_plain b"
  shows "\<exists>body. multipart_body b states parts = Inr body \<and>
    (\<forall>request. rq_content_type request = Some (''multipart/form-data; boundary='' @ b) \<longrightarrow> rq_body request = body \<longrightarrow>
      Parse we ce request
        = map (\<lambda>p. make_part we ce (TrimAscii (part_content_type p)) (part_payload states p) (sp_is_file p)) parts)"
proof -
  let ?d = "''--'' @ b"
  let ?blocks = "map (\<lambda>p. (part_header p, part_payload states p)) parts"
  have body: "multipart_body b states parts = Inr (multipart_bytes ?d ?blocks crlf)"
    using build_parts_blocks [OF assms(1), of "[]"] by (simp add: multipart_body_def multipart_bytes_def comp_def)
  have cr: "CHR 0x0D \<notin> set b" using assms(2) by (auto simp: boundary_plain_def)
  have ok: "list_all (block_ok ?d) ?blocks"
    using assms(1) unfolding list.pred_map comp_def by (rule list.pred_mono_strong) (rule block_ok_part [OF _ cr])
  obtain r where "multipart_bytes ?d ?blocks crlf = ?d @ r" using multipart_bytes_starts by blast
  then have prep: "PrepareMultipartBody (multipart_bytes ?d ?blocks crlf) ?d"
    by (simp add: PrepareMultipartBody_def starts_with_def)
  have parts: "map (part_of we ce) ?blocks
      = map (\<lambda>p. make_part we ce (TrimAscii (part_content_type p)) (part_payload states p) (sp_is_file p)) parts"
    using assms(1) by (induction parts) (simp_all add: part_of_def header_of_part [of b states])
  have p: "Parse we ce request = map (part_of we ce) ?blocks"
    if "rq_content_type request = Some (''multipart/form-data; boundary='' @ b)" "rq_body request = multipart_bytes ?d ?blocks crlf"
    for request
  proof -
    have x: "ExtractBoundary (GetHeaderValue request) = Some b"
      unfolding GetHeaderValue_def that(1) option.case by (rule ExtractBoundary_plain [OF assms(2)])
    show ?thesis
      unfolding Parse_def x option.case Let_def that(2)
      using prep parse_loop_blocks [OF ok, of we ce "[]" crlf "[]"] by (simp only: append_Nil list.size if_False simp_thms)
  qed
  show ?thesis by (intro exI conjI allI impI, rule body, unfold parts [symmetric], rule p)
qed

section \<open>Properties\<close>

text \<open>
  (C14) The parser finds exactly the parts of the body: when the body is a sequence of well delimited blocks
  and a terminator, the parts are those blocks, each with the content type and kind its header text
  names, and when it is no such sequence there are no parts at all.
\<close>

theorem multipart_parse_is_exact:
  assumes "ExtractBoundary (GetHeaderValue request) = Some boundary"
  shows "(\<forall>blocks tail. rq_body request = multipart_bytes (''--'' @ boundary) blocks tail \<longrightarrow>
      list_all (block_ok (''--'' @ boundary)) blocks \<longrightarrow> Parse we ce request = map (part_of we ce) blocks) \<and>
    ((\<nexists>blocks tail. rq_body request = multipart_bytes (''--'' @ boundary) blocks tail \<and>
      list_all (block_ok (''--'' @ boundary)) blocks) \<longrightarrow> Parse we ce request = [])"
proof (intro conjI allI impI)
  let ?d = "''--'' @ boundary"
  note parse = Parse_def [of we ce request, unfolded assms option.case Let_def]
  {
    fix blocks tail
    assume b: "rq_body request = multipart_bytes ?d blocks tail" "list_all (block_ok ?d) blocks"
    obtain r where "multipart_bytes ?d blocks tail = ?d @ r" using multipart_bytes_starts by blast
    then have "PrepareMultipartBody (rq_body request) ?d" by (simp add: PrepareMultipartBody_def starts_with_def b)
    then show "Parse we ce request = map (part_of we ce) blocks"
      using parse parse_loop_blocks [OF b(2), of we ce "[]" tail "[]"] b(1) by (simp only: append_Nil list.size if_False simp_thms)
  next
    assume no: "\<nexists>blocks tail. rq_body request = multipart_bytes ?d blocks tail \<and> list_all (block_ok ?d) blocks"
    have "parse_loop we ce (rq_body request) ?d (crlf @ ?d) 0 [] = []" if "PrepareMultipartBody (rq_body request) ?d"
    proof -
      have "prefix ?d (rq_body request)" using that by (simp only: PrepareMultipartBody_def starts_with_iff_prefix)
      from parse_loop_sound [OF this, of we ce "[]" "[]"] no show ?thesis
        by (simp only: append_Nil list.size append_Cons) blast
    qed
    then show "Parse we ce request = []" unfolding parse by simp
  }
qed

theorem multipart_parse_is_exact_witness:
  "Parse True True \<lparr>rq_method = verb_post, rq_content_type = Some ''multipart/form-data; boundary=b'',
      rq_body = ''--b'' @ crlf @ ''A: 1'' @ crlf @ crlf @ ''hello'' @ crlf @ ''--b--''\<rparr>
    = [\<lparr>pd_content_type = [], pd_payload = ''hello'', pd_is_file = False, pd_writer = None\<rparr>]"
proof -
  let ?r = "\<lparr>rq_method = verb_post, rq_content_type = Some ''multipart/form-data; boundary=b'',
      rq_body = ''--b'' @ crlf @ ''A: 1'' @ crlf @ crlf @ ''hello'' @ crlf @ ''--b--''\<rparr>"
  have x: "ExtractBoundary (GetHeaderValue ?r) = Some ''b''" by code_simp
  have b: "rq_body ?r = multipart_bytes (''--'' @ ''b'') [(''A: 1'', ''hello'')] []" by code_simp
  have ok: "list_all (block_ok (''--'' @ ''b'')) [(''A: 1'', ''hello'')]" by code_simp
  have p: "map (part_of True True) [(''A: 1'', ''hello'')]
      = [\<lparr>pd_content_type = [], pd_payload = ''hello'', pd_is_file = False, pd_writer = None\<rparr>]" by code_simp
  from multipart_parse_is_exact [OF x, THEN conjunct1, rule_format, OF b ok, of True True] show ?thesis unfolding p .
qed

text \<open>
  The server reads back what the client wrote: for parts with plain texts the generator's body, under
  the content type it sets, parses into those parts in order, each with its content type, its payload or
  file content, and its kind. File contents end up in a writer, text in the payload.
\<close>

theorem multipart_roundtrip:
  assumes "list_all (part_plain (BuildBoundary counter) states) parts"
  shows "\<exists>body. multipart_body (BuildBoundary counter) states parts = Inr body \<and>
    Parse we ce \<lparr>rq_method = verb_post, rq_content_type = Some (''multipart/form-data; boundary='' @ BuildBoundary counter),
        rq_body = body\<rparr>
      = map (\<lambda>p. make_part we ce (TrimAscii (part_content_type p)) (part_payload states p) (sp_is_file p)) parts"
  using Parse_multipart_body [OF assms BuildBoundary_plain, of we ce] by auto

theorem multipart_roundtrip_witness:
  "\<exists>body. multipart_body (BuildBoundary 7) []
        [\<lparr>sp_is_file = False, sp_file_index = 0, sp_name = ''n'', sp_value = ''v'', sp_reader = None,
          sp_filename_override = [], sp_content_type_override = ''text/plain''\<rparr>] = Inr body \<and>
     Parse True True \<lparr>rq_method = verb_post, rq_content_type = Some (''multipart/form-data; boundary='' @ BuildBoundary 7),
        rq_body = body\<rparr>
      = [\<lparr>pd_content_type = ''text/plain'', pd_payload = ''v'', pd_is_file = False, pd_writer = None\<rparr>]"
proof -
  let ?ps = "[\<lparr>sp_is_file = False, sp_file_index = 0, sp_name = ''n'', sp_value = ''v'', sp_reader = None,
          sp_filename_override = [], sp_content_type_override = ''text/plain''\<rparr>]"
  have "\<not> sublist (crlf @ x) ''v''" for x by (simp add: sublist_Cons_right)
  then have ok: "list_all (part_plain (BuildBoundary 7) []) ?ps"
    by (simp add: part_plain_def part_payload_def)
  have p: "map (\<lambda>p. make_part True True (TrimAscii (part_content_type p)) (part_payload [] p) (sp_is_file p)) ?ps
      = [\<lparr>pd_content_type = ''text/plain'', pd_payload = ''v'', pd_is_file = False, pd_writer = None\<rparr>]" by code_simp
  from multipart_roundtrip [OF ok, of True True] show ?thesis unfolding p .
qed

end
