(* ===== verification/Http_Url.thy ===== *)
theory Http_Url
  imports Prelude
begin

text \<open>The URLs a client takes (\<^verbatim>\<open>connection/client/impl/http_url_parser.cc\<close>).\<close>

section \<open>Absolute URLs\<close>

text \<open>The URL library's parser is the argument \<open>parse_uri\<close>; a \<open>url_view\<close> is what the code asks of its result.\<close>

record url_view =
  u_scheme :: string
  u_host :: string
  u_port :: "string option"
  u_encoded_path :: string
  u_encoded_query :: "string option"

record ParsedUrl =
  pu_https :: bool
  pu_host :: string
  pu_port :: string
  pu_target :: string

definition ParseHttpUrl :: "(string \<Rightarrow> url_view option) \<Rightarrow> string \<Rightarrow> ParsedUrl option" where
  "ParseHttpUrl parse_uri url =
     (case parse_uri url of
        None \<Rightarrow> None
      | Some u \<Rightarrow>
          if u_scheme u \<noteq> ''http'' \<and> u_scheme u \<noteq> ''https'' then None
          else if u_host u = [] then None
          else
            (let https = (u_scheme u = ''https'');
                 port = (case u_port u of Some p \<Rightarrow> p | None \<Rightarrow> if https then ''443'' else ''80'');
                 target = u_encoded_path u;
                 target = (if target = [] then ''/'' else target);
                 target = (case u_encoded_query u of Some q \<Rightarrow> target @ CHR ''?'' # q | None \<Rightarrow> target)
             in Some \<lparr>pu_https = https, pu_host = u_host u, pu_port = port, pu_target = target\<rparr>))"

end
