(* ===== verification/Upload.thy ===== *)
theory Upload
  imports Multipart Async_Waiter Http_Url
begin

text \<open>
  Uploads end to end: the client's generators, which read files and build a request once all reads are in
  (\<^verbatim>\<open>client/multipart_generator.cc\<close>,
  \<^verbatim>\<open>client/put_generator.cc\<close>), and the server's \<^verbatim>\<open>PUT\<close> processor (\<^verbatim>\<open>server/put_processor.cc\<close>). The reads
  run on other threads, in any order; they meet in the waiter of \<^verbatim>\<open>core/async_waiter.h\<close>.
\<close>

section \<open>Generators\<close>

text \<open>
  \<open>'o\<close> are the request options and \<open>'s\<close> SSL contexts. \<open>g_kind\<close> tells what a generator builds: the parts of a
  form with the number of its file parts, or the file of a \<^verbatim>\<open>PUT\<close> and its content type.
\<close>

datatype generator_kind =
    MultipartForm "PartSpec list" nat
  | PutFile "FileReader option" string

record ('o, 's) generator =
  g_host :: string
  g_port :: string
  g_target :: string
  g_options :: 'o
  g_use_ssl :: bool
  g_ssl_ctx :: "'s option"
  g_create_error :: "errc option"
  g_kind :: generator_kind

text \<open>The default SSL context: the context and whether loading it failed.\<close>

type_synonym 's default_ssl = "'s option \<times> bool"

definition MakeDefaultSslContextError :: "'s default_ssl \<Rightarrow> errc option" where
  "MakeDefaultSslContextError state = (if snd state then Some io_error else None)"

definition CreateHttp :: "generator_kind \<Rightarrow> string \<Rightarrow> string \<Rightarrow> string \<Rightarrow> 'o \<Rightarrow> ('o, 's) generator" where
  "CreateHttp kind host port target options =
     \<lparr>g_host = host, g_port = port, g_target = target, g_options = options, g_use_ssl = False, g_ssl_ctx = None,
      g_create_error = None, g_kind = kind\<rparr>"

definition CreateHttps ::
  "generator_kind \<Rightarrow> 's option \<Rightarrow> string \<Rightarrow> string \<Rightarrow> string \<Rightarrow> 'o \<Rightarrow> ('o, 's) generator" where
  "CreateHttps kind ssl_ctx host port target options =
     (let g = \<lparr>g_host = host, g_port = port, g_target = target, g_options = options, g_use_ssl = True, g_ssl_ctx = ssl_ctx,
               g_create_error = None, g_kind = kind\<rparr>
      in if g_ssl_ctx g = None then g\<lparr>g_create_error := Some invalid_argument\<rparr> else g)"

definition CreateHttps_default ::
  "generator_kind \<Rightarrow> 's default_ssl \<Rightarrow> string \<Rightarrow> string \<Rightarrow> string \<Rightarrow> 'o \<Rightarrow> ('o, 's) generator" where
  "CreateHttps_default kind ssl_state host port target options =
     (let g = CreateHttps kind (fst ssl_state) host port target options
      in if snd ssl_state then g\<lparr>g_create_error := MakeDefaultSslContextError ssl_state\<rparr> else g)"

definition adopt_url :: "ParsedUrl \<Rightarrow> ('o, 's) generator \<Rightarrow> ('o, 's) generator" where
  "adopt_url parsed g =
     g\<lparr>g_host := pu_host parsed, g_port := pu_port parsed, g_target := pu_target parsed, g_use_ssl := pu_https parsed\<rparr>"

definition CreateFromUrl_default ::
  "(string \<Rightarrow> url_view option) \<Rightarrow> generator_kind \<Rightarrow> 's default_ssl \<Rightarrow> string \<Rightarrow> 'o \<Rightarrow> ('o, 's) generator" where
  "CreateFromUrl_default parse_uri kind ssl_state url options =
     (let client = CreateHttp kind [] [] ''/'' options
      in case ParseHttpUrl parse_uri url of
           None \<Rightarrow> client\<lparr>g_create_error := Some invalid_argument\<rparr>
         | Some parsed \<Rightarrow>
             (let client = adopt_url parsed client
              in if pu_https parsed
                 then (let client = client\<lparr>g_ssl_ctx := fst ssl_state\<rparr>
                       in if snd ssl_state then client\<lparr>g_create_error := MakeDefaultSslContextError ssl_state\<rparr> else client)
                 else client))"

definition CreateFromUrl ::
  "(string \<Rightarrow> url_view option) \<Rightarrow> generator_kind \<Rightarrow> 's option \<Rightarrow> string \<Rightarrow> 'o \<Rightarrow> ('o, 's) generator" where
  "CreateFromUrl parse_uri kind ssl_ctx url options =
     (let client = CreateHttp kind [] [] ''/'' options
      in case ParseHttpUrl parse_uri url of
           None \<Rightarrow> client\<lparr>g_create_error := Some invalid_argument\<rparr>
         | Some parsed \<Rightarrow>
             (let client = (adopt_url parsed client)\<lparr>g_ssl_ctx := (if pu_https parsed then ssl_ctx else None)\<rparr>
              in if pu_https parsed \<and> g_ssl_ctx client = None then client\<lparr>g_create_error := Some invalid_argument\<rparr> else client))"

text \<open>Adding parts to a form; on a \<^verbatim>\<open>PUT\<close> generator these operations do not exist.\<close>

definition AddFilePart :: "string \<Rightarrow> FileReader option \<Rightarrow> string \<Rightarrow> string \<Rightarrow> ('o, 's) generator \<Rightarrow> ('o, 's) generator" where
  "AddFilePart name reader filename_override content_type_override g =
     (case g_kind g of
        MultipartForm parts n \<Rightarrow>
          g\<lparr>g_kind := MultipartForm (parts @
             [\<lparr>sp_is_file = True, sp_file_index = n, sp_name = name, sp_value = [], sp_reader = reader,
               sp_filename_override = filename_override, sp_content_type_override = content_type_override\<rparr>]) (n + 1)\<rparr>
      | PutFile _ _ \<Rightarrow> g)"

definition AddTextPart :: "string \<Rightarrow> string \<Rightarrow> string \<Rightarrow> ('o, 's) generator \<Rightarrow> ('o, 's) generator" where
  "AddTextPart name val content_type g =
     (case g_kind g of
        MultipartForm parts n \<Rightarrow>
          g\<lparr>g_kind := MultipartForm (parts @
             [\<lparr>sp_is_file = False, sp_file_index = 0, sp_name = name, sp_value = val, sp_reader = None,
               sp_filename_override = [], sp_content_type_override = content_type\<rparr>]) n\<rparr>
      | PutFile _ _ \<Rightarrow> g)"

definition SetFile :: "FileReader option \<Rightarrow> ('o, 's) generator \<Rightarrow> ('o, 's) generator" where
  "SetFile reader g = (case g_kind g of PutFile _ ct \<Rightarrow> g\<lparr>g_kind := PutFile reader ct\<rparr> | MultipartForm _ _ \<Rightarrow> g)"

definition SetContentType :: "string \<Rightarrow> ('o, 's) generator \<Rightarrow> ('o, 's) generator" where
  "SetContentType content_type g =
     (case g_kind g of PutFile r _ \<Rightarrow> g\<lparr>g_kind := PutFile r content_type\<rparr> | MultipartForm _ _ \<Rightarrow> g)"

section \<open>Building the task\<close>

record ('o, 's) ClientTask =
  ct_use_ssl :: bool
  ct_ssl_ctx :: "'s option"
  ct_host :: string
  ct_port :: string
  ct_target :: string
  ct_options :: 'o
  ct_request :: HttpRequest

definition make_task :: "('o, 's) generator \<Rightarrow> HttpVerb \<Rightarrow> string \<Rightarrow> string \<Rightarrow> ('o, 's) ClientTask" where
  "make_task g verb content_type body =
     \<lparr>ct_use_ssl = g_use_ssl g, ct_ssl_ctx = (if g_use_ssl g then g_ssl_ctx g else None), ct_host = g_host g,
      ct_port = g_port g, ct_target = g_target g, ct_options = g_options g,
      ct_request = \<lparr>rq_method = verb, rq_content_type = Some content_type, rq_body = body\<rparr>\<rparr>"

type_synonym ('o, 's) ready = "errc option \<times> ('o, 's) ClientTask option"

definition BuildTask_multipart ::
  "('o, 's) generator \<Rightarrow> PartSpec list \<Rightarrow> size_t \<Rightarrow> FileReadingState option list \<Rightarrow> ('o, 's) ready" where
  "BuildTask_multipart g parts counter states =
     (let boundary = BuildBoundary counter
      in case multipart_body boundary states parts of
           Inl ec \<Rightarrow> (Some ec, None)
         | Inr body \<Rightarrow> (None, Some (make_task g verb_post (''multipart/form-data; boundary='' @ boundary) body)))"

definition BuildTask_put ::
  "('o, 's) generator \<Rightarrow> string \<Rightarrow> size_t \<Rightarrow> FileReadingState option list \<Rightarrow> ('o, 's) ready" where
  "BuildTask_put g content_type counter states =
     (case states of
        [Some state] \<Rightarrow>
          (case rs_ec state of
             Some ec \<Rightarrow> (Some ec, None)
           | None \<Rightarrow>
               (case rs_writer state of
                  None \<Rightarrow> (Some io_error, None)
                | Some w \<Rightarrow>
                    if \<not> fw_valid w then (Some io_error, None)
                    else (None, Some (make_task g verb_put
                           (if content_type = [] then ''application/octet-stream'' else content_type) (fw_data w)))))
      | _ \<Rightarrow> (Some io_error, None))"

definition BuildTask ::
  "('o, 's) generator \<Rightarrow> size_t \<Rightarrow> FileReadingState option list \<Rightarrow> ('o, 's) ready" where
  "BuildTask g =
     (case g_kind g of MultipartForm parts n \<Rightarrow> BuildTask_multipart g parts | PutFile r ct \<Rightarrow> BuildTask_put g ct)"

section \<open>Collecting the reads\<close>

text \<open>
  The state of one \<open>AsyncCreateTask\<close>: the reads under way, each with its slot as callback, the waiter, the
  build jobs it has posted, the flag that makes completion unique, and the calls of the ready callback.
\<close>

record ('o, 's) build_world =
  bw_reads :: "nat AsyncFileReadOp list"
  bw_waiter :: "(FileReadingState option, unit) waiter"
  bw_jobs :: "FileReadingState option list list"
  bw_done :: bool
  bw_calls :: "('o, 's) ready list"

definition new_build_world :: "('o, 's) build_world" where
  "new_build_world = \<lparr>bw_reads = [], bw_waiter = new_waiter 0, bw_jobs = [], bw_done = False, bw_calls = []\<rparr>"

definition Complete :: "('o, 's) ready \<Rightarrow> ('o, 's) build_world \<Rightarrow> ('o, 's) build_world" where
  "Complete result w = (if bw_done w then w else w\<lparr>bw_done := True, bw_calls := bw_calls w @ [result]\<rparr>)"

text \<open>
  The loop that starts the reads; the reads it has started run concurrently with it, which changes nothing
  as the waiter cannot be complete before the last one.
\<close>

fun start_reads :: "PartSpec list \<Rightarrow> nat \<Rightarrow> ('o, 's) build_world \<Rightarrow> ('o, 's) build_world" where
  "start_reads [] callback_index w = w"
| "start_reads (part # parts) callback_index w =
     (if \<not> sp_is_file part then start_reads parts callback_index w
      else case sp_reader part of
             None \<Rightarrow> Complete (Some invalid_argument, None) w
           | Some r \<Rightarrow>
               (case AsyncReadFromDisk (Some new_FileReadingState) (Some callback_index) r of
                  None \<Rightarrow> Complete (Some operation_not_supported, None) w
                | Some op \<Rightarrow> start_reads parts (callback_index + 1) (w\<lparr>bw_reads := bw_reads w @ [op]\<rparr>)))"

definition waiting :: "nat \<Rightarrow> ('o, 's) build_world" where
  "waiting n = new_build_world\<lparr>bw_waiter := snd (OnReadyAllocated (Some ()) (new_waiter n))\<rparr>"

definition create_form_task :: "PartSpec list \<Rightarrow> nat \<Rightarrow> ('o, 's) build_world" where
  "create_form_task parts file_part_count =
     (if file_part_count = 0 then new_build_world\<lparr>bw_jobs := [[]]\<rparr>
      else start_reads parts 0 (waiting file_part_count))"

definition create_put_task :: "FileReader option \<Rightarrow> ('o, 's) build_world" where
  "create_put_task reader =
     (case reader of
        None \<Rightarrow> new_build_world\<lparr>bw_done := True, bw_calls := [(Some invalid_argument, None)]\<rparr>
      | Some r \<Rightarrow>
          (case AsyncReadFromDisk (Some new_FileReadingState) (Some 0) r of
             None \<Rightarrow> Complete (Some operation_not_supported, None) (waiting 1)
           | Some op \<Rightarrow> (waiting 1)\<lparr>bw_reads := [op]\<rparr>))"

text \<open>\<open>None\<close> when the call returns false, which is exactly when there is no callback.\<close>

definition AsyncCreateTask :: "bool \<Rightarrow> ('o, 's) generator \<Rightarrow> ('o, 's) build_world option" where
  "AsyncCreateTask has_callback g =
     (if \<not> has_callback then None
      else Some
        (case g_create_error g of
           Some ec \<Rightarrow> new_build_world\<lparr>bw_done := True, bw_calls := [(Some ec, None)]\<rparr>
         | None \<Rightarrow>
             (case g_kind g of
                MultipartForm parts file_part_count \<Rightarrow> create_form_task parts file_part_count
              | PutFile reader content_type \<Rightarrow> create_put_task reader)))"

definition on_read :: "nat \<Rightarrow> FileReadingState \<Rightarrow> ('o, 's) build_world \<Rightarrow> ('o, 's) build_world" where
  "on_read i st w =
     (let (c, wt) = Fulfill i (Some st) (bw_waiter w)
      in w\<lparr>bw_waiter := wt, bw_jobs := bw_jobs w @ (case c of None \<Rightarrow> [] | Some (_, states) \<Rightarrow> [states])\<rparr>)"

definition read_finished :: "(nat, FileReadingState) dispatched \<Rightarrow> ('o, 's) build_world \<Rightarrow> ('o, 's) build_world" where
  "read_finished result w =
     (case result of NoCallback \<Rightarrow> w | PostedTo i st \<Rightarrow> on_read i st w | CalledWith i st \<Rightarrow> on_read i st w)"

text \<open>
  What can happen next: one of the reads finishes, with any answer \<open>answers\<close> allows for its path, or a build
  job runs, with whatever the process-wide boundary counter is by then.
\<close>

inductive build_step ::
  "(string \<Rightarrow> errc + nat \<Rightarrow> (string \<times> bool) option \<Rightarrow> bool) \<Rightarrow> ('o, 's) generator \<Rightarrow>
   ('o, 's) build_world \<Rightarrow> ('o, 's) build_world \<Rightarrow> bool"
  for answers g where
  read: "bw_reads w = a @ op # b \<Longrightarrow> answers (fr_path (ro_reader op)) sz in_file \<Longrightarrow>
    build_step answers g w (read_finished (reader_Run sz in_file op) (w\<lparr>bw_reads := a @ b\<rparr>))"
| job: "bw_jobs w = a @ states # b \<Longrightarrow>
    build_step answers g w (Complete (BuildTask g counter states) (w\<lparr>bw_jobs := a @ b\<rparr>))"

section \<open>The \<open>PUT\<close> processor of the server\<close>

record PutProcessor =
  pp_is_put :: bool
  pp_writer :: "FileWriter option"

definition PutProcessor_Create :: "bool \<Rightarrow> bool \<Rightarrow> HttpRequest \<Rightarrow> PutProcessor" where
  "PutProcessor_Create work_executor callback_executor request =
     (let is_put = (rq_method request = verb_put)
      in \<lparr>pp_is_put = is_put,
          pp_writer = (if is_put then Some (FileWriter_Create (rq_body request) work_executor callback_executor) else None)\<rparr>)"

definition put_AsyncDumpToDisk :: "string \<Rightarrow> 'cb option \<Rightarrow> PutProcessor \<Rightarrow> 'cb AsyncFileWriteOp option" where
  "put_AsyncDumpToDisk path cb p =
     (case pp_writer p of
        None \<Rightarrow> None
      | Some w \<Rightarrow>
          if path = [] then None
          else (case cb of
                  None \<Rightarrow> AsyncWriteToDisk path (Some new_FileWritingState) None w
                | Some f \<Rightarrow> AsyncWriteToDisk path (Some new_FileWritingState) (Some f) w))"

section \<open>The ready callback runs once\<close>

abbreviation slots :: "('o, 's) build_world \<Rightarrow> nat list" where
  "slots w \<equiv> map (the \<circ> ro_callback) (bw_reads w)"

text \<open>
  \<open>lost\<close> are the slots whose read could not be started, \<open>res i\<close> what is known of the states read for slot \<open>i\<close>.
\<close>

definition read_ok ::
  "(string \<Rightarrow> errc + nat \<Rightarrow> (string \<times> bool) option \<Rightarrow> bool) \<Rightarrow> (nat \<Rightarrow> FileReadingState \<Rightarrow> bool) \<Rightarrow>
   nat AsyncFileReadOp \<Rightarrow> bool" where
  "read_ok answers res op \<longleftrightarrow>
     (\<exists>i. ro_callback op = Some i \<and>
       (\<forall>sz in_file st. answers (fr_path (ro_reader op)) sz in_file \<longrightarrow>
          dispatched_state (reader_Run sz in_file op) = Some st \<longrightarrow> res i st))"

definition waiting_inv ::
  "(string \<Rightarrow> errc + nat \<Rightarrow> (string \<times> bool) option \<Rightarrow> bool) \<Rightarrow> (nat \<Rightarrow> FileReadingState \<Rightarrow> bool) \<Rightarrow> nat \<Rightarrow> nat set \<Rightarrow>
   ('o, 's) build_world \<Rightarrow> bool" where
  "waiting_inv answers res n lost w \<longleftrightarrow>
     (\<exists>evs. waiter_inv n evs (bw_waiter w) \<and> last_registered None evs = Some () \<and>
       (\<forall>i<n. first_value evs i = None \<longleftrightarrow> i \<in> set (slots w) \<union> lost) \<and>
       (\<forall>i<n. \<forall>v. first_value evs i = Some v \<longrightarrow> (\<exists>st. v = Some st \<and> res i st))) \<and>
     distinct (slots w) \<and> set (slots w) \<subseteq> {..<n} - lost \<and> lost \<subseteq> {..<n} \<and> (\<forall>op\<in>set (bw_reads w). read_ok answers res op) \<and>
     bw_jobs w = [] \<and> (if lost = {} then bw_calls w = [] \<and> \<not> bw_done w else length (bw_calls w) = 1 \<and> bw_done w)"

definition complete_states :: "(nat \<Rightarrow> FileReadingState \<Rightarrow> bool) \<Rightarrow> nat \<Rightarrow> FileReadingState option list \<Rightarrow> bool" where
  "complete_states res n states \<longleftrightarrow> length states = n \<and> (\<forall>i<n. \<exists>st. states ! i = Some st \<and> res i st)"

definition building_inv :: "(nat \<Rightarrow> FileReadingState \<Rightarrow> bool) \<Rightarrow> nat \<Rightarrow> nat set \<Rightarrow> ('o, 's) build_world \<Rightarrow> bool" where
  "building_inv res n lost w \<longleftrightarrow>
     lost = {} \<and> bw_reads w = [] \<and> bw_calls w = [] \<and> \<not> bw_done w \<and>
     (\<exists>states. bw_jobs w = [states] \<and> complete_states res n states)"

definition built_inv ::
  "('o, 's) generator \<Rightarrow> (nat \<Rightarrow> FileReadingState \<Rightarrow> bool) \<Rightarrow> nat \<Rightarrow> nat set \<Rightarrow> ('o, 's) build_world \<Rightarrow> bool" where
  "built_inv g res n lost w \<longleftrightarrow>
     lost = {} \<and> bw_reads w = [] \<and> bw_jobs w = [] \<and> bw_done w \<and>
     (\<exists>counter states. bw_calls w = [BuildTask g counter states] \<and> complete_states res n states)"

abbreviation build_inv where
  "build_inv answers g res n lost w \<equiv> waiting_inv answers res n lost w \<or> building_inv res n lost w \<or> built_inv g res n lost w"

lemma reader_Run_callback:
  assumes "ro_callback op = Some i"
  obtains st where "dispatched_state (reader_Run sz in_file op) = Some st"
    "read_finished (reader_Run sz in_file op) w = on_read i st w"
proof -
  have d: "\<exists>st. dispatched_state (DispatchReadCallback e s (Some i)) = Some st \<and>
      read_finished (DispatchReadCallback e s (Some i)) w = on_read i st w" for e s
    by (simp add: DispatchReadCallback_def read_finished_def)
  have "\<exists>e s. reader_Run sz in_file op = DispatchReadCallback e s (Some i)"
    by (auto simp: reader_Run_def assms Let_def split: sum.splits option.splits)
  then show thesis using d that by metis
qed

lemma waiting_read:
  assumes inv: "waiting_inv answers res n lost w" and r: "bw_reads w = a @ op # b"
    and ans: "answers (fr_path (ro_reader op)) sz in_file"
  shows "build_inv answers g res n lost (read_finished (reader_Run sz in_file op) (w\<lparr>bw_reads := a @ b\<rparr>))"
proof -
  have "read_ok answers res op" using inv r by (simp add: waiting_inv_def)
  then obtain i where i: "ro_callback op = Some i"
    and res: "\<And>st. dispatched_state (reader_Run sz in_file op) = Some st \<Longrightarrow> res i st"
    using ans unfolding read_ok_def by blast
  let ?w = "w\<lparr>bw_reads := a @ b\<rparr>"
  obtain st where st: "dispatched_state (reader_Run sz in_file op) = Some st"
    and fin: "read_finished (reader_Run sz in_file op) ?w = on_read i st ?w" by (rule reader_Run_callback [OF i])
  have slot: "i \<in> set (slots w)" "distinct (slots w)" "set (slots w) \<subseteq> {..<n} - lost" "lost \<subseteq> {..<n}"
    using inv r i by (simp_all add: waiting_inv_def)
  have slots: "set (slots ?w) = set (slots w) - {i}" "distinct (slots ?w)" using slot(2) r i by auto
  from slot have inn: "i < n" "i \<notin> lost" by auto
  obtain evs where evs: "waiter_inv n evs (bw_waiter w)" "last_registered None evs = Some ()"
    and fv: "\<forall>i<n. first_value evs i = None \<longleftrightarrow> i \<in> set (slots w) \<union> lost"
    and vs: "\<forall>i<n. \<forall>v. first_value evs i = Some v \<longrightarrow> (\<exists>st. v = Some st \<and> res i st)"
    using inv unfolding waiting_inv_def by blast
  let ?ev = "Deliver i (Some st) :: (FileReadingState option, unit) waiter_event"
  obtain c wt where f: "waiter_step ?ev (bw_waiter w) = (c, wt)" by fastforce
  have ni: "first_value evs i = None" using fv slot(1) inn by simp
  have fv': "first_value (evs @ [?ev]) j = (if j = i then Some (Some st) else first_value evs j)" for j
    using ni by (simp add: first_value_append split: option.splits)
  have new: "\<forall>j<n. first_value (evs @ [?ev]) j = None \<longleftrightarrow> j \<in> set (slots ?w) \<union> lost"
    "\<forall>j<n. \<forall>v. first_value (evs @ [?ev]) j = Some v \<longrightarrow> (\<exists>st. v = Some st \<and> res j st)"
    using fv vs inn(2) slots(1) res [OF st] by (auto simp: fv')
  have reg: "last_registered None (evs @ [?ev]) = Some ()" using evs(2) by (simp add: last_registered_append)
  have out: "on_read i st ?w = ?w\<lparr>bw_waiter := wt, bw_jobs := bw_jobs w @ (case c of None \<Rightarrow> [] | Some (_, states) \<Rightarrow> [states])\<rparr>"
    using f by (simp add: on_read_def)
  from waiter_step_inv [OF evs(1) f] show ?thesis
  proof
    assume "\<not> due n (evs @ [?ev]) \<and> c = None \<and> waiter_inv n (evs @ [?ev]) wt"
    then have "waiting_inv answers res n lost (on_read i st ?w)"
      unfolding waiting_inv_def out
      using new reg slots slot inv r by (auto simp: waiting_inv_def intro!: exI [of _ "evs @ [?ev]"])
    then show ?thesis using fin by simp
  next
    assume d: "due n (evs @ [?ev]) \<and> c = Some (the (last_registered None (evs @ [?ev])),
        map (\<lambda>i. the (first_value (evs @ [?ev]) i)) [0..<n]) \<and> fired wt"
    then have all: "\<forall>j<n. first_value (evs @ [?ev]) j \<noteq> None" by (simp add: due_def)
    then have none: "\<forall>j<n. j \<notin> set (slots ?w) \<union> lost" using new(1) by blast
    have sub: "set (slots ?w) \<subseteq> {..<n}" using slots(1) slot(3) by blast
    have "set (slots ?w) \<union> lost = {}"
    proof (rule equals0I)
      fix x assume x: "x \<in> set (slots ?w) \<union> lost"
      then have "x < n" using sub slot(4) by (simp only: Un_iff subset_iff lessThan_iff) blast
      then show False using none x by blast
    qed
    then have "lost = {}" "slots ?w = []" by (simp_all only: Un_empty set_empty)
    moreover have "complete_states res n (map (\<lambda>i. the (first_value (evs @ [?ev]) i)) [0..<n])"
      using all new(2) by (fastforce simp: complete_states_def)
    ultimately have "building_inv res n lost (on_read i st ?w)"
      using inv d unfolding building_inv_def out by (simp add: waiting_inv_def)
    then show ?thesis using fin by simp
  qed
qed

lemma build_inv_step:
  assumes "build_inv answers g res n lost w" "build_step answers g w w'"
  shows "build_inv answers g res n lost w'"
  using assms(2)
proof cases
  case (read a op b sz in_file)
  then have "waiting_inv answers res n lost w" using assms(1) by (auto simp: building_inv_def built_inv_def)
  from waiting_read [OF this read(2,3)] show ?thesis using read(1) by simp
next
  case (job a states b counter)
  then have "building_inv res n lost w" using assms(1) by (auto simp: waiting_inv_def built_inv_def)
  then have "built_inv g res n lost w'"
    using job by (auto simp: building_inv_def built_inv_def Complete_def append_eq_Cons_conv)
  then show ?thesis by blast
qed

lemma build_inv_reach:
  "(build_step answers g)\<^sup>*\<^sup>* w w' \<Longrightarrow> build_inv answers g res n lost w \<Longrightarrow> build_inv answers g res n lost w'"
proof (induction rule: rtranclp_induct)
  case (step y z)
  then show ?case using build_inv_step [of answers res n lost y g z] by (simp only:)
qed simp

text \<open>Every step uses up a read or a job, so the collection ends.\<close>

definition build_work :: "('o, 's) build_world \<Rightarrow> nat" where
  "build_work w = 2 * length (bw_reads w) + length (bw_jobs w)"

lemma build_step_work:
  assumes "build_step answers g w w'"
  shows "build_work w' < build_work w"
  using assms
proof cases
  case (read a op b sz in_file)
  have "build_work (read_finished r v) \<le> build_work v + 1" for r and v :: "('a, 'b) build_world"
    by (simp add: read_finished_def on_read_def build_work_def split: dispatched.split prod.split option.split)
  from this [of "reader_Run sz in_file op" "w\<lparr>bw_reads := a @ b\<rparr>"] show ?thesis
    unfolding read(1) using read(2) by (simp add: build_work_def)
next
  case (job a states b counter)
  then show ?thesis by (simp add: Complete_def build_work_def)
qed

lemma built_once:
  assumes "build_inv answers g res n lost w" "bw_reads w = []" "bw_jobs w = []"
  shows "length (bw_calls w) = 1 \<and>
    (lost = {} \<longrightarrow> (\<exists>counter states. bw_calls w = [BuildTask g counter states] \<and> complete_states res n states))"
  using assms(1)
proof (elim disjE)
  assume w: "waiting_inv answers res n lost w"
  then have "lost \<noteq> {}"
    using assms(2) by (auto simp: waiting_inv_def waiter_inv_def due_def)
  then show ?thesis using w by (simp add: waiting_inv_def)
qed (use assms in \<open>auto simp: building_inv_def built_inv_def\<close>)

lemma calls_bound: "build_inv answers g res n lost w \<Longrightarrow> length (bw_calls w) \<le> 1"
  by (auto simp: waiting_inv_def building_inv_def built_inv_def split: if_splits)

text \<open>What is known of the states that arrive: slot \<open>i\<close> gets a result of reading the file of the \<open>i\<close>-th reader.\<close>

definition startable :: "FileReader option \<Rightarrow> bool" where
  "startable reader =
     (case reader of None \<Rightarrow> False | Some r \<Rightarrow> reader_IsValid r \<and> fr_work_executor r \<and> fr_callback_executor r)"

definition read_result ::
  "(string \<Rightarrow> errc + nat \<Rightarrow> (string \<times> bool) option \<Rightarrow> bool) \<Rightarrow> FileReader option list \<Rightarrow> nat \<Rightarrow> FileReadingState \<Rightarrow> bool" where
  "read_result answers readers i st \<longleftrightarrow>
     (\<exists>r op sz in_file. i < length readers \<and> readers ! i = Some r \<and>
       AsyncReadFromDisk (Some new_FileReadingState) (Some i) r = Some op \<and> answers (fr_path r) sz in_file \<and>
       dispatched_state (reader_Run sz in_file op) = Some st)"

definition file_readers :: "PartSpec list \<Rightarrow> FileReader option list" where
  "file_readers parts = map sp_reader (filter sp_is_file parts)"

lemma registered_inv:
  assumes "0 < n"
  shows "waiter_inv n [Register (Some ())] (snd (OnReadyAllocated (Some ()) (new_waiter n :: (FileReadingState option, unit) waiter)))"
proof -
  let ?ev = "[Register (Some ())] :: (FileReadingState option, unit) waiter_event list"
  obtain cs wt where run: "waiter_run ?ev (new_waiter n) = (cs, wt)" by fastforce
  have "\<not> due n ?ev" "\<not> due n ([] :: (FileReadingState option, unit) waiter_event list)" using assms by (auto simp: due_def)
  then have "due_completions n ?ev = []" by (simp add: due_completions_def)
  moreover have "wt = snd (OnReadyAllocated (Some ()) (new_waiter n))" using run by (auto split: prod.splits option.splits)
  ultimately show ?thesis using waiter_run_inv [OF run] by auto
qed

text \<open>The world in the loop: the first \<open>i\<close> readers have been started.\<close>

definition starting ::
  "(string \<Rightarrow> errc + nat \<Rightarrow> (string \<times> bool) option \<Rightarrow> bool) \<Rightarrow> FileReader option list \<Rightarrow> nat \<Rightarrow> ('o, 's) build_world \<Rightarrow> bool" where
  "starting answers readers i w \<longleftrightarrow>
     bw_waiter w = bw_waiter (waiting (length readers) :: ('o, 's) build_world) \<and> slots w = [0..<i] \<and> i \<le> length readers \<and>
     (\<forall>op\<in>set (bw_reads w). read_ok answers (read_result answers readers) op) \<and>
     bw_jobs w = [] \<and> bw_calls w = [] \<and> \<not> bw_done w"

lemma starting_waiting:
  assumes "starting answers readers i w" "readers \<noteq> []"
  shows "i = length readers \<Longrightarrow> waiting_inv answers (read_result answers readers) (length readers) {} w"
    "i < length readers \<Longrightarrow>
      waiting_inv answers (read_result answers readers) (length readers) {i..<length readers} (Complete c w)"
proof -
  let ?n = "length readers" and ?ev = "[Register (Some ())] :: (FileReadingState option, unit) waiter_event list"
  have wt: "waiter_inv ?n ?ev (bw_waiter w)"
    using assms registered_inv [of ?n] by (simp add: starting_def waiting_def)
  have sl: "slots w = [0..<i]" using assms(1) by (simp add: starting_def)
  show "waiting_inv answers (read_result answers readers) ?n {} w" if "i = ?n"
    unfolding waiting_inv_def sl using assms(1) wt that by (auto simp: starting_def intro!: exI [of _ ?ev])
  have "slots (Complete c w) = [0..<i]" "bw_waiter (Complete c w) = bw_waiter w" "bw_reads (Complete c w) = bw_reads w"
    using sl by (simp_all add: Complete_def)
  then show "waiting_inv answers (read_result answers readers) ?n {i..<?n} (Complete c w)" if "i < ?n"
    unfolding waiting_inv_def using assms(1) wt that
    by (auto simp: starting_def Complete_def intro!: exI [of _ ?ev])
qed

lemma starting_next:
  assumes "starting answers readers i w" "i < length readers" "readers ! i = Some r"
    and "AsyncReadFromDisk (Some new_FileReadingState) (Some i) r = Some op"
  shows "starting answers readers (i + 1) (w\<lparr>bw_reads := bw_reads w @ [op]\<rparr>)"
proof -
  note op = AsyncReadFromDisk_simps [OF assms(4)]
  have "read_ok answers (read_result answers readers) op"
    unfolding read_ok_def read_result_def using assms(2-4) op by auto
  then show ?thesis using assms(1,2) op by (auto simp: starting_def)
qed

lemma start_reads_inv:
  assumes "starting answers readers i w" "readers = front @ file_readers parts" "length front = i" "readers \<noteq> []"
  shows "\<exists>lost. waiting_inv answers (read_result answers readers) (length readers) lost (start_reads parts i w) \<and>
    (lost = {} \<longleftrightarrow> list_all startable (file_readers parts))"
  using assms
proof (induction parts i w arbitrary: front rule: start_reads.induct)
  case (1 i w)
  have fr: "file_readers [] = []" by (simp add: file_readers_def)
  have "i = length readers" using 1(2,3) by (simp add: fr)
  from starting_waiting(1) [OF 1(1,4) this] show ?case by (intro exI [of _ "{}"]) (simp add: fr)
next
  case (2 part parts i w)
  show ?case
  proof (cases "sp_is_file part")
    case False
    then show ?thesis using 2 by (simp add: file_readers_def)
  next
    case True
    then have rd: "readers ! i = sp_reader part" "i < length readers" "file_readers (part # parts) = sp_reader part # file_readers parts"
      using 2(4,5) by (auto simp: file_readers_def nth_append)
    show ?thesis
    proof (cases "\<exists>r op. sp_reader part = Some r \<and> AsyncReadFromDisk (Some new_FileReadingState) (Some i) r = Some op")
      case False
      have "\<exists>c. start_reads (part # parts) i w = Complete c w"
      proof (cases "sp_reader part")
        case (Some r)
        then have "AsyncReadFromDisk (Some new_FileReadingState) (Some i) r = None" using False by (metis not_None_eq)
        then show ?thesis using Some True by (intro exI [of _ "(Some operation_not_supported, None)"]) simp
      qed (use True in \<open>intro exI [of _ "(Some invalid_argument, None)"], simp\<close>)
      then obtain c where c: "start_reads (part # parts) i w = Complete c w" by (elim exE)
      have "\<not> startable (sp_reader part)"
        using False by (auto simp: startable_def AsyncReadFromDisk_def split: option.splits)
      then show ?thesis
        using starting_waiting(2) [OF 2(3) 2(6) rd(2), of c] c rd by (intro exI [of _ "{i..<length readers}"]) simp
    next
      case s: True
      then obtain r op where r: "sp_reader part = Some r" and op: "AsyncReadFromDisk (Some new_FileReadingState) (Some i) r = Some op"
        by blast
      have st: "startable (sp_reader part)"
        using op r by (auto simp: startable_def AsyncReadFromDisk_def split: if_splits)
      have "starting answers readers (i + 1) (w\<lparr>bw_reads := bw_reads w @ [op]\<rparr>)"
        using starting_next [OF 2(3) rd(2)] rd(1) r op by simp
      from 2(2) [OF _ r op this, of "front @ [sp_reader part]"] show ?thesis
        using True r op rd 2(4-6) st by simp
    qed
  qed
qed

text \<open>The file parts of a form are numbered in order; every way to make a generator keeps this.\<close>

definition gen_ok :: "('o, 's) generator \<Rightarrow> bool" where
  "gen_ok g =
     (case g_kind g of MultipartForm parts n \<Rightarrow> map sp_file_index (filter sp_is_file parts) = [0..<n] | PutFile _ _ \<Rightarrow> True)"

definition gen_readers :: "('o, 's) generator \<Rightarrow> FileReader option list" where
  "gen_readers g = (case g_kind g of MultipartForm parts _ \<Rightarrow> file_readers parts | PutFile r _ \<Rightarrow> [r])"

lemma gen_ok_create:
  "gen_ok (CreateHttp (MultipartForm [] 0) h p t opts)" "gen_ok (CreateHttps (MultipartForm [] 0) ctx h p t opts)"
  "gen_ok (CreateFromUrl u (MultipartForm [] 0) ctx url opts)" "gen_ok (CreateFromUrl_default u (MultipartForm [] 0) st url opts)"
  "gen_ok (CreateHttp (PutFile r ct) h p t opts)" "gen_ok (CreateHttps (PutFile r ct) ctx h p t opts)"
  by (simp_all add: gen_ok_def CreateHttp_def CreateHttps_def CreateFromUrl_def CreateFromUrl_default_def adopt_url_def Let_def
      split: option.splits)

lemma gen_ok_add:
  "gen_ok g \<Longrightarrow> gen_ok (AddFilePart name r f ct g)" "gen_ok g \<Longrightarrow> gen_ok (AddTextPart name val ct g)"
  "gen_ok g \<Longrightarrow> gen_ok (SetFile r g)" "gen_ok g \<Longrightarrow> gen_ok (SetContentType ct g)"
  by (auto simp: gen_ok_def AddFilePart_def AddTextPart_def SetFile_def SetContentType_def split: generator_kind.splits)

lemma gen_ok_length:
  assumes "gen_ok g" "g_kind g = MultipartForm parts n"
  shows "length (file_readers parts) = n"
proof -
  have "map sp_file_index (filter sp_is_file parts) = [0..<n]" using assms by (simp add: gen_ok_def)
  from arg_cong [OF this, of length] show ?thesis by (simp add: file_readers_def)
qed

lemma starting_initial:
  assumes "readers \<noteq> []"
  shows "starting answers readers 0 (waiting (length readers))"
  using assms by (simp add: starting_def waiting_def new_build_world_def)

lemma create_inv:
  fixes g :: "('o, 's) generator"
  assumes "gen_ok g" "AsyncCreateTask True g = Some w" "g_create_error g = None" "\<forall>c. g_kind g \<noteq> PutFile None c"
  shows "\<exists>lost. build_inv answers g (read_result answers (gen_readers g)) (length (gen_readers g)) lost w \<and>
    (lost = {} \<longleftrightarrow> list_all startable (gen_readers g))"
proof (cases "g_kind g")
  case (MultipartForm parts n)
  note len = gen_ok_length [OF assms(1) MultipartForm]
  show ?thesis
  proof (cases "n = 0")
    case True
    then have "file_readers parts = []" using len by simp
    moreover have "w = new_build_world\<lparr>bw_jobs := [[]]\<rparr>" using assms(2,3) MultipartForm True by (simp add: AsyncCreateTask_def create_form_task_def create_put_task_def)
    ultimately have "building_inv (read_result answers (gen_readers g)) (length (gen_readers g)) {} w"
      by (simp add: building_inv_def new_build_world_def complete_states_def gen_readers_def MultipartForm)
    then show ?thesis using \<open>file_readers parts = []\<close> by (intro exI [of _ "{}"]) (simp add: gen_readers_def MultipartForm)
  next
    case False
    then have ne: "file_readers parts \<noteq> []" using len by auto
    have w: "w = start_reads parts 0 (waiting (length (file_readers parts)))"
      using assms(2,3) MultipartForm False len by (simp add: AsyncCreateTask_def create_form_task_def create_put_task_def)
    from start_reads_inv [OF starting_initial [OF ne], of "[]" parts] ne show ?thesis
      unfolding w gen_readers_def MultipartForm by auto
  qed
next
  case (PutFile reader c)
  then obtain r where r: "reader = Some r" using assms(4) by (cases reader) auto
  have g: "gen_readers g = [Some r]" by (simp add: gen_readers_def PutFile r)
  have s0: "starting answers [Some r] 0 (waiting 1 :: ('o, 's) build_world)" using starting_initial [of "[Some r]" answers] by simp
  show ?thesis
  proof (cases "AsyncReadFromDisk (Some new_FileReadingState) (Some (0 :: nat)) r")
    case None
    then have "\<not> startable (Some r)" by (auto simp: startable_def AsyncReadFromDisk_def split: if_splits)
    moreover have "w = Complete (Some operation_not_supported, None) (waiting 1)"
      using assms(2,3) PutFile r None by (simp add: AsyncCreateTask_def create_form_task_def create_put_task_def)
    ultimately show ?thesis
      using starting_waiting(2) [OF s0] unfolding g by (intro exI [of _ "{0..<1}"]) simp
  next
    case (Some op)
    then have st: "startable (Some r)" by (auto simp: startable_def AsyncReadFromDisk_def split: if_splits)
    have w: "w = (waiting 1)\<lparr>bw_reads := bw_reads (waiting 1 :: ('o, 's) build_world) @ [op]\<rparr>"
      using assms(2,3) PutFile r Some by (simp add: AsyncCreateTask_def create_form_task_def create_put_task_def waiting_def new_build_world_def)
    have "starting answers [Some r] 1 w" using starting_next [OF s0, of r op] Some unfolding w by simp
    from starting_waiting(1) [OF this] show ?thesis
      unfolding g using st by (intro exI [of _ "{}"]) simp
  qed
qed

lemma create_failed:
  assumes "AsyncCreateTask True g = Some w" "g_create_error g \<noteq> None \<or> (\<exists>c. g_kind g = PutFile None c)"
  shows "bw_reads w = [] \<and> bw_jobs w = [] \<and> length (bw_calls w) = 1"
  using assms by (auto simp: AsyncCreateTask_def create_form_task_def create_put_task_def new_build_world_def split: option.splits generator_kind.splits)

lemma idle_stays:
  assumes "(build_step answers g)\<^sup>*\<^sup>* w w'" "bw_reads w = []" "bw_jobs w = []"
  shows "w' = w"
  using assms(1)
proof (cases rule: converse_rtranclpE)
  case (step y)
  from step(1) show ?thesis using assms(2,3) by cases simp_all
qed simp

section \<open>From disk to disk\<close>

text \<open>A disk that does not change and does not fail, and what reading from it gives.\<close>

definition answers_of :: "disk \<Rightarrow> string \<Rightarrow> errc + nat \<Rightarrow> (string \<times> bool) option \<Rightarrow> bool" where
  "answers_of d p sz in_file \<longleftrightarrow> sz = size_on d p \<and> in_file = open_on d p"

definition state_on :: "disk \<Rightarrow> FileReader \<Rightarrow> FileReadingState" where
  "state_on d r =
     (case d (fr_path r) of
        None \<Rightarrow> \<lparr>rs_path = fr_path r, rs_ec = Some (system_error 2), rs_size = 0, rs_writer = None\<rparr>
      | Some s \<Rightarrow> \<lparr>rs_path = fr_path r, rs_ec = None, rs_size = length s,
          rs_writer = Some (FileWriter_Create s (fr_work_executor r) (fr_callback_executor r))\<rparr>)"

definition states_on :: "disk \<Rightarrow> FileReader option list \<Rightarrow> FileReadingState option list" where
  "states_on d readers = map (map_option (state_on d)) readers"

lemma complete_on_disk:
  assumes "complete_states (read_result (answers_of d) readers) (length readers) states"
  shows "states = states_on d readers"
proof (rule nth_equalityI)
  show "length states = length (states_on d readers)" using assms by (simp add: complete_states_def states_on_def)
  fix i assume "i < length states"
  then have i: "i < length readers" using assms by (simp add: complete_states_def)
  then obtain st r op where "states ! i = Some st" "readers ! i = Some r"
    "AsyncReadFromDisk (Some new_FileReadingState) (Some i) r = Some op"
    "dispatched_state (reader_Run (size_on d (fr_path r)) (open_on d (fr_path r)) op) = Some st"
    using assms by (auto simp: complete_states_def read_result_def answers_of_def)
  then show "states ! i = states_on d readers ! i"
    using read_on_disk [of i r op d] i by (simp add: states_on_def state_on_def)
qed

lemma part_file_on_disk:
  assumes "map sp_file_index (filter sp_is_file parts) = [0..<n]" "p \<in> set parts" "sp_is_file p" "sp_reader p = Some r"
    and "d (fr_path r) = Some content"
  shows "part_file (states_on d (file_readers parts)) p = Inr content"
proof -
  have "p \<in> set (filter sp_is_file parts)" using assms(2,3) by simp
  then obtain j where j: "j < length (filter sp_is_file parts)" "filter sp_is_file parts ! j = p"
    by (auto simp: in_set_conv_nth simp del: set_filter)
  have "length (filter sp_is_file parts) = n" using arg_cong [OF assms(1), of length] by simp
  moreover have "sp_file_index p = j"
    using arg_cong [OF assms(1), of "\<lambda>xs. xs ! j"] j \<open>length (filter sp_is_file parts) = n\<close> by simp
  moreover have "file_readers parts ! j = Some r" using j assms(4) by (simp add: file_readers_def)
  ultimately show ?thesis
    using j(1) assms(5) by (simp add: part_file_def states_on_def file_readers_def state_on_def)
qed

text \<open>A built generator that has come to rest.\<close>

lemma built_on_disk:
  assumes "gen_ok g" "g_create_error g = None" "list_all startable (gen_readers g)"
    and "AsyncCreateTask True g = Some w0" "(build_step (answers_of d) g)\<^sup>*\<^sup>* w0 w" "bw_reads w = []" "bw_jobs w = []"
  shows "\<exists>counter. bw_calls w = [BuildTask g counter (states_on d (gen_readers g))]"
proof -
  have "\<forall>c. g_kind g \<noteq> PutFile None c" using assms(3) by (auto simp: gen_readers_def startable_def)
  from create_inv [OF assms(1,4,2) this, of "answers_of d"] obtain lost where
    inv: "build_inv (answers_of d) g (read_result (answers_of d) (gen_readers g)) (length (gen_readers g)) lost w0" and "lost = {}"
    using assms(3) by (elim exE conjE) (rule that, simp_all)
  from built_once [OF build_inv_reach [OF assms(5) inv] assms(6,7)] \<open>lost = {}\<close> obtain counter states where
    "bw_calls w = [BuildTask g counter states]" "complete_states (read_result (answers_of d) (gen_readers g)) (length (gen_readers g)) states"
    by auto
  then show ?thesis using complete_on_disk by blast
qed

lemma dump_of_part:
  assumes "AsyncDumpToDisk k path (Some f) parsed = Some op" "GetFileWriter k parsed = Some w" "fw_Size w \<le> m"
  shows "fst (writer_Run (Some m) sd op) = sd(path \<mapsto> fw_data w)"
  using assms write_on_disk(1) [of path f w op m sd] by (simp add: AsyncDumpToDisk_def split: if_splits)

section \<open>Properties\<close>

text \<open>
  (C16) However many files a generator reads, in whatever order and with whatever result the reads finish, its
  callback is never called twice, the collection always can go on until no work is left, every step uses
  work up, and when none is left the callback has been called exactly once.
\<close>

theorem upload_callback_runs_once:
  assumes "gen_ok g" "AsyncCreateTask True g = Some w0" "(build_step answers g)\<^sup>*\<^sup>* w0 w" "\<And>p. \<exists>sz in_file. answers p sz in_file"
  shows "length (bw_calls w) \<le> 1 \<and> (\<forall>w'. build_step answers g w w' \<longrightarrow> build_work w' < build_work w) \<and>
    (if bw_reads w = [] \<and> bw_jobs w = [] then length (bw_calls w) = 1 else (\<exists>w'. build_step answers g w w'))"
proof -
  have "length (bw_calls w) \<le> 1 \<and> (bw_reads w = [] \<and> bw_jobs w = [] \<longrightarrow> length (bw_calls w) = 1)"
  proof (cases "g_create_error g \<noteq> None \<or> (\<exists>c. g_kind g = PutFile None c)")
    case True
    note f = create_failed [OF assms(2) True]
    then have "w = w0" using idle_stays [OF assms(3)] by (simp only: simp_thms)
    then show ?thesis using f by simp
  next
    case False
    then have "g_create_error g = None" "\<forall>c. g_kind g \<noteq> PutFile None c" by simp_all
    from create_inv [OF assms(1,2) this, of answers] obtain lost where
      "build_inv answers g (read_result answers (gen_readers g)) (length (gen_readers g)) lost w0" by (elim exE conjE) (rule that)
    note inv = build_inv_reach [OF assms(3) this]
    show ?thesis using calls_bound [OF inv] built_once [OF inv] by simp
  qed
  moreover have "\<exists>w'. build_step answers g w w'" if ne: "\<not> (bw_reads w = [] \<and> bw_jobs w = [])"
  proof (cases "bw_reads w")
    case (Cons op b)
    obtain sz in_file where "answers (fr_path (ro_reader op)) sz in_file" using assms(4) by blast
    from build_step.read [of w "[]" op b answers sz in_file g, OF _ this] show ?thesis using Cons by auto
  next
    case Nil
    then obtain states b where "bw_jobs w = [] @ states # b" using ne by (cases "bw_jobs w") auto
    from build_step.job [OF this] show ?thesis by blast
  qed
  ultimately show ?thesis using build_step_work by auto
qed


text \<open>
  A file that is \<^verbatim>\<open>PUT\<close> arrives: the request built from a file of the client's disk makes the
  server's processor write the content of that file.
\<close>

theorem put_file_arrives:
  assumes "g_kind g = PutFile (Some r) ct" "g_create_error g = None" "startable (Some r)" "d (fr_path r) = Some content"
    and "AsyncCreateTask True g = Some w0" "(build_step (answers_of d) g)\<^sup>*\<^sup>* w0 w" "bw_reads w = []" "bw_jobs w = []"
    and "path \<noteq> []" "length content \<le> m"
  shows "\<exists>task op. bw_calls w = [(None, Some task)] \<and> rq_body (ct_request task) = content \<and>
    put_AsyncDumpToDisk path (Some f) (PutProcessor_Create True True (ct_request task)) = Some op \<and>
    fst (writer_Run (Some m) sd op) = sd(path \<mapsto> content)"
proof -
  have g: "gen_ok g" "gen_readers g = [Some r]" by (simp_all add: gen_ok_def gen_readers_def assms(1))
  obtain counter where calls: "bw_calls w = [BuildTask g counter (states_on d [Some r])]"
    using built_on_disk [OF g(1) assms(2) _ assms(5-8)] assms(3) g(2) by auto
  let ?task = "make_task g verb_put (if ct = [] then ''application/octet-stream'' else ct) content"
  let ?w = "FileWriter_Create content True True"
  have "BuildTask g counter (states_on d [Some r]) = (None, Some ?task)"
    using assms(4) by (simp add: BuildTask_def assms(1) BuildTask_put_def states_on_def state_on_def)
  moreover obtain op where op: "AsyncWriteToDisk path (Some new_FileWritingState) (Some f) ?w = Some op"
    using assms(9) by (simp add: AsyncWriteToDisk_def)
  moreover have "put_AsyncDumpToDisk path (Some f) (PutProcessor_Create True True (ct_request ?task)) = Some op"
    using op assms(9) by (simp add: put_AsyncDumpToDisk_def PutProcessor_Create_def make_task_def)
  moreover have "fst (writer_Run (Some m) sd op) = sd(path \<mapsto> content)"
    using write_on_disk(1) [OF op, of m sd] assms(10) by simp
  moreover have "rq_body (ct_request ?task) = content" by (simp add: make_task_def)
  ultimately show ?thesis using calls by auto
qed

text \<open>A form with a text and a file, and a file to put, on a client's disk.\<close>

definition demo_disk :: disk where
  "demo_disk = [''/d/a.txt'' \<mapsto> ''hello'']"

definition demo_reader :: FileReader where
  "demo_reader = FileReader_Create ''/d/a.txt'' True True"

definition demo_form :: "(unit, unit) generator" where
  "demo_form = AddFilePart ''f'' (Some demo_reader) [] [] (AddTextPart ''t'' ''v'' [] (CreateHttp (MultipartForm [] 0) ''h'' ''80'' ''/'' ()))"

definition demo_put :: "(unit, unit) generator" where
  "demo_put = CreateHttp (PutFile (Some demo_reader) []) ''h'' ''80'' ''/'' ()"

definition demo_run_build :: "(unit, unit) generator \<Rightarrow> (unit, unit) build_world" where
  "demo_run_build g =
     (let w = the (AsyncCreateTask True g);
          w1 = read_finished (reader_Run (Inr 5) (Some (''hello'', False)) (hd (bw_reads w))) (w\<lparr>bw_reads := []\<rparr>)
      in Complete (BuildTask g 0 (hd (bw_jobs w1))) (w1\<lparr>bw_jobs := []\<rparr>))"

lemma demo_gen_ok: "gen_ok demo_form" "gen_ok demo_put"
  unfolding demo_form_def demo_put_def by (intro gen_ok_add gen_ok_create)+

lemma demo_start:
  "AsyncCreateTask True demo_form = Some (the (AsyncCreateTask True demo_form))"
  "AsyncCreateTask True demo_put = Some (the (AsyncCreateTask True demo_put))"
  by code_simp+

lemma demo_answers: "answers_of demo_disk ''/d/a.txt'' (Inr 5) (Some (''hello'', False))"
  by (simp add: answers_of_def size_on_def open_on_def demo_disk_def)

lemma demo_build_reach:
  assumes "g = demo_form \<or> g = demo_put"
  shows "(build_step (answers_of demo_disk) g)\<^sup>*\<^sup>* (the (AsyncCreateTask True g)) (demo_run_build g)"
proof -
  let ?w = "the (AsyncCreateTask True g)"
  let ?w1 = "read_finished (reader_Run (Inr 5) (Some (''hello'', False)) (hd (bw_reads ?w))) (?w\<lparr>bw_reads := []\<rparr>)"
  have r: "bw_reads ?w = [] @ hd (bw_reads ?w) # []" "fr_path (ro_reader (hd (bw_reads ?w))) = ''/d/a.txt''"
    "bw_jobs ?w1 = [] @ hd (bw_jobs ?w1) # []"
    using assms by (elim disjE; hypsubst; code_simp)+
  have "build_step (answers_of demo_disk) g ?w ?w1"
    using build_step.read [OF r(1), of "answers_of demo_disk" "Inr 5" "Some (''hello'', False)" g] r(2) demo_answers by simp
  moreover have "build_step (answers_of demo_disk) g ?w1 (demo_run_build g)"
    using build_step.job [OF r(3), of "answers_of demo_disk" g 0] by (simp add: demo_run_build_def Let_def)
  ultimately show ?thesis by (meson converse_rtranclp_into_rtranclp r_into_rtranclp)
qed

theorem upload_callback_runs_once_witness:
  "length (bw_calls (demo_run_build demo_form)) = 1"
proof -
  have ans: "\<exists>sz in_file. answers_of demo_disk p sz in_file" for p by (simp add: answers_of_def)
  have "bw_reads (demo_run_build demo_form) = []" "bw_jobs (demo_run_build demo_form) = []" by code_simp+
  then show ?thesis
    using upload_callback_runs_once [OF demo_gen_ok(1) demo_start(1) demo_build_reach [OF disjI1 [OF refl]] ans] by simp
qed

theorem put_file_arrives_witness:
  "\<exists>task op. bw_calls (demo_run_build demo_put) = [(None, Some task)] \<and> rq_body (ct_request task) = ''hello'' \<and>
     put_AsyncDumpToDisk ''/s'' (Some ()) (PutProcessor_Create True True (ct_request task)) = Some op \<and>
     fst (writer_Run (Some 9) (\<lambda>_. None) op) = [''/s'' \<mapsto> ''hello'']"
proof -
  have k: "g_kind demo_put = PutFile (Some demo_reader) []" "g_create_error demo_put = None"
    by (simp_all add: demo_put_def CreateHttp_def)
  have s: "startable (Some demo_reader)" by code_simp
  have d: "demo_disk (fr_path demo_reader) = Some ''hello''" by (simp add: demo_disk_def demo_reader_def)
  have q: "bw_reads (demo_run_build demo_put) = []" "bw_jobs (demo_run_build demo_put) = []" by code_simp+
  from put_file_arrives [OF k s d demo_start(2) demo_build_reach [OF disjI2 [OF refl]] q, of "''/s''" 9] show ?thesis by simp
qed


end
