(* ===== verification/Stream_Builder.thy ===== *)
theory Stream_Builder
  imports Std_String "HOL-Library.Multiset"
begin

text \<open>
  How the client gets a connection (\<^verbatim>\<open>connection/client/stream_builder.cc\<close>, \<^verbatim>\<open>stream_slot.h\<close>): a builder
  connects directly, and decorators around it pool idle connections, defer the TLS handshake for
  WebSockets, and tunnel through a proxy. An \<^verbatim>\<open>Acquire\<close> is a chain of asynchronous calls in which each
  continuation starts the next one and which touches shared state only at its start, so it is a function
  of the answers the network gives to its calls.
\<close>

section \<open>Keys, transports and slots\<close>

text \<open>\<open>'s\<close> are SSL contexts; a null pointer is \<open>None\<close>.\<close>

record 's ConnectionKey =
  ck_scheme :: string
  ck_host :: string
  ck_port :: string
  ck_ssl_ctx :: "'s option"
  ck_verify_peer :: bool
  ck_proxy_host :: string
  ck_proxy_port :: string
  ck_proxy_ssl_ctx :: "'s option"

definition has_proxy :: "'s ConnectionKey \<Rightarrow> bool" where
  "has_proxy key \<longleftrightarrow> ck_proxy_host key \<noteq> []"

text \<open>
  \<^verbatim>\<open>operator==\<close> compares seven of the eight fields; the pool is a map whose keys are compared with it, that
  is, a map from what it compares.
\<close>

type_synonym 's identity = "string \<times> string \<times> string \<times> 's option \<times> bool \<times> string \<times> string"

definition identity :: "'s ConnectionKey \<Rightarrow> 's identity" where
  "identity k = (ck_scheme k, ck_host k, ck_port k, ck_ssl_ctx k, ck_verify_peer k, ck_proxy_host k, ck_proxy_port k)"

definition key_eq :: "'s ConnectionKey \<Rightarrow> 's ConnectionKey \<Rightarrow> bool" where
  "key_eq k other \<longleftrightarrow>
     ck_scheme k = ck_scheme other \<and> ck_host k = ck_host other \<and> ck_port k = ck_port other \<and>
     ck_ssl_ctx k = ck_ssl_ctx other \<and> ck_verify_peer k = ck_verify_peer other \<and>
     ck_proxy_host k = ck_proxy_host other \<and> ck_proxy_port k = ck_proxy_port other"

text \<open>
  A transport: the number of its socket, the host and port it is connected to, the text it sent to open a
  tunnel, and its TLS layer with the context, the SNI name and the name the peer's certificate is checked
  against (\<open>None\<close> without verification).
\<close>

record 's tls_layer =
  tls_ctx :: "'s option"
  tls_sni :: string
  tls_verified :: "string option"

record 's transport =
  tr_socket :: nat
  tr_peer :: "string \<times> string"
  tr_tunnel :: "string option"
  tr_tls :: "'s tls_layer option"

record 's StreamSlot =
  sl_key :: "'s ConnectionKey"
  sl_stream :: "'s transport option"
  sl_sni_hostname :: string
  sl_http_version :: nat
  sl_upstream_closed :: bool
  sl_requests_served :: nat
  sl_idle_deadline :: "int option"
  sl_deferred_ssl_ctx :: "'s option"
  sl_deferred_verify_peer :: bool

definition new_key :: "'s ConnectionKey" where
  "new_key = \<lparr>ck_scheme = [], ck_host = [], ck_port = [], ck_ssl_ctx = None, ck_verify_peer = True, ck_proxy_host = [],
              ck_proxy_port = [], ck_proxy_ssl_ctx = None\<rparr>"

definition new_slot :: "'s StreamSlot" where
  "new_slot = \<lparr>sl_key = new_key, sl_stream = None, sl_sni_hostname = [], sl_http_version = 11, sl_upstream_closed = False,
               sl_requests_served = 0, sl_idle_deadline = None, sl_deferred_ssl_ctx = None, sl_deferred_verify_peer = True\<rparr>"

definition IsCompatible :: "'s ConnectionKey \<Rightarrow> 's StreamSlot \<Rightarrow> bool" where
  "IsCompatible other slot \<longleftrightarrow> key_eq (sl_key slot) other"

definition IsReusable :: "int \<Rightarrow> 's StreamSlot \<Rightarrow> bool" where
  "IsReusable now slot \<longleftrightarrow>
     (if sl_stream slot = None then False
      else if sl_upstream_closed slot then False
      else (case sl_idle_deadline slot of Some t \<Rightarrow> now < t | None \<Rightarrow> True))"

definition HasTcpStream :: "'s StreamSlot \<Rightarrow> bool" where
  "HasTcpStream slot = (case sl_stream slot of Some t \<Rightarrow> tr_tls t = None | None \<Rightarrow> False)"

section \<open>The network\<close>

text \<open>
  The answers to one chain: errors of name resolution, of connecting, of setting the SNI name, of the
  handshake and of writing (\<open>None\<close> for success), and the response to a tunnel request. Each call happens at
  most once in a chain.
\<close>

datatype builder_error = be_invalid_argument | be_protocol_error | be_connection_refused | be_network nat

record answers =
  an_socket :: nat
  an_resolve :: "nat option"
  an_connect :: "nat option"
  an_sni :: "nat option"
  an_handshake :: "nat option"
  an_write :: "nat option"
  an_response :: "nat + string"

section \<open>Connecting directly\<close>

definition connected :: "answers \<Rightarrow> 's ConnectionKey \<Rightarrow> 's transport" where
  "connected an key = \<lparr>tr_socket = an_socket an, tr_peer = (ck_host key, ck_port key), tr_tunnel = None, tr_tls = None\<rparr>"

definition tls_for :: "'s option \<Rightarrow> 's ConnectionKey \<Rightarrow> 's tls_layer" where
  "tls_for ctx key =
     \<lparr>tls_ctx = ctx, tls_sni = ck_host key, tls_verified = (if ck_verify_peer key then Some (ck_host key) else None)\<rparr>"

definition DoDirectTcpConnect :: "answers \<Rightarrow> 's ConnectionKey \<Rightarrow> builder_error + 's StreamSlot" where
  "DoDirectTcpConnect an key =
     (case an_connect an of
        Some ec \<Rightarrow> Inl (be_network ec)
      | None \<Rightarrow> Inr (new_slot\<lparr>sl_key := key, sl_stream := Some (connected an key), sl_http_version := 11\<rparr>))"

definition DoDirectSslConnect :: "answers \<Rightarrow> 's ConnectionKey \<Rightarrow> builder_error + 's StreamSlot" where
  "DoDirectSslConnect an key =
     (case an_connect an of
        Some ec \<Rightarrow> Inl (be_network ec)
      | None \<Rightarrow>
          (case an_sni an of
             Some ec \<Rightarrow> Inl (be_network ec)
           | None \<Rightarrow>
               (let stream = (connected an key)\<lparr>tr_tls := Some (tls_for (ck_ssl_ctx key) key)\<rparr>
                in case an_handshake an of
                     Some ec \<Rightarrow> Inl (be_network ec)
                   | None \<Rightarrow> Inr (new_slot\<lparr>sl_key := key, sl_stream := Some stream, sl_sni_hostname := ck_host key,
                                          sl_http_version := 11\<rparr>))))"

definition direct_Acquire :: "answers \<Rightarrow> 's ConnectionKey \<Rightarrow> builder_error + 's StreamSlot" where
  "direct_Acquire an key =
     (if ck_scheme key = ''https'' \<and> ck_ssl_ctx key = None then Inl be_invalid_argument
      else case an_resolve an of
             Some ec \<Rightarrow> Inl (be_network ec)
           | None \<Rightarrow> if ck_ssl_ctx key \<noteq> None then DoDirectSslConnect an key else DoDirectTcpConnect an key)"

section \<open>WebSocket connections\<close>

definition DoWebSocketTcpConnect :: "answers \<Rightarrow> 's ConnectionKey \<Rightarrow> builder_error + 's StreamSlot" where
  "DoWebSocketTcpConnect an key =
     (case an_connect an of
        Some ec \<Rightarrow> Inl (be_network ec)
      | None \<Rightarrow> Inr (new_slot\<lparr>sl_key := key, sl_stream := Some (connected an key), sl_deferred_ssl_ctx := ck_ssl_ctx key,
                             sl_deferred_verify_peer := ck_verify_peer key, sl_sni_hostname := ck_host key,
                             sl_http_version := 11\<rparr>))"

section \<open>Tunnels\<close>

definition connect_request :: "'s ConnectionKey \<Rightarrow> string" where
  "connect_request key =
     (let connect_target = ck_host key @ '':'' @ ck_port key
      in ''CONNECT '' @ connect_target @ '' HTTP/1.1'' @ [CHR 0x0D, CHR 0x0A] @ ''Host: '' @ connect_target @ [CHR 0x0D, CHR 0x0A] @
         ''Proxy-Connection: Keep-Alive'' @ [CHR 0x0D, CHR 0x0A] @ [CHR 0x0D, CHR 0x0A])"

definition tunnel_status :: "string \<Rightarrow> int option" where
  "tunnel_status resp =
     (case find_char (CHR '' '') resp of
        None \<Rightarrow> None
      | Some space1 \<Rightarrow>
          if space1 + 1 \<ge> length resp then None
          else map_option fst (from_chars_int (substr resp (space1 + 1) (find_char (CHR '' '') (drop (space1 + 1) resp)))))"

definition DoProxyTlsHandshake :: "answers \<Rightarrow> 's ConnectionKey \<Rightarrow> 's transport \<Rightarrow> builder_error + 's StreamSlot" where
  "DoProxyTlsHandshake an original_key tcp_stream =
     (case an_sni an of
        Some ec \<Rightarrow> Inl (be_network ec)
      | None \<Rightarrow>
          (let ssl_stream = tcp_stream\<lparr>tr_tls := Some (tls_for (ck_proxy_ssl_ctx original_key) original_key)\<rparr>
           in case an_handshake an of
                Some ec \<Rightarrow> Inl (be_network ec)
              | None \<Rightarrow> Inr (new_slot\<lparr>sl_key := original_key, sl_stream := Some ssl_stream,
                                     sl_sni_hostname := ck_host original_key, sl_http_version := 11\<rparr>)))"

definition DoProxyConnect :: "answers \<Rightarrow> 's ConnectionKey \<Rightarrow> 's transport \<Rightarrow> builder_error + 's StreamSlot" where
  "DoProxyConnect an original_key tcp_stream =
     (if ck_proxy_ssl_ctx original_key = None then Inl be_invalid_argument
      else case an_write an of
             Some ec \<Rightarrow> Inl (be_network ec)
           | None \<Rightarrow>
               (let tcp_stream = tcp_stream\<lparr>tr_tunnel := Some (connect_request original_key)\<rparr>
                in case an_response an of
                     Inl ec \<Rightarrow> Inl (be_network ec)
                   | Inr resp \<Rightarrow>
                       (case tunnel_status resp of
                          None \<Rightarrow> Inl be_protocol_error
                        | Some status \<Rightarrow>
                            if status \<noteq> 200 then Inl be_connection_refused
                            else DoProxyTlsHandshake an original_key tcp_stream)))"

definition OnProxyTcpAcquired ::
  "answers \<Rightarrow> 's ConnectionKey \<Rightarrow> builder_error + 's StreamSlot \<Rightarrow> builder_error + 's StreamSlot" where
  "OnProxyTcpAcquired an original_key result =
     (case result of
        Inl ec \<Rightarrow> Inl ec
      | Inr slot \<Rightarrow>
          if \<not> HasTcpStream slot then Inl be_invalid_argument
          else DoProxyConnect an original_key (the (sl_stream slot)))"

definition proxy_key_of :: "'s ConnectionKey \<Rightarrow> 's ConnectionKey" where
  "proxy_key_of key =
     new_key\<lparr>ck_scheme := ''http'', ck_host := ck_proxy_host key, ck_port := ck_proxy_port key, ck_ssl_ctx := None,
             ck_verify_peer := False\<rparr>"

section \<open>Builders\<close>

text \<open>
  A builder is a stack of decorators on the direct one; a pooled one has its idle timeout and its pool, a
  queue of slots per key.
\<close>

type_synonym 's pool = "('s identity, 's StreamSlot list) umap"

datatype 's builder =
    Direct
  | Pooled "'s builder" int "'s pool"
  | WebSocketOn "'s builder" "'s option"
  | ProxyOn "'s builder"

text \<open>
  The loop over the idle slots of a key; \<open>now i\<close> is the clock at the \<open>i\<close>-th look at it. The result is the slot found and
  the queue left.
\<close>

fun pool_loop :: "(nat \<Rightarrow> int) \<Rightarrow> nat \<Rightarrow> 's ConnectionKey \<Rightarrow> 's StreamSlot list \<Rightarrow> 's StreamSlot option \<times> 's StreamSlot list" where
  "pool_loop now i key [] = (None, [])"
| "pool_loop now i key (slot # dq) =
     (if IsCompatible key slot \<and> IsReusable (now i) slot then (Some slot, dq) else pool_loop now (Suc i) key dq)"

definition pool_take :: "(nat \<Rightarrow> int) \<Rightarrow> 's ConnectionKey \<Rightarrow> 's pool \<Rightarrow> 's StreamSlot option \<times> 's pool" where
  "pool_take now key pool =
     (case map_of pool (identity key) of
        None \<Rightarrow> (None, pool)
      | Some dq \<Rightarrow>
          (case pool_loop now 0 key dq of
             (Some slot, dq') \<Rightarrow> (Some slot, insert_or_assign (identity key) dq' pool)
           | (None, dq') \<Rightarrow> (None, erase_key (identity key) pool)))"

text \<open>
  What each decorator does with a call, given the \<^verbatim>\<open>Acquire\<close> of the builder it wraps; \<open>Acquire\<close> is the
  dispatch on the class of the builder.
\<close>

type_synonym 's acquired = "(builder_error + 's StreamSlot) \<times> 's builder"

definition pooled_Acquire ::
  "(nat \<Rightarrow> int) \<Rightarrow> ('s ConnectionKey \<Rightarrow> 's acquired) \<Rightarrow> 's builder \<Rightarrow> int \<Rightarrow> 's pool \<Rightarrow> 's ConnectionKey \<Rightarrow> 's acquired" where
  [simp]: "pooled_Acquire now inner_Acquire inner idle_timeout pool key =
     (case pool_take now key pool of
        (Some slot, pool') \<Rightarrow> (Inr slot, Pooled inner idle_timeout pool')
      | (None, pool') \<Rightarrow> (case inner_Acquire key of (r, inner') \<Rightarrow> (r, Pooled inner' idle_timeout pool')))"

definition websocket_Acquire ::
  "answers \<Rightarrow> ('s ConnectionKey \<Rightarrow> 's acquired) \<Rightarrow> 's builder \<Rightarrow> 's option \<Rightarrow> 's ConnectionKey \<Rightarrow> 's acquired" where
  [simp]: "websocket_Acquire an inner_Acquire inner ssl_ctx key =
     (if ck_scheme key = ''https'' \<and> ck_ssl_ctx key = None then (Inl be_invalid_argument, WebSocketOn inner ssl_ctx)
      else if ck_ssl_ctx key = None
      then (case inner_Acquire key of (r, inner') \<Rightarrow> (r, WebSocketOn inner' ssl_ctx))
      else (case an_resolve an of
              Some ec \<Rightarrow> (Inl (be_network ec), WebSocketOn inner ssl_ctx)
            | None \<Rightarrow> (DoWebSocketTcpConnect an key, WebSocketOn inner ssl_ctx)))"

definition proxied_Acquire ::
  "answers \<Rightarrow> ('s ConnectionKey \<Rightarrow> 's acquired) \<Rightarrow> 's builder \<Rightarrow> 's ConnectionKey \<Rightarrow> 's acquired" where
  [simp]: "proxied_Acquire an inner_Acquire inner key =
     (if ck_scheme key = ''https'' \<and> has_proxy key \<and> ck_proxy_ssl_ctx key = None then (Inl be_invalid_argument, ProxyOn inner)
      else if \<not> has_proxy key \<or> ck_scheme key \<noteq> ''https''
      then (case inner_Acquire key of (r, inner') \<Rightarrow> (r, ProxyOn inner'))
      else (case inner_Acquire (proxy_key_of key) of (r, inner') \<Rightarrow> (OnProxyTcpAcquired an key r, ProxyOn inner')))"

fun Acquire :: "(nat \<Rightarrow> int) \<Rightarrow> answers \<Rightarrow> 's ConnectionKey \<Rightarrow> 's builder \<Rightarrow> 's acquired" where
  "Acquire now an key Direct = (direct_Acquire an key, Direct)"
| "Acquire now an key (Pooled inner idle_timeout pool) =
     pooled_Acquire now (\<lambda>key. Acquire now an key inner) inner idle_timeout pool key"
| "Acquire now an key (WebSocketOn inner ssl_ctx) = websocket_Acquire an (\<lambda>key. Acquire now an key inner) inner ssl_ctx key"
| "Acquire now an key (ProxyOn inner) = proxied_Acquire an (\<lambda>key. Acquire now an key inner) inner key"

text \<open>Giving a slot back; the slots that are closed are returned too.\<close>

definition pool_put :: "'s StreamSlot \<Rightarrow> 's pool \<Rightarrow> 's pool" where
  "pool_put slot pool =
     insert_or_assign (identity (sl_key slot)) ((case map_of pool (identity (sl_key slot)) of None \<Rightarrow> [] | Some dq \<Rightarrow> dq) @ [slot]) pool"

definition pooled_Return ::
  "int \<Rightarrow> int \<Rightarrow> ('s StreamSlot \<Rightarrow> 's StreamSlot list \<times> 's builder) \<Rightarrow> 's builder \<Rightarrow> int \<Rightarrow> 's pool \<Rightarrow> 's StreamSlot \<Rightarrow>
   's StreamSlot list \<times> 's builder" where
  [simp]: "pooled_Return now1 now2 inner_Return inner idle_timeout pool slot =
     (if \<not> IsReusable now1 slot
      then (case inner_Return slot of (closed, inner') \<Rightarrow> (closed, Pooled inner' idle_timeout pool))
      else ([], Pooled inner idle_timeout (pool_put (slot\<lparr>sl_idle_deadline := Some (now2 + idle_timeout)\<rparr>) pool)))"

fun Return :: "int \<Rightarrow> int \<Rightarrow> 's StreamSlot \<Rightarrow> 's builder \<Rightarrow> 's StreamSlot list \<times> 's builder" where
  "Return now1 now2 slot Direct = ([slot], Direct)"
| "Return now1 now2 slot (Pooled inner idle_timeout pool) =
     pooled_Return now1 now2 (\<lambda>slot. Return now1 now2 slot inner) inner idle_timeout pool slot"
| "Return now1 now2 slot (WebSocketOn inner ssl_ctx) =
     (case Return now1 now2 slot inner of (closed, inner') \<Rightarrow> (closed, WebSocketOn inner' ssl_ctx))"
| "Return now1 now2 slot (ProxyOn inner) =
     (case Return now1 now2 slot inner of (closed, inner') \<Rightarrow> (closed, ProxyOn inner'))"

section \<open>Where connections are\<close>

text \<open>The idle slots of a builder, and the sockets of slots.\<close>

fun pooled :: "'s builder \<Rightarrow> 's StreamSlot list" where
  "pooled Direct = []"
| "pooled (Pooled inner idle_timeout pool) = concat (map snd pool) @ pooled inner"
| "pooled (WebSocketOn inner ssl_ctx) = pooled inner"
| "pooled (ProxyOn inner) = pooled inner"

definition sockets :: "'s StreamSlot list \<Rightarrow> nat multiset" where
  "sockets slots = mset (map tr_socket (List.map_filter sl_stream slots))"

fun result_sockets :: "builder_error + 's StreamSlot \<Rightarrow> nat multiset" where
  "result_sockets (Inl ec) = {#}"
| "result_sockets (Inr slot) = sockets [slot]"

lemma sockets_simps [simp]:
  "sockets [] = {#}" "sockets (a @ b) = sockets a + sockets b"
  "sockets (slot # b) = (case sl_stream slot of None \<Rightarrow> {#} | Some t \<Rightarrow> {#tr_socket t#}) + sockets b"
  by (simp_all add: sockets_def map_filter_def split: option.splits)

lemma sockets_Cons: "sockets (slot # b) = sockets [slot] + sockets b"
  by simp

lemma pool_loop_sockets:
  "pool_loop now i key dq = (r, dq') \<Longrightarrow> (case r of None \<Rightarrow> {#} | Some slot \<Rightarrow> sockets [slot]) + sockets dq' \<subseteq># sockets dq"
proof (induction now i key dq rule: pool_loop.induct)
  case (2 now i key slot dq)
  show ?case
  proof (cases "IsCompatible key slot \<and> IsReusable (now i) slot")
    case False
    then have "pool_loop now (Suc i) key dq = (r, dq')" using 2(2) by (simp split: if_splits)
    from 2(1) [OF False this] have "(case r of None \<Rightarrow> {#} | Some slot \<Rightarrow> sockets [slot]) + sockets dq' \<subseteq># sockets dq" .
    also have "sockets dq \<subseteq># sockets (slot # dq)" by simp
    finally show ?thesis .
  qed (use 2 in auto)
qed auto

lemma pool_loop_result:
  "pool_loop now i key dq = (r, dq') \<Longrightarrow> set dq' \<subseteq> set dq \<and>
    (case r of None \<Rightarrow> dq' = [] | Some slot \<Rightarrow> slot \<in> set dq \<and> key_eq (sl_key slot) key \<and> (\<exists>j. IsReusable (now j) slot))"
  by (induction now i key dq rule: pool_loop.induct) (auto simp: IsCompatible_def split: if_splits option.splits)

lemma pool_split:
  assumes "map_of pool k = Some dq"
  obtains a b where "pool = a @ (k, dq) # b" "map_of a k = None"
  using assms
proof (induction pool arbitrary: thesis)
  case (Cons kv pool)
  obtain k' dq' where kv: "kv = (k', dq')" by (cases kv)
  show ?case
  proof (cases "k' = k")
    case True
    then show ?thesis using Cons.prems kv by (intro Cons.prems(1) [of "[]" pool]) auto
  next
    case False
    then obtain a b where "pool = a @ (k, dq) # b" "map_of a k = None" using Cons kv by auto
    then show ?thesis using False kv by (intro Cons.prems(1) [of "(k', dq') # a" b]) auto
  qed
qed simp

lemma insert_or_assign_at: "map_of a k = None \<Longrightarrow> insert_or_assign k v (a @ (k, w) # b) = a @ (k, v) # b"
  by (induction a) (auto split: if_splits)

lemma erase_key_sub: "sockets (concat (map snd (erase_key k pool))) \<subseteq># sockets (concat (map snd pool))"
proof (induction pool)
  case (Cons kv pool)
  show ?case
  proof (cases "fst kv = k")
    case True
    then have "sockets (concat (map snd (erase_key k (kv # pool)))) \<subseteq># sockets (concat (map snd pool))"
      using Cons by (simp add: erase_key_def)
    also have "\<dots> \<subseteq># sockets (concat (map snd (kv # pool)))" by simp
    finally show ?thesis .
  qed (use Cons in \<open>simp add: erase_key_def\<close>)
qed (simp add: erase_key_def)

lemma pool_take_sockets:
  assumes "pool_take now key pool = (r, pool')"
  shows "(case r of None \<Rightarrow> {#} | Some slot \<Rightarrow> sockets [slot]) + sockets (concat (map snd pool')) \<subseteq># sockets (concat (map snd pool))"
proof (cases "map_of pool (identity key)")
  case None
  then show ?thesis using assms by (auto simp: pool_take_def)
next
  case (Some dq)
  obtain a b where ab: "pool = a @ (identity key, dq) # b" "map_of a (identity key) = None" by (rule pool_split [OF Some])
  obtain r' dq' where l: "pool_loop now 0 key dq = (r', dq')" by fastforce
  show ?thesis
  proof (cases r')
    case None
    then show ?thesis using assms Some l erase_key_sub [of "identity key" pool] by (auto simp: pool_take_def)
  next
    case (Some slot)
    then have p': "r = Some slot" "pool' = a @ (identity key, dq') # b"
      using assms \<open>map_of pool (identity key) = Some dq\<close> l ab insert_or_assign_at [OF ab(2), of dq' dq b]
      by (auto simp: pool_take_def)
    have "sockets [slot] + sockets dq' \<subseteq># sockets dq" using pool_loop_sockets [OF l] Some by simp
    then show ?thesis unfolding p' ab(1) by (simp add: ac_simps)
  qed
qed

lemma fresh_sockets:
  "result_sockets (direct_Acquire an key) \<subseteq># {#an_socket an#}" "result_sockets (DoWebSocketTcpConnect an key) \<subseteq># {#an_socket an#}"
  by (simp_all add: direct_Acquire_def DoDirectSslConnect_def DoDirectTcpConnect_def DoWebSocketTcpConnect_def connected_def Let_def
      split: option.split)

lemma tunnel_sockets: "result_sockets (OnProxyTcpAcquired an key r) \<subseteq># result_sockets r"
proof (cases r)
  case (Inr slot)
  show ?thesis
  proof (cases "sl_stream slot")
    case (Some t)
    have "result_sockets (DoProxyConnect an key t) \<subseteq># {#tr_socket t#}"
      by (simp add: DoProxyConnect_def DoProxyTlsHandshake_def Let_def split: option.split sum.split)
    then show ?thesis using Inr Some by (simp add: OnProxyTcpAcquired_def)
  qed (use Inr in \<open>simp add: OnProxyTcpAcquired_def HasTcpStream_def\<close>)
qed (simp add: OnProxyTcpAcquired_def)

text \<open>An acquisition takes a connection out of the pool or opens a new one, and duplicates none.\<close>

lemma Acquire_sockets:
  "Acquire now an key b = (r, b') \<Longrightarrow> result_sockets r + sockets (pooled b') \<subseteq># add_mset (an_socket an) (sockets (pooled b))"
proof (induction now an key b arbitrary: r b' rule: Acquire.induct)
  case (1 now an key)
  then show ?case using fresh_sockets(1) [of an key] by auto
next
  case (2 now an key inner idle_timeout pool)
  obtain s pool' where t: "pool_take now key pool = (s, pool')" by fastforce
  note ts = pool_take_sockets [OF t]
  show ?case
  proof (cases s)
    case (Some slot)
    then have "r = Inr slot" "b' = Pooled inner idle_timeout pool'" using 2(2) t by auto
    then have "result_sockets r + sockets (pooled b') \<subseteq># sockets (pooled (Pooled inner idle_timeout pool))"
      using ts Some by (simp add: ac_simps)
    also have "\<dots> \<subseteq># add_mset (an_socket an) \<dots>" by simp
    finally show ?thesis .
  next
    case None
    obtain r1 inner' where a: "Acquire now an key inner = (r1, inner')" by fastforce
    then have r: "r = r1" "b' = Pooled inner' idle_timeout pool'" using 2(2) t None by auto
    have "result_sockets r1 + sockets (pooled inner') \<subseteq># add_mset (an_socket an) (sockets (pooled inner))"
      using 2(1) [OF a] .
    moreover have "sockets (concat (map snd pool')) \<subseteq># sockets (concat (map snd pool))" using ts None by simp
    ultimately have "sockets (concat (map snd pool')) + (result_sockets r1 + sockets (pooled inner'))
        \<subseteq># sockets (concat (map snd pool)) + add_mset (an_socket an) (sockets (pooled inner))"
      by (rule subset_mset.add_mono [rotated])
    then show ?thesis unfolding r by (simp add: ac_simps)
  qed
next
  case (3 now an key inner ssl_ctx)
  show ?case
  proof (cases "ck_ssl_ctx key")
    case None
    then show ?thesis using 3 by (auto split: if_splits prod.splits)
  next
    case (Some c)
    have "result_sockets (DoWebSocketTcpConnect an key) + sockets (pooled inner) \<subseteq># {#an_socket an#} + sockets (pooled inner)"
      using fresh_sockets(2) [of an key] by (rule subset_mset.add_right_mono)
    then show ?thesis using 3(2) Some by (auto split: option.splits)
  qed
next
  case (4 now an key inner)
  show ?case
  proof (cases "ck_scheme key = ''https'' \<and> has_proxy key")
    case False
    then show ?thesis using 4 by (auto split: if_splits prod.splits)
  next
    case True
    obtain r1 inner' where a: "Acquire now an (proxy_key_of key) inner = (r1, inner')" by fastforce
    show ?thesis
    proof (cases "ck_proxy_ssl_ctx key")
      case (Some c)
      then have r: "r = OnProxyTcpAcquired an key r1" "b' = ProxyOn inner'" using 4(2) True a by auto
      have "result_sockets r + sockets (pooled inner') \<subseteq># result_sockets r1 + sockets (pooled inner')"
        unfolding r using tunnel_sockets by (rule subset_mset.add_right_mono)
      also have "\<dots> \<subseteq># add_mset (an_socket an) (sockets (pooled inner))"
        using 4(1) [OF a] .
      finally show ?thesis unfolding r by simp
    qed (use 4(2) True in auto)
  qed
qed

lemma pool_put_slots:
  "mset (concat (map snd (pool_put slot pool))) = add_mset slot (mset (concat (map snd pool)))"
proof (cases "map_of pool (identity (sl_key slot))")
  case None
  then have "insert_or_assign (identity (sl_key slot)) v pool = pool @ [(identity (sl_key slot), v)]" for v
    by (induction pool) auto
  then show ?thesis using None by (simp add: pool_put_def)
next
  case (Some dq)
  obtain a b where ab: "pool = a @ (identity (sl_key slot), dq) # b" "map_of a (identity (sl_key slot)) = None"
    by (rule pool_split [OF Some])
  show ?thesis using Some unfolding pool_put_def ab(1) by (simp add: insert_or_assign_at [OF ab(2)])
qed

lemma sockets_mset: "mset a = mset b \<Longrightarrow> sockets a = sockets b"
  by (simp add: sockets_def List.map_filter_def mset_filter)

lemma pool_put_sockets: "sockets (concat (map snd (pool_put slot pool))) = sockets [slot] + sockets (concat (map snd pool))"
  using sockets_mset [of "concat (map snd (pool_put slot pool))" "slot # concat (map snd pool)"] pool_put_slots [of slot pool]
  by simp

lemma Return_sockets:
  "Return now1 now2 slot b = (closed, b') \<Longrightarrow> sockets closed + sockets (pooled b') = sockets [slot] + sockets (pooled b)"
proof (induction now1 now2 slot b arbitrary: closed b' rule: Return.induct)
  case (2 now1 now2 slot inner idle_timeout pool)
  show ?case
  proof (cases "IsReusable now1 slot")
    case True
    then show ?thesis using 2(2) pool_put_sockets [of "slot\<lparr>sl_idle_deadline := Some (now2 + idle_timeout)\<rparr>" pool]
      by (auto simp: ac_simps)
  next
    case False
    obtain c i where r: "Return now1 now2 slot inner = (c, i)" by fastforce
    then show ?thesis using 2 False by (auto simp: ac_simps)
  qed
qed (auto split: prod.splits)

section \<open>What a connection is good for\<close>

text \<open>
  A slot serves an https key if its transport runs TLS to the host of the key, with the certificate
  checked when the key asks for it and, without a proxy, under the key's context; or if it carries what
  the WebSocket client needs to do that itself.
\<close>

definition secured :: "'s ConnectionKey \<Rightarrow> 's StreamSlot \<Rightarrow> bool" where
  "secured key slot \<longleftrightarrow>
     (ck_scheme key = ''https'' \<longrightarrow>
       (case sl_stream slot of
          None \<Rightarrow> False
        | Some t \<Rightarrow>
            (case tr_tls t of
               Some l \<Rightarrow> tls_ctx l \<noteq> None \<and> tls_sni l = ck_host key \<and>
                 tls_verified l = (if ck_verify_peer key then Some (ck_host key) else None) \<and>
                 (\<not> has_proxy key \<longrightarrow> tls_ctx l = ck_ssl_ctx key)
             | None \<Rightarrow> sl_deferred_ssl_ctx slot = ck_ssl_ctx key \<and> ck_ssl_ctx key \<noteq> None \<and>
                 sl_deferred_verify_peer slot = ck_verify_peer key \<and> sl_sni_hostname slot = ck_host key)))"

lemma secured_key_eq: "key_eq k k' \<Longrightarrow> secured k slot \<longleftrightarrow> secured k' slot"
  by (simp add: secured_def key_eq_def has_proxy_def split: option.split)

lemma secured_frame [simp]:
  "secured key (slot\<lparr>sl_upstream_closed := c\<rparr>) = secured key slot" "secured key (slot\<lparr>sl_requests_served := n\<rparr>) = secured key slot"
  "secured key (slot\<lparr>sl_idle_deadline := d\<rparr>) = secured key slot"
  by (simp_all add: secured_def split: option.split)

lemma direct_secured:
  "direct_Acquire an key = Inr slot \<Longrightarrow> sl_key slot = key \<and> secured key slot"
  by (auto simp: direct_Acquire_def DoDirectSslConnect_def DoDirectTcpConnect_def secured_def connected_def tls_for_def Let_def
      split: if_splits option.splits)

lemma websocket_secured:
  "DoWebSocketTcpConnect an key = Inr slot \<Longrightarrow> ck_ssl_ctx key \<noteq> None \<Longrightarrow> sl_key slot = key \<and> secured key slot"
  by (auto simp: DoWebSocketTcpConnect_def secured_def connected_def split: option.splits)

lemma tunnel_secured:
  "OnProxyTcpAcquired an key r = Inr slot \<Longrightarrow> has_proxy key \<Longrightarrow> sl_key slot = key \<and> secured key slot"
  by (auto simp: OnProxyTcpAcquired_def DoProxyConnect_def DoProxyTlsHandshake_def secured_def tls_for_def Let_def
      split: if_splits option.splits sum.splits)

definition slots_ok :: "'s StreamSlot set \<Rightarrow> bool" where
  "slots_ok S \<longleftrightarrow> (\<forall>slot\<in>S. secured (sl_key slot) slot)"

lemma set_insert_or_assign_sub: "set (concat (map snd (insert_or_assign k v m))) \<subseteq> set v \<union> set (concat (map snd m))"
proof (induction m)
  case (Cons kv m)
  then show ?case by (cases kv; cases "fst kv = k") (simp_all, blast+)
qed simp

lemma pool_take_slots:
  assumes "pool_take now key pool = (r, pool')"
  shows "set (concat (map snd pool')) \<subseteq> set (concat (map snd pool)) \<and>
    (case r of None \<Rightarrow> True | Some slot \<Rightarrow> slot \<in> set (concat (map snd pool)) \<and> key_eq (sl_key slot) key)"
proof (cases "map_of pool (identity key)")
  case None
  then show ?thesis using assms by (auto simp: pool_take_def)
next
  case (Some dq)
  then have dq: "set dq \<subseteq> set (concat (map snd pool))" using map_of_SomeD [OF Some] by force
  obtain r' dq' where l: "pool_loop now 0 key dq = (r', dq')" by fastforce
  note res = pool_loop_result [OF l]
  show ?thesis
  proof (cases r')
    case None
    have "set (concat (map snd (erase_key (identity key) pool))) \<subseteq> set (concat (map snd pool))" by (auto simp: erase_key_def)
    then show ?thesis using assms Some l None by (auto simp: pool_take_def)
  next
    case (Some slot)
    then have r: "r = Some slot" "pool' = insert_or_assign (identity key) dq' pool"
      using assms \<open>map_of pool (identity key) = Some dq\<close> l by (simp_all add: pool_take_def)
    have sl: "set dq' \<subseteq> set dq" "slot \<in> set dq" "key_eq (sl_key slot) key" using res Some by simp_all
    have "set (concat (map snd pool')) \<subseteq> set dq' \<union> set (concat (map snd pool))"
      unfolding r by (rule set_insert_or_assign_sub)
    then have "set (concat (map snd pool')) \<subseteq> set (concat (map snd pool))" using sl(1) dq by (metis Un_absorb1 subset_trans)
    moreover have "slot \<in> set (concat (map snd pool))" using sl(2) dq by (rule subsetD [rotated])
    ultimately show ?thesis using r(1) sl(3) by (simp only: option.case simp_thms)
  qed
qed

lemma Acquire_secured:
  "Acquire now an key b = (r, b') \<Longrightarrow> slots_ok (set (pooled b)) \<Longrightarrow>
    set (pooled b') \<subseteq> set (pooled b) \<and> (case r of Inl _ \<Rightarrow> True | Inr slot \<Rightarrow> key_eq (sl_key slot) key \<and> secured key slot)"
proof (induction now an key b arbitrary: r b' rule: Acquire.induct)
  case (1 now an key)
  then show ?case using direct_secured [of an key] by (auto simp: key_eq_def split: sum.splits)
next
  case (2 now an key inner idle_timeout pool)
  obtain s pool' where t: "pool_take now key pool = (s, pool')" by fastforce
  note ts = pool_take_slots [OF t]
  show ?case
  proof (cases s)
    case (Some slot)
    then have "slot \<in> set (concat (map snd pool))" "key_eq (sl_key slot) key" using ts by simp_all
    moreover have "secured (sl_key slot) slot" using 2(3) \<open>slot \<in> _\<close> unfolding slots_ok_def pooled.simps set_append by blast
    ultimately show ?thesis using 2(2) t Some ts secured_key_eq [of "sl_key slot" key slot] by auto
  next
    case None
    obtain r1 inner' where a: "Acquire now an key inner = (r1, inner')" by fastforce
    have ok: "slots_ok (set (pooled inner))" using 2(3) by (simp add: slots_ok_def)
    have b': "b' = Pooled inner' idle_timeout pool'" "r = r1" using 2(2) t None a by auto
    have "set (pooled b') \<subseteq> set (pooled (Pooled inner idle_timeout pool))"
      unfolding b' pooled.simps set_append
      using 2(1) [OF a ok, THEN conjunct1] ts [THEN conjunct1] by (rule Un_mono [rotated])
    then show ?thesis unfolding b'(2) using 2(1) [OF a ok, THEN conjunct2] by (rule conjI)
  qed
next
  case (3 now an key inner ssl_ctx)
  show ?case
  proof (cases "ck_ssl_ctx key")
    case None
    have "slots_ok (set (pooled inner))" using 3(3) by simp
    then show ?thesis using None 3(1) [of key r] 3(2) by (auto split: if_splits prod.splits)
  next
    case (Some c)
    then show ?thesis using 3(2) websocket_secured [of an key] by (auto simp: key_eq_def split: option.splits sum.splits)
  qed
next
  case (4 now an key inner)
  show ?case
  proof (cases "ck_scheme key = ''https'' \<and> has_proxy key")
    case False
    have "slots_ok (set (pooled inner))" using 4(3) by simp
    then show ?thesis using False 4(1) [of key r] 4(2) by (auto split: if_splits prod.splits)
  next
    case True
    obtain r1 inner' where a: "Acquire now an (proxy_key_of key) inner = (r1, inner')" by fastforce
    show ?thesis
    proof (cases "ck_proxy_ssl_ctx key")
      case (Some c)
      then have r: "r = OnProxyTcpAcquired an key r1" "b' = ProxyOn inner'" using 4(2) True a by auto
      have "set (pooled inner') \<subseteq> set (pooled inner)" using 4(1) [OF a] 4(3) by simp
      then show ?thesis unfolding r using tunnel_secured [of an key r1] True by (auto simp: key_eq_def split: sum.splits)
    qed (use 4(2) True in auto)
  qed
qed

lemma Return_slots:
  "Return now1 now2 slot b = (closed, b') \<Longrightarrow> x \<in> set (pooled b') \<Longrightarrow>
    x \<in> set (pooled b) \<or> (\<exists>d. x = slot\<lparr>sl_idle_deadline := d\<rparr>)"
proof (induction now1 now2 slot b arbitrary: closed b' rule: Return.induct)
  case (2 now1 now2 slot inner idle_timeout pool)
  show ?case
  proof (cases "IsReusable now1 slot")
    case True
    let ?s = "slot\<lparr>sl_idle_deadline := Some (now2 + idle_timeout)\<rparr>"
    have "set (concat (map snd (pool_put ?s pool))) = insert ?s (set (concat (map snd pool)))"
      using arg_cong [OF pool_put_slots [of ?s pool], of set_mset] by (simp only: set_mset_mset set_mset_add_mset_insert)
    moreover have "b' = Pooled inner idle_timeout (pool_put ?s pool)" using 2(2) True by simp
    ultimately have "x = ?s \<or> x \<in> set (pooled (Pooled inner idle_timeout pool))" using 2(3) by (simp only: pooled.simps set_append Un_iff insert_iff) blast
    then show ?thesis by blast
  next
    case False
    obtain c i where r: "Return now1 now2 slot inner = (c, i)" by fastforce
    then have b': "b' = Pooled i idle_timeout pool" using 2(2) False by simp
    then show ?thesis using 2(1) [OF r] 2(3) by (simp only: pooled.simps set_append Un_iff) blast
  qed
qed (auto split: prod.splits)

section \<open>Clients of a builder\<close>

text \<open>
  A builder, the slots its clients hold, and the sockets opened so far. A client may mark a slot as closed
  and count the requests it served, and give it back, or drop it.
\<close>

record 's builder_world =
  bd_builder :: "'s builder"
  bd_leased :: "'s StreamSlot list"
  bd_used :: "nat set"

definition leases :: "builder_error + 's StreamSlot \<Rightarrow> 's StreamSlot list" where
  "leases r = (case r of Inl _ \<Rightarrow> [] | Inr slot \<Rightarrow> [slot])"

inductive builder_step :: "'s builder_world \<Rightarrow> 's builder_world \<Rightarrow> bool" where
  acquire: "Acquire now an key (bd_builder w) = (r, b') \<Longrightarrow> an_socket an \<notin> bd_used w \<Longrightarrow>
    builder_step w \<lparr>bd_builder = b', bd_leased = leases r @ bd_leased w, bd_used = insert (an_socket an) (bd_used w)\<rparr>"
| give_back: "bd_leased w = l @ slot # m \<Longrightarrow>
    Return now1 now2 (slot\<lparr>sl_upstream_closed := c, sl_requests_served := n\<rparr>) (bd_builder w) = (closed, b') \<Longrightarrow>
    builder_step w (w\<lparr>bd_builder := b', bd_leased := l @ m\<rparr>)"
| drop_slot: "bd_leased w = l @ slot # m \<Longrightarrow> builder_step w (w\<lparr>bd_leased := l @ m\<rparr>)"

text \<open>A stack of builders whose pools are empty.\<close>

fun fresh_builder :: "'s builder \<Rightarrow> bool" where
  "fresh_builder Direct = True"
| "fresh_builder (Pooled inner idle_timeout pool) \<longleftrightarrow> pool = [] \<and> fresh_builder inner"
| "fresh_builder (WebSocketOn inner ssl_ctx) = fresh_builder inner"
| "fresh_builder (ProxyOn inner) = fresh_builder inner"

definition builder_init :: "'s builder \<Rightarrow> 's builder_world" where
  "builder_init b = \<lparr>bd_builder = b, bd_leased = [], bd_used = {}\<rparr>"

abbreviation held :: "'s builder_world \<Rightarrow> 's StreamSlot list" where
  "held w \<equiv> pooled (bd_builder w) @ bd_leased w"

definition builder_inv :: "'s builder_world \<Rightarrow> bool" where
  "builder_inv w \<longleftrightarrow>
     (\<forall>x. count (sockets (held w)) x \<le> (if x \<in> bd_used w then 1 else 0)) \<and> slots_ok (set (held w))"

lemma fresh_pooled: "fresh_builder b \<Longrightarrow> pooled b = []"
  by (induction b) auto

lemma builder_inv_init: "fresh_builder b \<Longrightarrow> builder_inv (builder_init b)"
  by (simp add: builder_inv_def builder_init_def fresh_pooled slots_ok_def)

lemma sockets_leases: "sockets (leases r) = result_sockets r"
  by (cases r) (simp_all add: leases_def)

lemma builder_inv_mono:
  assumes "builder_inv w" "sockets (held w') \<subseteq># sockets (held w)" "bd_used w' = bd_used w" "slots_ok (set (held w'))"
  shows "builder_inv w'"
  unfolding builder_inv_def
proof (intro conjI allI assms(4))
  fix x
  have "count (sockets (held w')) x \<le> count (sockets (held w)) x" using assms(2) by (rule mset_subset_eq_count)
  also have "\<dots> \<le> (if x \<in> bd_used w then 1 else 0)" using assms(1) unfolding builder_inv_def by blast
  finally show "count (sockets (held w')) x \<le> (if x \<in> bd_used w' then 1 else 0)" unfolding assms(3) .
qed

lemma builder_inv_step:
  assumes "builder_step w w'" "builder_inv w"
  shows "builder_inv w'"
  using assms(1)
proof cases
  case (acquire now an key r b')
  have sub: "result_sockets r + sockets (pooled b') \<subseteq># add_mset (an_socket an) (sockets (pooled (bd_builder w)))"
    by (rule Acquire_sockets [OF acquire(2)])
  have "count (sockets (held w')) x \<le> (if x \<in> bd_used w' then 1 else 0)" for x
  proof -
    have "count (result_sockets r + sockets (pooled b')) x \<le> count (add_mset (an_socket an) (sockets (pooled (bd_builder w)))) x"
      using sub by (rule mset_subset_eq_count)
    moreover have "count (sockets (pooled (bd_builder w)) + sockets (bd_leased w)) x \<le> (if x \<in> bd_used w then 1 else 0)"
      using assms(2) by (simp add: builder_inv_def)
    ultimately show ?thesis using acquire(3) unfolding acquire(1) by (auto simp: sockets_leases split: if_splits)
  qed
  moreover have "slots_ok (set (held w'))"
  proof -
    have ok: "slots_ok (set (pooled (bd_builder w)))" "slots_ok (set (bd_leased w))"
      using assms(2) by (simp_all add: builder_inv_def slots_ok_def)
    note sec = Acquire_secured [OF acquire(2) ok(1)]
    have "slots_ok (set (leases r))"
      using sec secured_key_eq by (cases r) (auto simp: leases_def slots_ok_def)
    then show ?thesis using ok sec unfolding acquire(1) by (auto simp: slots_ok_def)
  qed
  ultimately show ?thesis by (simp add: builder_inv_def)
next
  case (give_back l slot m now1 now2 n c closed b')
  let ?s = "slot\<lparr>sl_upstream_closed := c, sl_requests_served := n\<rparr>"
  have sk: "sockets closed + sockets (pooled b') = sockets [slot] + sockets (pooled (bd_builder w))"
    using Return_sockets [OF give_back(3)] by simp
  have "sockets (held w') \<subseteq># sockets (held w)"
  proof -
    have "sockets (held w') \<subseteq># sockets closed + sockets (pooled b') + sockets (l @ m)" unfolding give_back(1) by simp
    also have "\<dots> = sockets (held w)" unfolding sk give_back(2) by simp
    finally show ?thesis .
  qed
  moreover have "bd_used w' = bd_used w" unfolding give_back(1) by simp
  moreover have "slots_ok (set (held w'))"
  proof -
    have "secured (sl_key slot) slot" using assms(2) give_back(2) by (simp add: builder_inv_def slots_ok_def)
    then have s: "secured (sl_key slot) (?s\<lparr>sl_idle_deadline := d\<rparr>)" for d by simp
    have "secured (sl_key x) x" if "x \<in> set (pooled b')" for x
      using Return_slots [OF give_back(3) that] s assms(2) by (auto simp: builder_inv_def slots_ok_def)
    then show ?thesis using assms(2) give_back(2) unfolding give_back(1) by (auto simp: builder_inv_def slots_ok_def)
  qed
  ultimately show ?thesis by (rule builder_inv_mono [OF assms(2)])
next
  case (drop_slot l slot m)
  have "sockets (held w') \<subseteq># sockets (held w)" unfolding drop_slot by simp
  moreover have "bd_used w' = bd_used w" "slots_ok (set (held w'))"
    using assms(2) drop_slot by (auto simp: builder_inv_def slots_ok_def)
  ultimately show ?thesis by (rule builder_inv_mono [OF assms(2)])
qed

lemma builder_inv_reach: "builder_step\<^sup>*\<^sup>* (builder_init b) w \<Longrightarrow> fresh_builder b \<Longrightarrow> builder_inv w"
  by (induction rule: rtranclp_induct) (auto intro: builder_inv_init builder_inv_step)

section \<open>Properties\<close>

text \<open>
  (C10) A connection has one user: whatever stack of pools, proxies and WebSocket builders the clients share,
  and however they acquire, mark, give back and drop slots, no socket is ever in two slots, be they idle in a pool or held by a
  client.
\<close>

theorem connection_has_one_user:
  assumes "fresh_builder b" "builder_step\<^sup>*\<^sup>* (builder_init b) w"
  shows "distinct (map tr_socket (List.map_filter sl_stream (pooled (bd_builder w) @ bd_leased w)))"
proof -
  let ?s = "map tr_socket (List.map_filter sl_stream (held w))"
  have "count (mset ?s) x \<le> (if x \<in> bd_used w then 1 else 0)" for x
    using builder_inv_reach [OF assms(2,1)] unfolding builder_inv_def sockets_def by blast
  then have le: "count (mset ?s) x \<le> 1" for x by (rule order_trans) simp
  have "count (mset ?s) x = (if x \<in> set ?s then 1 else 0)" for x
  proof (cases "x \<in> set ?s")
    case True
    then have "0 < count (mset ?s) x" by (simp only: count_greater_zero_iff set_mset_mset)
    then show ?thesis using le [of x] True by (simp only: if_True)
  next
    case False
    then show ?thesis by (simp only: count_mset_0_iff if_False not_False_eq_True)
  qed
  then show ?thesis by (simp only: distinct_count_atmost_1 simp_thms)
qed

text \<open>
  (C15) An https request never goes out in the clear: the slot any stack of builders hands out for an https
  key, fresh or from a pool, tunnelled or not, runs TLS to the host of the key with the certificate check
  the key asks for, and under its context when no proxy is involved; or it is a WebSocket connection that
  carries the context, the name and the check for the handshake that is still to come.
\<close>

theorem https_is_never_plain:
  assumes "fresh_builder b" "builder_step\<^sup>*\<^sup>* (builder_init b) w" "Acquire now an key (bd_builder w) = (Inr slot, b')"
  shows "secured key slot"
proof -
  have "slots_ok (set (pooled (bd_builder w)))"
    using builder_inv_reach [OF assms(2,1)] by (simp add: builder_inv_def slots_ok_def)
  from Acquire_secured [OF assms(3) this] show ?thesis by simp
qed

text \<open>
  (C37) A pooled tunnel is reused under another SSL context. The comparison of keys leaves out the context a
  proxied key keeps for its tunnel, so a client that asks for a tunnel with \<open>c2\<close> is handed the idle one whose
  peer was verified under \<open>c1\<close>.
\<close>

theorem pooled_tunnel_ignores_ssl_context:
  assumes "ck_scheme k = ''https''" "has_proxy k"
    and "Acquire now an (k\<lparr>ck_proxy_ssl_ctx := Some c1\<rparr>) (Pooled (ProxyOn Direct) timeout []) = (Inr slot, b1)"
    and "Return t1 t2 slot b1 = (closed, b2)" "now' 0 < t2 + timeout"
  shows "\<exists>slot' t l b3. Acquire now' an' (k\<lparr>ck_proxy_ssl_ctx := Some c2\<rparr>) b2 = (Inr slot', b3) \<and>
    sl_stream slot' = Some t \<and> tr_tls t = Some l \<and> tls_ctx l = Some c1"
proof -
  let ?k1 = "k\<lparr>ck_proxy_ssl_ctx := Some c1\<rparr>" and ?k2 = "k\<lparr>ck_proxy_ssl_ctx := Some c2\<rparr>"
  have hp: "has_proxy ?k1" using assms(2) by (simp add: has_proxy_def)
  have a: "OnProxyTcpAcquired an ?k1 (direct_Acquire an (proxy_key_of ?k1)) = Inr slot" and b1: "b1 = Pooled (ProxyOn Direct) timeout []"
    using assms(1,3) hp by (simp_all add: pool_take_def)
  then obtain t l where slot: "sl_key slot = ?k1" "sl_stream slot = Some t" "tr_tls t = Some l" "tls_ctx l = Some c1"
    "sl_upstream_closed slot = False" "sl_idle_deadline slot = None"
    by (auto simp: OnProxyTcpAcquired_def DoProxyConnect_def DoProxyTlsHandshake_def tls_for_def new_slot_def Let_def
        split: sum.splits if_splits option.splits)
  let ?s = "slot\<lparr>sl_idle_deadline := Some (t2 + timeout)\<rparr>"
  have id: "identity ?k1 = identity ?k2" by (simp add: identity_def)
  have "b2 = Pooled (ProxyOn Direct) timeout [(identity ?k2, [?s])]"
    using assms(4) slot unfolding b1 by (simp add: IsReusable_def pool_put_def id)
  moreover have "IsCompatible ?k2 ?s" using slot by (simp add: IsCompatible_def key_eq_def)
  moreover have "IsReusable (now' 0) ?s" using slot assms(5) by (simp add: IsReusable_def)
  ultimately have "Acquire now' an' ?k2 b2 = (Inr ?s, Pooled (ProxyOn Direct) timeout [(identity ?k2, [])])"
    by (simp add: pool_take_def)
  then show ?thesis using slot by simp
qed

text \<open>
  A pooled connection that is in use past its old idle deadline is closed instead of being pooled
  again: the deadline set when the connection was first given back is not cleared when it is handed out.
\<close>

theorem busy_connection_is_not_pooled_again:
  assumes "Return t1 t2 slot (Pooled Direct timeout []) = ([], b1)" "Acquire now an (sl_key slot) b1 = (Inr slot', b2)"
    and "now 0 < t2 + timeout" "t2 + timeout \<le> t3"
  shows "Return t3 t4 slot' b2 = ([slot'], b2)"
proof -
  let ?s = "slot\<lparr>sl_idle_deadline := Some (t2 + timeout)\<rparr>"
  have r: "IsReusable t1 slot" using assms(1) by (simp split: if_splits)
  then have b1: "b1 = Pooled Direct timeout [(identity (sl_key slot), [?s])]" using assms(1) by (simp add: pool_put_def)
  have "IsReusable (now 0) ?s" using r assms(3) by (simp add: IsReusable_def split: if_splits)
  then have "slot' = ?s" "b2 = Pooled Direct timeout [(identity (sl_key slot), [])]"
    using assms(2) unfolding b1 by (simp_all add: pool_take_def IsCompatible_def key_eq_def)
  then show ?thesis using assms(4) by (simp add: IsReusable_def)
qed

text \<open>A network on which everything succeeds.\<close>

definition good_answers :: "nat \<Rightarrow> answers" where
  "good_answers n = \<lparr>an_socket = n, an_resolve = None, an_connect = None, an_sni = None, an_handshake = None, an_write = None,
     an_response = Inr ''HTTP/1.1 200 OK''\<rparr>"

definition demo_key :: "nat ConnectionKey" where
  "demo_key = new_key\<lparr>ck_scheme := ''https'', ck_host := ''h'', ck_port := ''443'', ck_proxy_host := ''p'', ck_proxy_port := ''3128''\<rparr>"

definition demo_slot :: "nat StreamSlot" where
  "demo_slot = projr (fst (Acquire (\<lambda>_. 0) (good_answers 1) (demo_key\<lparr>ck_proxy_ssl_ctx := Some 1\<rparr>) (Pooled (ProxyOn Direct) 60 [])))"

lemma demo_acquire:
  "Acquire (\<lambda>_. 0) (good_answers 1) (demo_key\<lparr>ck_proxy_ssl_ctx := Some 1\<rparr>) (Pooled (ProxyOn Direct) 60 [])
    = (Inr demo_slot, Pooled (ProxyOn Direct) 60 [])"
  by code_simp

definition demo_world_builder :: "nat builder_world" where
  "demo_world_builder = \<lparr>bd_builder = Pooled (ProxyOn Direct) 60 [], bd_leased = [demo_slot], bd_used = {1}\<rparr>"

lemma demo_builder_reach: "builder_step\<^sup>*\<^sup>* (builder_init (Pooled (ProxyOn Direct) 60 [])) demo_world_builder"
proof -
  have "builder_step (builder_init (Pooled (ProxyOn Direct) 60 [])) demo_world_builder"
    using builder_step.acquire [of "\<lambda>_. 0" "good_answers 1" "demo_key\<lparr>ck_proxy_ssl_ctx := Some 1\<rparr>"
        "builder_init (Pooled (ProxyOn Direct) 60 [])" "Inr demo_slot" "Pooled (ProxyOn Direct) 60 []"] demo_acquire
    by (simp add: builder_init_def demo_world_builder_def leases_def good_answers_def)
  then show ?thesis by (rule r_into_rtranclp)
qed

theorem connection_has_one_user_witness:
  "distinct (map tr_socket (List.map_filter sl_stream (pooled (bd_builder demo_world_builder) @ bd_leased demo_world_builder)))"
  by (rule connection_has_one_user [OF _ demo_builder_reach]) simp

theorem https_is_never_plain_witness: "secured (demo_key\<lparr>ck_proxy_ssl_ctx := Some 1\<rparr>) demo_slot"
  by (rule https_is_never_plain [OF _ rtranclp.rtrancl_refl, of "Pooled (ProxyOn Direct) 60 []"])
    (simp, simp only: builder_init_def builder_world.select_convs, rule demo_acquire)

theorem pooled_tunnel_ignores_ssl_context_witness:
  "\<exists>slot' t l b3. Acquire (\<lambda>_. 5) (good_answers 2) (demo_key\<lparr>ck_proxy_ssl_ctx := Some 2\<rparr>)
      (snd (Return 1 1 demo_slot (Pooled (ProxyOn Direct) 60 []))) = (Inr slot', b3) \<and>
     sl_stream slot' = Some t \<and> tr_tls t = Some l \<and> tls_ctx l = Some 1"
  by (rule pooled_tunnel_ignores_ssl_context [OF _ _ demo_acquire prod.collapse [symmetric]])
    (simp_all add: demo_key_def has_proxy_def)

theorem busy_connection_is_not_pooled_again_witness:
  "\<exists>slot' b2. Acquire (\<lambda>_. 30) (good_answers 2) (sl_key demo_slot) (snd (Return 1 1 demo_slot (Pooled Direct 60 []))) = (Inr slot', b2) \<and>
     Return 61 61 slot' b2 = ([slot'], b2)"
proof -
  let ?b1 = "snd (Return 1 1 demo_slot (Pooled Direct 60 []))"
  have r: "Return 1 1 demo_slot (Pooled Direct 60 []) = ([], ?b1)" by code_simp
  let ?a = "Acquire (\<lambda>_. 30) (good_answers 2) (sl_key demo_slot) ?b1"
  have "fst ?a = Inr (projr (fst ?a))" by code_simp
  then have a: "?a = (Inr (projr (fst ?a)), snd ?a)" by (metis prod.collapse)
  from busy_connection_is_not_pooled_again [OF r a, of 61 61] a show ?thesis by (intro exI conjI) (assumption, simp)
qed

end
