(* ===== verification/Request_Assembler.thy ===== *)
theory Request_Assembler
  imports Cookie_Jar Stream_Builder
begin

text \<open>
  Request assembly (\<^verbatim>\<open>connection/client/request_assembler.cc\<close>): the fields a client request gets before it
  is sent and the key of the connection it is sent on, with the session's cookies and through a proxy; and
  what becomes of the key in the builder of \<^verbatim>\<open>stream_builder.cc\<close>.
\<close>

section \<open>Requests, options and assemblers\<close>

text \<open>
  The fields the assemblers touch; \<open>cr_rest\<close> is the rest of the message, which only
  \<^verbatim>\<open>prepare_payload\<close> of the HTTP library changes (the argument \<open>prepare\<close>).
\<close>

record 'b HttpClientRequest =
  cr_target :: string
  cr_host :: "string option"
  cr_user_agent :: "string option"
  cr_keep_alive :: bool
  cr_cookie :: "string option"
  cr_proxy_authorization :: "string option"
  cr_rest :: 'b

text \<open>Timeouts are in milliseconds.\<close>

record HttpClientOptions =
  co_resolve_timeout :: int
  co_connect_timeout :: int
  co_tls_handshake_timeout :: int
  co_write_timeout :: int
  co_read_header_timeout :: int
  co_read_body_timeout :: int
  co_max_response_body_bytes :: size_t
  co_verify_peer :: bool
  co_keep_alive :: bool
  co_user_agent :: string

definition default_options :: HttpClientOptions where
  "default_options = \<lparr>co_resolve_timeout = 2000, co_connect_timeout = 2000, co_tls_handshake_timeout = 2000,
     co_write_timeout = 2000, co_read_header_timeout = 2000, co_read_body_timeout = 5000,
     co_max_response_body_bytes = 4 * 1024 * 1024, co_verify_peer = True, co_keep_alive = False, co_user_agent = []\<rparr>"

record ProxyConfig =
  px_host :: string
  px_port :: string
  px_auth :: string

definition px_enabled :: "ProxyConfig \<Rightarrow> bool" where
  "px_enabled p \<longleftrightarrow> px_host p \<noteq> []"

datatype assembler = DefaultAssembler | SessionAssembler | ProxyAssembler assembler ProxyConfig

text \<open>What Default and Session have in common before the payload is prepared, and the key they derive.\<close>

definition set_fields :: "HttpClientOptions \<Rightarrow> string \<Rightarrow> 'b HttpClientRequest \<Rightarrow> 'b HttpClientRequest" where
  "set_fields options host request =
     (let request = (if cr_host request = None then request\<lparr>cr_host := Some host\<rparr> else request);
          request = (if cr_user_agent request = None \<and> co_user_agent options \<noteq> []
                     then request\<lparr>cr_user_agent := Some (co_user_agent options)\<rparr> else request)
      in request\<lparr>cr_keep_alive := co_keep_alive options\<rparr>)"

definition assembled_key :: "HttpClientOptions \<Rightarrow> string \<Rightarrow> string \<Rightarrow> string \<Rightarrow> 's option \<Rightarrow> 's ConnectionKey" where
  "assembled_key options scheme host port ssl_ctx =
     new_key\<lparr>ck_scheme := scheme, ck_host := host, ck_port := port, ck_ssl_ctx := ssl_ctx, ck_verify_peer := co_verify_peer options\<rparr>"

definition default_Assemble ::
  "('b \<Rightarrow> 'b) \<Rightarrow> 'b HttpClientRequest \<Rightarrow> HttpClientOptions \<Rightarrow> string \<Rightarrow> string \<Rightarrow> string \<Rightarrow> 's option \<Rightarrow>
   'b HttpClientRequest \<times> 's ConnectionKey" where
  "default_Assemble prepare request options scheme host port ssl_ctx =
     (let request = set_fields options host request;
          key = assembled_key options scheme host port ssl_ctx
      in (request\<lparr>cr_rest := prepare (cr_rest request)\<rparr>, key))"

definition session_Assemble ::
  "('b \<Rightarrow> 'b) \<Rightarrow> ((nat \<times> nat) list \<Rightarrow> (nat \<times> nat) list) \<Rightarrow> int \<Rightarrow> jar \<Rightarrow> 'b HttpClientRequest \<Rightarrow> HttpClientOptions \<Rightarrow> string \<Rightarrow>
   string \<Rightarrow> string \<Rightarrow> 's option \<Rightarrow> ('b HttpClientRequest \<times> 's ConnectionKey) \<times> jar" where
  "session_Assemble prepare srt now cookies request options scheme host port ssl_ctx =
     (let request = set_fields options host request;
          (field, cookies) = MaybeInjectCookies srt now (cr_cookie request \<noteq> None) host (cr_target request) (scheme = ''https'') cookies;
          request = (case field of Some c \<Rightarrow> request\<lparr>cr_cookie := Some c\<rparr> | None \<Rightarrow> request)
      in ((request\<lparr>cr_rest := prepare (cr_rest request)\<rparr>, assembled_key options scheme host port ssl_ctx), cookies))"

text \<open>What the proxy assembler makes of the result of the inner one.\<close>

definition absolute_target :: "'s ConnectionKey \<Rightarrow> string \<Rightarrow> string" where
  "absolute_target key target =
     ''http://'' @ ck_host key @ (if ck_port key \<noteq> ''80'' then '':'' @ ck_port key else []) @ target"

definition proxy_Assemble ::
  "ProxyConfig \<Rightarrow> 'b HttpClientRequest \<times> 's ConnectionKey \<Rightarrow> 'b HttpClientRequest \<times> 's ConnectionKey" where
  "proxy_Assemble proxy result =
     (if \<not> px_enabled proxy then result
      else
        (let (request, key) = result;
             is_https = (ck_scheme key = ''https'');
             request = (if \<not> is_https then request\<lparr>cr_target := absolute_target key (cr_target request)\<rparr> else request);
             key = key\<lparr>ck_proxy_host := px_host proxy, ck_proxy_port := px_port proxy\<rparr>;
             key = (if is_https then key\<lparr>ck_proxy_ssl_ctx := ck_ssl_ctx key, ck_ssl_ctx := None\<rparr> else key);
             request = (if px_auth proxy \<noteq> [] then request\<lparr>cr_proxy_authorization := Some (px_auth proxy)\<rparr> else request)
         in (request, key)))"

fun Assemble ::
  "('b \<Rightarrow> 'b) \<Rightarrow> ((nat \<times> nat) list \<Rightarrow> (nat \<times> nat) list) \<Rightarrow> int \<Rightarrow> assembler \<Rightarrow> jar \<Rightarrow> 'b HttpClientRequest \<Rightarrow> HttpClientOptions \<Rightarrow>
   string \<Rightarrow> string \<Rightarrow> string \<Rightarrow> 's option \<Rightarrow> ('b HttpClientRequest \<times> 's ConnectionKey) \<times> jar" where
  "Assemble prepare srt now DefaultAssembler cookies request options scheme host port ssl_ctx =
     (default_Assemble prepare request options scheme host port ssl_ctx, cookies)"
| "Assemble prepare srt now SessionAssembler cookies request options scheme host port ssl_ctx =
     session_Assemble prepare srt now cookies request options scheme host port ssl_ctx"
| "Assemble prepare srt now (ProxyAssembler inner proxy) cookies request options scheme host port ssl_ctx =
     (case Assemble prepare srt now inner cookies request options scheme host port ssl_ctx of
        (result, cookies) \<Rightarrow> (proxy_Assemble proxy result, cookies))"

section \<open>Lemmas\<close>

lemma set_fields_keeps [simp]:
  "cr_target (set_fields options host request) = cr_target request"
  "cr_proxy_authorization (set_fields options host request) = cr_proxy_authorization request"
  "cr_cookie (set_fields options host request) = cr_cookie request"
  by (simp_all add: set_fields_def Let_def)

text \<open>The two basic assemblers derive the same key and leave the target alone.\<close>

lemma basic_Assemble:
  assumes "Assemble prepare srt now a cookies request options scheme host port ssl_ctx = ((request', key), cookies')"
    and "a = DefaultAssembler \<or> a = SessionAssembler"
  shows "key = assembled_key options scheme host port ssl_ctx" "cr_target request' = cr_target request"
    "cr_proxy_authorization request' = cr_proxy_authorization request"
  using assms
  by (auto simp: default_Assemble_def session_Assemble_def Let_def split: prod.splits option.splits)

lemma proxy_Assemble_https:
  assumes "Assemble prepare srt now (ProxyAssembler a proxy) cookies request options ''https'' host port (Some c) = ((request', key), cookies')"
    and "a = DefaultAssembler \<or> a = SessionAssembler" "px_enabled proxy"
  shows "key = (assembled_key options ''https'' host port None)\<lparr>ck_proxy_host := px_host proxy, ck_proxy_port := px_port proxy,
      ck_proxy_ssl_ctx := Some c\<rparr>" "cr_target request' = cr_target request"
    "cr_proxy_authorization request' = (if px_auth proxy \<noteq> [] then Some (px_auth proxy) else cr_proxy_authorization request)"
proof -
  obtain r k j where i: "Assemble prepare srt now a cookies request options ''https'' host port (Some c) = ((r, k), j)"
    by (metis prod.collapse)
  note b = basic_Assemble [OF i assms(2)]
  have k: "ck_scheme k = ''https''" unfolding b(1) by (simp add: assembled_key_def)
  show "key = (assembled_key options ''https'' host port None)\<lparr>ck_proxy_host := px_host proxy, ck_proxy_port := px_port proxy,
      ck_proxy_ssl_ctx := Some c\<rparr>" "cr_target request' = cr_target request"
    "cr_proxy_authorization request' = (if px_auth proxy \<noteq> [] then Some (px_auth proxy) else cr_proxy_authorization request)"
    using assms(1,3) i b k by (auto simp: proxy_Assemble_def Let_def assembled_key_def new_key_def)
qed

section \<open>Properties\<close>

text \<open>
  An https request configured for a proxy reaches its host through the proxy: the socket is connected
  to the proxy, the tunnel asked for is the one to the host, TLS runs inside it under the context and for
  the name of the request, and the target is untouched. The proxy credentials, however, are put on the
  request that goes through the tunnel to the host, and the tunnel request has none.
\<close>

theorem https_goes_through_the_tunnel:
  assumes "Assemble prepare srt now (ProxyAssembler a proxy) cookies request options ''https'' host port (Some c)
      = ((request', key), cookies')"
    and "a = DefaultAssembler \<or> a = SessionAssembler" "px_enabled proxy"
    and "Acquire clock an key (ProxyOn Direct) = (Inr slot, b)"
  shows "\<exists>t. sl_stream slot = Some t \<and> tr_peer t = (px_host proxy, px_port proxy) \<and>
    tr_tunnel t = Some (''CONNECT '' @ host @ '':'' @ port @ '' HTTP/1.1'' @ [CHR 0x0D, CHR 0x0A] @ ''Host: '' @ host @ '':'' @ port @
      [CHR 0x0D, CHR 0x0A] @ ''Proxy-Connection: Keep-Alive'' @ [CHR 0x0D, CHR 0x0A] @ [CHR 0x0D, CHR 0x0A]) \<and>
    tr_tls t = Some \<lparr>tls_ctx = Some c, tls_sni = host, tls_verified = (if co_verify_peer options then Some host else None)\<rparr> \<and>
    cr_target request' = cr_target request \<and>
    (px_auth proxy \<noteq> [] \<longrightarrow> cr_proxy_authorization request' = Some (px_auth proxy))"
proof -
  note k = proxy_Assemble_https [OF assms(1-3)]
  have kf: "ck_scheme key = ''https''" "has_proxy key" "ck_proxy_ssl_ctx key = Some c" "ck_host key = host" "ck_port key = port"
    "ck_verify_peer key = co_verify_peer options" "proxy_key_of key = proxy_key_of (key\<lparr>ck_proxy_ssl_ctx := None\<rparr>)"
    "ck_proxy_host key = px_host proxy" "ck_proxy_port key = px_port proxy"
    using assms(3) unfolding k(1) by (simp_all add: assembled_key_def has_proxy_def px_enabled_def proxy_key_of_def)
  have "OnProxyTcpAcquired an key (direct_Acquire an (proxy_key_of key)) = Inr slot"
    using assms(4) kf by simp
  then show ?thesis using k(2,3) kf
    by (auto simp: OnProxyTcpAcquired_def DoProxyConnect_def DoProxyTlsHandshake_def direct_Acquire_def DoDirectTcpConnect_def
        connected_def tls_for_def connect_request_def proxy_key_of_def Let_def split: sum.splits if_splits option.splits)
qed

text \<open>
  (C36) An http request configured for a proxy does not go there: its target is rewritten to absolute form
  as a proxy expects it, but the socket is connected to the host of the request itself.
\<close>

theorem http_request_bypasses_its_proxy:
  assumes "Assemble prepare srt now (ProxyAssembler a proxy) cookies request options ''http'' host port None
      = ((request', key), cookies')"
    and "a = DefaultAssembler \<or> a = SessionAssembler" "px_enabled proxy"
    and "Acquire clock an key (ProxyOn Direct) = (Inr slot, b)"
  shows "map_option tr_peer (sl_stream slot) = Some (host, port) \<and>
    cr_target request' = ''http://'' @ host @ (if port \<noteq> ''80'' then '':'' @ port else []) @ cr_target request"
proof -
  obtain r k j where i: "Assemble prepare srt now a cookies request options ''http'' host port (None :: 'b option) = ((r, k), j)"
    by (metis prod.collapse)
  note b = basic_Assemble [OF i assms(2)]
  have k: "ck_scheme k = ''http''" "ck_host k = host" "ck_port k = port" "ck_ssl_ctx k = None"
    unfolding b(1) by (simp_all add: assembled_key_def)
  have key: "key = k\<lparr>ck_proxy_host := px_host proxy, ck_proxy_port := px_port proxy\<rparr>"
    and t: "cr_target request' = absolute_target k (cr_target request)"
    using assms(1,3) i b(2) k by (auto simp: proxy_Assemble_def Let_def)
  have "direct_Acquire an key = Inr slot" using assms(4) k unfolding key by simp
  then have "map_option tr_peer (sl_stream slot) = Some (host, port)"
    using k unfolding key
    by (auto simp: direct_Acquire_def DoDirectTcpConnect_def connected_def split: if_splits option.splits)
  then show ?thesis using t k by (simp add: absolute_target_def)
qed

text \<open>A request and a proxy.\<close>

definition demo_request_client :: "unit HttpClientRequest" where
  "demo_request_client = \<lparr>cr_target = ''/x'', cr_host = None, cr_user_agent = None, cr_keep_alive = False, cr_cookie = None,
     cr_proxy_authorization = None, cr_rest = ()\<rparr>"

definition demo_options :: HttpClientOptions where
  "demo_options = default_options\<lparr>co_user_agent := ''ua'', co_keep_alive := True\<rparr>"

definition demo_proxy :: ProxyConfig where
  "demo_proxy = \<lparr>px_host = ''p'', px_port = ''3128'', px_auth = ''Basic x''\<rparr>"

definition demo_assembled :: "string \<Rightarrow> string \<Rightarrow> nat option \<Rightarrow> (unit HttpClientRequest \<times> nat ConnectionKey) \<times> jar" where
  "demo_assembled scheme port ctx =
     Assemble id id 0 (ProxyAssembler DefaultAssembler demo_proxy) [] demo_request_client demo_options scheme ''h'' port ctx"

theorem https_goes_through_the_tunnel_witness:
  "\<exists>t. sl_stream (projr (fst (Acquire (\<lambda>_. 0) (good_answers 1) (snd (fst (demo_assembled ''https'' ''443'' (Some 1)))) (ProxyOn Direct)))) = Some t \<and>
     tr_peer t = (''p'', ''3128'') \<and> cr_proxy_authorization (fst (fst (demo_assembled ''https'' ''443'' (Some 1)))) = Some ''Basic x''"
proof -
  let ?a = "demo_assembled ''https'' ''443'' (Some 1)"
  let ?r = "Acquire (\<lambda>_. 0) (good_answers 1) (snd (fst ?a)) (ProxyOn Direct)"
  have as: "Assemble id id 0 (ProxyAssembler DefaultAssembler demo_proxy) [] demo_request_client demo_options ''https'' ''h'' ''443'' (Some 1)
      = ((fst (fst ?a), snd (fst ?a)), snd ?a)" by (simp add: demo_assembled_def)
  have "fst ?r = Inr (projr (fst ?r))" by code_simp
  then have r: "?r = (Inr (projr (fst ?r)), snd ?r)" by (metis prod.collapse)
  have "px_enabled demo_proxy" by code_simp
  from https_goes_through_the_tunnel [OF as _ this r] show ?thesis by (auto simp: demo_proxy_def)
qed

theorem http_request_bypasses_its_proxy_witness:
  "map_option tr_peer (sl_stream (projr (fst (Acquire (\<lambda>_. 0) (good_answers 1) (snd (fst (demo_assembled ''http'' ''80'' None))) (ProxyOn Direct)))))
     = Some (''h'', ''80'') \<and> px_host demo_proxy = ''p''"
proof -
  let ?a = "demo_assembled ''http'' ''80'' None"
  let ?r = "Acquire (\<lambda>_. 0) (good_answers 1) (snd (fst ?a)) (ProxyOn Direct)"
  have as: "Assemble id id 0 (ProxyAssembler DefaultAssembler demo_proxy) [] demo_request_client demo_options ''http'' ''h'' ''80'' None
      = ((fst (fst ?a), snd (fst ?a)), snd ?a)" by (simp add: demo_assembled_def)
  have "fst ?r = Inr (projr (fst ?r))" by code_simp
  then have r: "?r = (Inr (projr (fst ?r)), snd ?r)" by (metis prod.collapse)
  have "px_enabled demo_proxy" by code_simp
  from http_request_bypasses_its_proxy [OF as _ this r] show ?thesis by (simp add: demo_proxy_def)
qed

end
