(* ===== verification/Client_Task.thy ===== *)
theory Client_Task
  imports Request_Assembler Http_Url
begin

text \<open>
  The client task (\<^verbatim>\<open>connection/client/http_client_task_flow.cc\<close>, \<^verbatim>\<open>http_client_task.cc\<close>,
  \<^verbatim>\<open>http_client_session.cc\<close>): it assembles a request, gets a connection, writes the request, reads the
  response and tells the callbacks registered for its stages.

  The handlers run one at a time. An asynchronous call adds an outstanding operation with its timeout; its
  completion handler is a function of its own, and \<open>client_run\<close> at the end lets the events of a task come in
  any order its outstanding operations allow.
\<close>

section \<open>State\<close>

datatype HttpClientStage = kConnected | kHeader | kChunk | kDone

datatype HttpClientErrorStage =
  es_None | es_Create | es_Resolve | es_Connect | es_TlsHandshake | es_WriteRequest | es_ReadHeader | es_ReadBody

datatype LifecycleState = ls_Idle | ls_Running | ls_Done

datatype CompletionState = cs_None | cs_Success | cs_Failure | cs_Cancelled

datatype CancellationState = ca_None | ca_Requested

text \<open>
  Error codes: those of a builder, among them the ones of the network by number, and two of the HTTP library.
  No error is \<open>None\<close>.
\<close>

datatype client_ec = ec_builder builder_error | ec_end_of_stream | ec_partial_message

abbreviation ec_operation_aborted :: client_ec where
  "ec_operation_aborted \<equiv> ec_builder (be_network 125)"

record HttpResponseHeader =
  hd_version :: nat
  hd_status :: nat
  hd_fields :: "(string \<times> string) list"

text \<open>A response, with what the library's \<^verbatim>\<open>keep_alive()\<close> says of it, and the parser that reads it.\<close>

record HttpClientResponse =
  rs_version :: nat
  rs_status :: nat
  rs_fields :: "(string \<times> string) list"
  rs_keep_alive :: bool
  rs_body :: string

record response_parser =
  rp_message :: HttpClientResponse
  rp_is_done :: bool
  rp_body_limit :: size_t

record HttpClientResult =
  hr_ec :: "client_ec option"
  hr_stage :: HttpClientStage
  hr_error_stage :: HttpClientErrorStage
  hr_cancelled :: bool
  hr_header :: "HttpResponseHeader option"
  hr_response :: "HttpClientResponse option"
  hr_chunk :: string

definition new_HttpClientResult :: HttpClientResult where
  "new_HttpClientResult = \<lparr>hr_ec = None, hr_stage = kDone, hr_error_stage = es_None, hr_cancelled = False, hr_header = None,
     hr_response = None, hr_chunk = []\<rparr>"

text \<open>
  An outstanding operation; the acquisition of a connection carries its result, the others the layer they
  run on (true for TLS) and their timeout.
\<close>

datatype 's client_op =
    OpAcquire "builder_error + 's StreamSlot"
  | OpWrite bool int
  | OpHeader bool int
  | OpBodyAll bool int
  | OpBodySome bool int

text \<open>
  The task. Callbacks are of type \<open>'c\<close>, and an empty one is \<open>None\<close>; executors are numbered. It is declared in
  four steps; the last one is the world around the task: the builder and the cookie jar it shares with others, its
  outstanding operations, the callbacks posted to an executor, and the slots passed to the done hook.
\<close>

record ('b, 's) client_exchange =
  ht_stream :: "'s transport option"
  ht_closed :: bool
  ht_parser :: "response_parser option"
  ht_request :: "'b HttpClientRequest"
  ht_host :: string
  ht_port :: string
  ht_target :: string
  ht_options :: HttpClientOptions
  ht_use_ssl :: bool
  ht_ssl_ctx :: "'s option"

record ('b, 's) client_status = "('b, 's) client_exchange" +
  ht_lifecycle_state :: LifecycleState
  ht_completion_state :: CompletionState
  ht_cancellation_state :: CancellationState
  ht_last_emitted_body_size :: nat
  ht_create_error :: "client_ec option"
  ht_create_error_stage :: HttpClientErrorStage
  ht_error_code :: "client_ec option"
  ht_error_stage :: HttpClientErrorStage

record ('b, 's, 'c) client_hooks = "('b, 's) client_status" +
  ht_io_executor :: nat
  ht_callback_executor :: nat
  ht_on_connected :: "'c option"
  ht_on_header :: "'c option"
  ht_on_chunk :: "'c option"
  ht_on_done :: "'c option"
  ht_assembler :: "assembler option"
  ht_connection_key :: "'s ConnectionKey"
  ht_done_hook :: bool

record ('b, 's, 'c) client_task = "('b, 's, 'c) client_hooks" +
  ht_builder :: "'s builder"
  ht_jar :: jar
  ht_ops :: "'s client_op list"
  ht_log :: "(nat \<times> 'c \<times> HttpClientResult) list"
  ht_returned :: "'s StreamSlot list"

section \<open>Callbacks\<close>

definition DispatchCallback :: "'c \<Rightarrow> HttpClientResult \<Rightarrow> ('b, 's, 'c) client_task \<Rightarrow> ('b, 's, 'c) client_task" where
  "DispatchCallback cb result t = t\<lparr>ht_log := ht_log t @ [(ht_callback_executor t, cb, result)]\<rparr>"

definition HasChunkCallback :: "('b, 's, 'c) client_task \<Rightarrow> bool" where
  "HasChunkCallback t \<longleftrightarrow> ht_on_chunk t \<noteq> None"

definition GetCallbackCopy :: "HttpClientStage \<Rightarrow> ('b, 's, 'c) client_task \<Rightarrow> 'c option" where
  "GetCallbackCopy stage t =
     (case stage of kConnected \<Rightarrow> ht_on_connected t | kHeader \<Rightarrow> ht_on_header t | kChunk \<Rightarrow> ht_on_chunk t | kDone \<Rightarrow> ht_on_done t)"

definition GetDoneCallbackCopy :: "('b, 's, 'c) client_task \<Rightarrow> 'c option" where
  "GetDoneCallbackCopy t = ht_on_done t"

definition SetOn :: "HttpClientStage \<Rightarrow> 'c option \<Rightarrow> ('b, 's, 'c) client_task \<Rightarrow> ('b, 's, 'c) client_task" where
  "SetOn stage cb t =
     (case stage of kConnected \<Rightarrow> t\<lparr>ht_on_connected := cb\<rparr> | kHeader \<Rightarrow> t\<lparr>ht_on_header := cb\<rparr> | kChunk \<Rightarrow> t\<lparr>ht_on_chunk := cb\<rparr>
      | kDone \<Rightarrow> t\<lparr>ht_on_done := cb\<rparr>)"

definition EmitStageByResult :: "HttpClientResult \<Rightarrow> ('b, 's, 'c) client_task \<Rightarrow> ('b, 's, 'c) client_task" where
  "EmitStageByResult result t =
     (case GetCallbackCopy (hr_stage result) t of None \<Rightarrow> t | Some cb \<Rightarrow> DispatchCallback cb result t)"

definition EmitConnected :: "client_ec option \<Rightarrow> ('b, 's, 'c) client_task \<Rightarrow> ('b, 's, 'c) client_task" where
  "EmitConnected ec t =
     (case GetCallbackCopy kConnected t of
        None \<Rightarrow> t
      | Some cb \<Rightarrow> DispatchCallback cb (new_HttpClientResult\<lparr>hr_ec := ec, hr_stage := kConnected\<rparr>) t)"

definition EmitHeader :: "HttpResponseHeader \<Rightarrow> client_ec option \<Rightarrow> ('b, 's, 'c) client_task \<Rightarrow> ('b, 's, 'c) client_task" where
  "EmitHeader header ec t =
     (case GetCallbackCopy kHeader t of
        None \<Rightarrow> t
      | Some cb \<Rightarrow> DispatchCallback cb (new_HttpClientResult\<lparr>hr_ec := ec, hr_stage := kHeader, hr_header := Some header\<rparr>) t)"

definition EmitChunk :: "string \<Rightarrow> ('b, 's, 'c) client_task \<Rightarrow> ('b, 's, 'c) client_task" where
  "EmitChunk chunk t =
     (case GetCallbackCopy kChunk t of
        None \<Rightarrow> t
      | Some cb \<Rightarrow> DispatchCallback cb (new_HttpClientResult\<lparr>hr_stage := kChunk, hr_chunk := chunk\<rparr>) t)"

definition EmitDone :: "HttpClientResult \<Rightarrow> ('b, 's, 'c) client_task \<Rightarrow> ('b, 's, 'c) client_task" where
  "EmitDone result t = (case GetDoneCallbackCopy t of None \<Rightarrow> t | Some cb \<Rightarrow> DispatchCallback cb result t)"

section \<open>Completion\<close>

definition ErrorStageToCallbackStage :: "HttpClientErrorStage \<Rightarrow> HttpClientStage" where
  "ErrorStageToCallbackStage error_stage =
     (case error_stage of
        es_Create \<Rightarrow> kConnected | es_Resolve \<Rightarrow> kConnected | es_Connect \<Rightarrow> kConnected | es_TlsHandshake \<Rightarrow> kConnected
      | es_WriteRequest \<Rightarrow> kHeader | es_ReadHeader \<Rightarrow> kHeader | es_ReadBody \<Rightarrow> kChunk | es_None \<Rightarrow> kDone)"

definition return_stream :: "bool \<Rightarrow> ('b, 's, 'c) client_task \<Rightarrow> ('b, 's, 'c) client_task" where
  "return_stream upstream_closed t =
     (if ht_done_hook t
      then t\<lparr>ht_stream := None,
             ht_returned := ht_returned t @ [new_slot\<lparr>sl_key := ht_connection_key t, sl_stream := ht_stream t, sl_http_version := 11,
                                                     sl_upstream_closed := upstream_closed\<rparr>]\<rparr>
      else t)"

definition Fail :: "HttpClientErrorStage \<Rightarrow> client_ec \<Rightarrow> ('b, 's, 'c) client_task \<Rightarrow> ('b, 's, 'c) client_task" where
  "Fail error_stage ec t =
     (if ht_lifecycle_state t = ls_Done then t
      else
        (let t = t\<lparr>ht_error_stage := error_stage, ht_error_code := Some ec\<rparr>;
             cancelled = (ht_cancellation_state t = ca_Requested \<or> ec = ec_operation_aborted);
             t = t\<lparr>ht_completion_state := (if cancelled then cs_Cancelled else cs_Failure)\<rparr>;
             stage_result = new_HttpClientResult\<lparr>hr_ec := Some ec, hr_cancelled := cancelled, hr_error_stage := error_stage,
                                                 hr_stage := ErrorStageToCallbackStage error_stage\<rparr>;
             t = EmitStageByResult stage_result t;
             t = EmitDone (stage_result\<lparr>hr_stage := kDone\<rparr>) t
         in return_stream True (t\<lparr>ht_lifecycle_state := ls_Done\<rparr>)))"

definition Succeed :: "HttpClientResponse \<Rightarrow> ('b, 's, 'c) client_task \<Rightarrow> ('b, 's, 'c) client_task" where
  "Succeed response t =
     (if ht_lifecycle_state t = ls_Done then t
      else
        (let t = t\<lparr>ht_completion_state := cs_Success\<rparr>;
             t = EmitDone (new_HttpClientResult\<lparr>hr_stage := kDone, hr_response := Some response\<rparr>) t
         in return_stream (\<not> rs_keep_alive response) (t\<lparr>ht_lifecycle_state := ls_Done\<rparr>)))"

definition Failed :: "('b, 's, 'c) client_task \<Rightarrow> bool" where
  "Failed t \<longleftrightarrow> ht_completion_state t = cs_Failure \<or> ht_completion_state t = cs_Cancelled"

section \<open>The exchange\<close>

definition IsSsl :: "('b, 's, 'c) client_task \<Rightarrow> bool" where
  "IsSsl t = (case ht_stream t of Some s \<Rightarrow> tr_tls s \<noteq> None | None \<Rightarrow> False)"

definition IsTcp :: "('b, 's, 'c) client_task \<Rightarrow> bool" where
  "IsTcp t = (case ht_stream t of Some s \<Rightarrow> tr_tls s = None | None \<Rightarrow> False)"

definition start_op :: "'s client_op \<Rightarrow> ('b, 's, 'c) client_task \<Rightarrow> ('b, 's, 'c) client_task" where
  "start_op op t = t\<lparr>ht_ops := ht_ops t @ [op]\<rparr>"

definition DoWriteRequest :: "('b, 's, 'c) client_task \<Rightarrow> ('b, 's, 'c) client_task" where
  "DoWriteRequest t = start_op (OpWrite (IsSsl t) (co_write_timeout (ht_options t))) t"

definition DoAcquire ::
  "('b \<Rightarrow> 'b) \<Rightarrow> ((nat \<times> nat) list \<Rightarrow> (nat \<times> nat) list) \<Rightarrow> int \<Rightarrow> (nat \<Rightarrow> int) \<Rightarrow> answers \<Rightarrow> assembler \<Rightarrow>
   ('b, 's, 'c) client_task \<Rightarrow> ('b, 's, 'c) client_task" where
  "DoAcquire prepare srt now clock an a t =
     (let scheme = (if ht_use_ssl t then ''https'' else ''http'');
          ((request, key), jar) =
            Assemble prepare srt now a (ht_jar t) (ht_request t) (ht_options t) scheme (ht_host t) (ht_port t) (ht_ssl_ctx t);
          t = t\<lparr>ht_request := request, ht_connection_key := key, ht_use_ssl := (ck_scheme key = ''https''), ht_host := ck_host key,
                ht_port := ck_port key, ht_ssl_ctx := ck_ssl_ctx key, ht_target := cr_target request, ht_jar := jar\<rparr>;
          (r, b) = Acquire clock an key (ht_builder t)
      in start_op (OpAcquire r) (t\<lparr>ht_builder := b\<rparr>))"

definition DoStart ::
  "('b \<Rightarrow> 'b) \<Rightarrow> ((nat \<times> nat) list \<Rightarrow> (nat \<times> nat) list) \<Rightarrow> int \<Rightarrow> (nat \<Rightarrow> int) \<Rightarrow> answers \<Rightarrow>
   ('b, 's, 'c) client_task \<Rightarrow> ('b, 's, 'c) client_task" where
  "DoStart prepare srt now clock an t =
     (if ht_lifecycle_state t \<noteq> ls_Idle then t
      else
        (let t = t\<lparr>ht_lifecycle_state := ls_Running\<rparr>
         in case ht_create_error t of
              Some ec \<Rightarrow> Fail (ht_create_error_stage t) ec t
            | None \<Rightarrow>
                (case ht_assembler t of
                   Some a \<Rightarrow> DoAcquire prepare srt now clock an a t
                 | None \<Rightarrow>
                     if (ht_use_ssl t \<and> \<not> IsSsl t) \<or> (\<not> ht_use_ssl t \<and> \<not> IsTcp t)
                     then Fail es_Create (ec_builder be_invalid_argument) t
                     else DoWriteRequest (EmitConnected None t))))"

definition OnAcquireComplete :: "builder_error + 's StreamSlot \<Rightarrow> ('b, 's, 'c) client_task \<Rightarrow> ('b, 's, 'c) client_task" where
  "OnAcquireComplete result t =
     (case result of
        Inl ec \<Rightarrow> Fail es_Connect (ec_builder ec) t
      | Inr slot \<Rightarrow>
          if sl_stream slot = None then Fail es_Connect (ec_builder be_invalid_argument) t
          else DoWriteRequest (EmitConnected None (t\<lparr>ht_stream := sl_stream slot\<rparr>)))"

definition new_message :: HttpClientResponse where
  "new_message = \<lparr>rs_version = 11, rs_status = 200, rs_fields = [], rs_keep_alive = True, rs_body = []\<rparr>"

definition OnWriteRequest :: "client_ec option \<Rightarrow> ('b, 's, 'c) client_task \<Rightarrow> ('b, 's, 'c) client_task" where
  "OnWriteRequest ec t =
     (case ec of
        Some ec \<Rightarrow> Fail es_WriteRequest ec t
      | None \<Rightarrow>
          (let t = t\<lparr>ht_parser := Some \<lparr>rp_message = new_message, rp_is_done = False,
                                       rp_body_limit = co_max_response_body_bytes (ht_options t)\<rparr>\<rparr>
           in start_op (OpHeader (IsSsl t) (co_read_header_timeout (ht_options t))) t))"

text \<open>
  The copy of the header: \<^verbatim>\<open>fields::set\<close> of the HTTP library removes every field of the name, whatever its
  case, and adds the new one at the end.
\<close>

definition set_field :: "string \<times> string \<Rightarrow> (string \<times> string) list \<Rightarrow> (string \<times> string) list" where
  "set_field f fs = filter (\<lambda>g. \<not> iequals (fst g) (fst f)) fs @ [f]"

definition copy_header :: "HttpClientResponse \<Rightarrow> HttpResponseHeader" where
  "copy_header msg =
     \<lparr>hd_version = rs_version msg, hd_status = rs_status msg, hd_fields = fold set_field (rs_fields msg) []\<rparr>"

definition field_values :: "string \<Rightarrow> (string \<times> string) list \<Rightarrow> string list" where
  "field_values name fs = map snd (filter (\<lambda>f. iequals (fst f) name) fs)"

text \<open>
  What the assembler does with a header: the session stores its cookies, with the clock readings \<open>clocks\<close>,
  and a proxy asks its inner assembler.
\<close>

fun assembler_OnResponseHeader ::
  "(string \<Rightarrow> broken_time option) \<Rightarrow> (nat \<Rightarrow> int \<times> int \<times> int) \<Rightarrow> assembler \<Rightarrow> HttpResponseHeader \<Rightarrow> string \<Rightarrow> string \<Rightarrow> jar \<Rightarrow> jar" where
  "assembler_OnResponseHeader get_time clocks DefaultAssembler header host target cookies = cookies"
| "assembler_OnResponseHeader get_time clocks SessionAssembler header host target cookies =
     (let vals = field_values ''Set-Cookie'' (hd_fields header)
      in OnResponseHeader get_time host target (zip (map clocks [0..<length vals]) vals) cookies)"
| "assembler_OnResponseHeader get_time clocks (ProxyAssembler inner proxy) header host target cookies =
     assembler_OnResponseHeader get_time clocks inner header host target cookies"

definition parser_message :: "('b, 's, 'c) client_task \<Rightarrow> HttpClientResponse" where
  "parser_message t = (case ht_parser t of Some p \<Rightarrow> rp_message p | None \<Rightarrow> new_message)"

definition parser_is_done :: "('b, 's, 'c) client_task \<Rightarrow> bool" where
  "parser_is_done t = (case ht_parser t of Some p \<Rightarrow> rp_is_done p | None \<Rightarrow> False)"

definition DoReadBodyAll :: "('b, 's, 'c) client_task \<Rightarrow> ('b, 's, 'c) client_task" where
  "DoReadBodyAll t = start_op (OpBodyAll (IsSsl t) (co_read_body_timeout (ht_options t))) t"

definition DoReadBodySome :: "('b, 's, 'c) client_task \<Rightarrow> ('b, 's, 'c) client_task" where
  "DoReadBodySome t = start_op (OpBodySome (IsSsl t) (co_read_body_timeout (ht_options t))) t"

definition OnReadHeader ::
  "(string \<Rightarrow> broken_time option) \<Rightarrow> (nat \<Rightarrow> int \<times> int \<times> int) \<Rightarrow> client_ec option \<Rightarrow>
   ('b, 's, 'c) client_task \<Rightarrow> ('b, 's, 'c) client_task" where
  "OnReadHeader get_time clocks ec t =
     (case ec of
        Some ec \<Rightarrow> Fail es_ReadHeader ec t
      | None \<Rightarrow>
          (let header = copy_header (parser_message t);
               t = (case ht_assembler t of
                      Some a \<Rightarrow> t\<lparr>ht_jar := assembler_OnResponseHeader get_time clocks a header (ht_host t) (ht_target t) (ht_jar t)\<rparr>
                    | None \<Rightarrow> t);
               t = EmitHeader header None t
           in if HasChunkCallback t
              then DoReadBodySome (t\<lparr>ht_last_emitted_body_size := length (rs_body (parser_message t))\<rparr>)
              else DoReadBodyAll t))"

text \<open>Errors a body read does not fail on.\<close>

definition ends_body :: "client_ec option \<Rightarrow> bool" where
  "ends_body ec \<longleftrightarrow> ec = None \<or> ec = Some ec_end_of_stream \<or> ec = Some ec_partial_message"

definition OnReadBodyAll :: "client_ec option \<Rightarrow> ('b, 's, 'c) client_task \<Rightarrow> ('b, 's, 'c) client_task" where
  "OnReadBodyAll ec t = (if \<not> ends_body ec then Fail es_ReadBody (the ec) t else Succeed (parser_message t) t)"

definition OnReadBodySome :: "client_ec option \<Rightarrow> ('b, 's, 'c) client_task \<Rightarrow> ('b, 's, 'c) client_task" where
  "OnReadBodySome ec t =
     (if \<not> ends_body ec then Fail es_ReadBody (the ec) t
      else
        (let body = rs_body (parser_message t);
             t = (if length body > ht_last_emitted_body_size t
                  then (EmitChunk (drop (ht_last_emitted_body_size t) body) t)\<lparr>ht_last_emitted_body_size := length body\<rparr>
                  else t)
         in if parser_is_done t then Succeed (parser_message t) t else DoReadBodySome t))"

definition CloseTransports :: "('b, 's, 'c) client_task \<Rightarrow> ('b, 's, 'c) client_task" where
  "CloseTransports t = (if ht_stream t = None then t else t\<lparr>ht_closed := True\<rparr>)"

definition DoCancel :: "('b, 's, 'c) client_task \<Rightarrow> ('b, 's, 'c) client_task" where
  "DoCancel t =
     (if ht_lifecycle_state t = ls_Done then t else CloseTransports (t\<lparr>ht_cancellation_state := ca_Requested\<rparr>))"

section \<open>Factories\<close>

text \<open>
  \<open>blank method\<close> stands for a message of the HTTP library with the method and version 1.1 and nothing else. The
  default SSL state is the context and the error of loading it.
\<close>

type_synonym 's ssl_state = "'s option \<times> client_ec option"

definition new_Impl ::
  "('v \<Rightarrow> 'b) \<Rightarrow> nat \<Rightarrow> nat \<Rightarrow> string \<Rightarrow> string \<Rightarrow> string \<Rightarrow> 'v \<Rightarrow> HttpClientOptions \<Rightarrow> bool \<Rightarrow> 's option \<Rightarrow> ('b, 's, 'c) client_task" where
  "new_Impl blank io_executor callback_executor host port target verb options use_ssl ssl_ctx =
     \<lparr>ht_stream = None, ht_closed = False, ht_parser = None,
      ht_request = \<lparr>cr_target = target, cr_host = None, cr_user_agent = None, cr_keep_alive = True, cr_cookie = None,
                    cr_proxy_authorization = None, cr_rest = blank verb\<rparr>,
      ht_host = host, ht_port = port, ht_target = target, ht_options = options, ht_use_ssl = use_ssl, ht_ssl_ctx = ssl_ctx,
      ht_lifecycle_state = ls_Idle, ht_completion_state = cs_None, ht_cancellation_state = ca_None,
      ht_last_emitted_body_size = 0, ht_create_error = None, ht_create_error_stage = es_None, ht_error_code = None,
      ht_error_stage = es_None, ht_io_executor = io_executor, ht_callback_executor = callback_executor,
      ht_on_connected = None, ht_on_header = None, ht_on_chunk = None, ht_on_done = None, ht_assembler = None,
      ht_connection_key = new_key, ht_done_hook = False, ht_builder = Direct, ht_jar = [], ht_ops = [], ht_log = [],
      ht_returned = []\<rparr>"

definition SetCreateError :: "client_ec \<Rightarrow> HttpClientErrorStage \<Rightarrow> ('b, 's, 'c) client_task \<Rightarrow> ('b, 's, 'c) client_task" where
  "SetCreateError ec error_stage t = t\<lparr>ht_create_error := Some ec, ht_create_error_stage := error_stage\<rparr>"

text \<open>A builder and the jar of a session are shared; the task gets the state they are in.\<close>

definition SetAssembler :: "assembler \<Rightarrow> jar \<Rightarrow> 's builder \<Rightarrow> ('b, 's, 'c) client_task \<Rightarrow> ('b, 's, 'c) client_task" where
  "SetAssembler a cookies b t = t\<lparr>ht_assembler := Some a, ht_jar := cookies, ht_builder := b\<rparr>"

definition SetRawStream :: "'s transport \<Rightarrow> ('b, 's, 'c) client_task \<Rightarrow> ('b, 's, 'c) client_task" where
  "SetRawStream stream t = t\<lparr>ht_stream := Some stream\<rparr>"

definition with_create_error :: "client_ec option \<Rightarrow> ('b, 's, 'c) client_task \<Rightarrow> ('b, 's, 'c) client_task" where
  "with_create_error create_ec t = (case create_ec of Some ec \<Rightarrow> SetCreateError ec es_Create t | None \<Rightarrow> t)"

definition CreateAssembledTask ::
  "('v \<Rightarrow> 'b) \<Rightarrow> nat \<Rightarrow> nat \<Rightarrow> string \<Rightarrow> string \<Rightarrow> string \<Rightarrow> string \<Rightarrow> 'v \<Rightarrow> HttpClientOptions \<Rightarrow> 's option \<Rightarrow> client_ec option \<Rightarrow>
   ('b, 's, 'c) client_task" where
  "CreateAssembledTask blank io_executor callback_executor scheme host port target verb options ssl_ctx create_ec =
     (let use_ssl = (scheme = ''https'');
          impl = new_Impl blank io_executor callback_executor host port target verb options use_ssl ssl_ctx
      in with_create_error create_ec (SetAssembler DefaultAssembler [] Direct impl))"

definition CreateSessionTask ::
  "jar \<Rightarrow> ('v \<Rightarrow> 'b) \<Rightarrow> nat \<Rightarrow> nat \<Rightarrow> string \<Rightarrow> string \<Rightarrow> string \<Rightarrow> string \<Rightarrow> 'v \<Rightarrow> HttpClientOptions \<Rightarrow> 's option \<Rightarrow> client_ec option \<Rightarrow>
   ('b, 's, 'c) client_task" where
  "CreateSessionTask cookies blank io_executor callback_executor scheme host port target verb options ssl_ctx create_ec =
     (let use_ssl = (scheme = ''https'');
          impl = new_Impl blank io_executor callback_executor host port target verb options use_ssl ssl_ctx
      in with_create_error create_ec (SetAssembler SessionAssembler cookies Direct impl))"

text \<open>Each public factory comes with an overload that uses the I/O executor for the callbacks too.\<close>

definition client_CreateHttp where
  "client_CreateHttp blank io_executor callback_executor host port target verb options =
     CreateAssembledTask blank io_executor callback_executor ''http'' host port target verb options None None"

definition client_CreateHttps_default where
  "client_CreateHttps_default ssl_state blank io_executor callback_executor host port target verb options =
     CreateAssembledTask blank io_executor callback_executor ''https'' host port target verb options (fst ssl_state) (snd ssl_state)"

definition client_CreateHttps where
  "client_CreateHttps ssl_ctx blank io_executor callback_executor host port target verb options =
     CreateAssembledTask blank io_executor callback_executor ''https'' host port target verb options ssl_ctx None"

definition client_CreateFromUrl_default ::
  "(string \<Rightarrow> url_view option) \<Rightarrow> 's ssl_state \<Rightarrow> ('v \<Rightarrow> 'b) \<Rightarrow> nat \<Rightarrow> nat \<Rightarrow> string \<Rightarrow> 'v \<Rightarrow> HttpClientOptions \<Rightarrow>
   ('b, 's, 'c) client_task" where
  "client_CreateFromUrl_default parse_uri ssl_state blank io_executor callback_executor url verb options =
     (case ParseHttpUrl parse_uri url of
        None \<Rightarrow> SetCreateError (ec_builder be_invalid_argument) es_Create
                  (new_Impl blank io_executor callback_executor [] [] ''/'' verb options False None)
      | Some parsed \<Rightarrow>
          if pu_https parsed
          then CreateAssembledTask blank io_executor callback_executor ''https'' (pu_host parsed) (pu_port parsed) (pu_target parsed)
                 verb options (fst ssl_state) (snd ssl_state)
          else CreateAssembledTask blank io_executor callback_executor ''http'' (pu_host parsed) (pu_port parsed) (pu_target parsed)
                 verb options None None)"

definition client_CreateFromUrl ::
  "(string \<Rightarrow> url_view option) \<Rightarrow> 's option \<Rightarrow> ('v \<Rightarrow> 'b) \<Rightarrow> nat \<Rightarrow> nat \<Rightarrow> string \<Rightarrow> 'v \<Rightarrow> HttpClientOptions \<Rightarrow>
   ('b, 's, 'c) client_task" where
  "client_CreateFromUrl parse_uri ssl_ctx blank io_executor callback_executor url verb options =
     (case ParseHttpUrl parse_uri url of
        None \<Rightarrow> SetCreateError (ec_builder be_invalid_argument) es_Create
                  (new_Impl blank io_executor callback_executor [] [] ''/'' verb options False None)
      | Some parsed \<Rightarrow>
          (let effective_ssl_ctx = (if pu_https parsed then ssl_ctx else None)
           in CreateAssembledTask blank io_executor callback_executor (if pu_https parsed then ''https'' else ''http'')
                (pu_host parsed) (pu_port parsed) (pu_target parsed) verb options effective_ssl_ctx None))"

definition CreateHttpRaw where
  "CreateHttpRaw blank io_executor callback_executor stream host target verb options =
     SetRawStream stream (new_Impl blank io_executor callback_executor host [] target verb options False None)"

definition CreateHttpsRaw where
  "CreateHttpsRaw blank io_executor callback_executor stream host target verb options =
     SetRawStream stream (new_Impl blank io_executor callback_executor host [] target verb options True None)"

text \<open>The factories of a session, which holds the jar.\<close>

definition session_CreateHttp where
  "session_CreateHttp cookies blank io_executor callback_executor host port target verb options =
     CreateSessionTask cookies blank io_executor callback_executor ''http'' host port target verb options None None"

definition session_CreateHttps_default where
  "session_CreateHttps_default ssl_state cookies blank io_executor callback_executor host port target verb options =
     CreateSessionTask cookies blank io_executor callback_executor ''https'' host port target verb options (fst ssl_state) (snd ssl_state)"

definition session_CreateHttps where
  "session_CreateHttps ssl_ctx cookies blank io_executor callback_executor host port target verb options =
     CreateSessionTask cookies blank io_executor callback_executor ''https'' host port target verb options ssl_ctx None"

definition session_CreateFromUrl_default ::
  "(string \<Rightarrow> url_view option) \<Rightarrow> 's ssl_state \<Rightarrow> jar \<Rightarrow> ('v \<Rightarrow> 'b) \<Rightarrow> nat \<Rightarrow> nat \<Rightarrow> string \<Rightarrow> 'v \<Rightarrow> HttpClientOptions \<Rightarrow>
   ('b, 's, 'c) client_task" where
  "session_CreateFromUrl_default parse_uri ssl_state cookies blank io_executor callback_executor url verb options =
     (case ParseHttpUrl parse_uri url of
        None \<Rightarrow> CreateSessionTask cookies blank io_executor callback_executor ''http'' [] [] ''/'' verb options None
                  (Some (ec_builder be_invalid_argument))
      | Some parsed \<Rightarrow>
          if pu_https parsed
          then CreateSessionTask cookies blank io_executor callback_executor ''https'' (pu_host parsed) (pu_port parsed)
                 (pu_target parsed) verb options (fst ssl_state) (snd ssl_state)
          else CreateSessionTask cookies blank io_executor callback_executor ''http'' (pu_host parsed) (pu_port parsed)
                 (pu_target parsed) verb options None None)"

definition session_CreateFromUrl ::
  "(string \<Rightarrow> url_view option) \<Rightarrow> 's option \<Rightarrow> jar \<Rightarrow> ('v \<Rightarrow> 'b) \<Rightarrow> nat \<Rightarrow> nat \<Rightarrow> string \<Rightarrow> 'v \<Rightarrow> HttpClientOptions \<Rightarrow>
   ('b, 's, 'c) client_task" where
  "session_CreateFromUrl parse_uri ssl_ctx cookies blank io_executor callback_executor url verb options =
     (case ParseHttpUrl parse_uri url of
        None \<Rightarrow> CreateSessionTask cookies blank io_executor callback_executor ''http'' [] [] ''/'' verb options None
                  (Some (ec_builder be_invalid_argument))
      | Some parsed \<Rightarrow>
          (let effective_ssl_ctx = (if pu_https parsed then ssl_ctx else None)
           in CreateSessionTask cookies blank io_executor callback_executor (if pu_https parsed then ''https'' else ''http'')
                (pu_host parsed) (pu_port parsed) (pu_target parsed) verb options effective_ssl_ctx None))"

section \<open>Runs\<close>

text \<open>
  The events of a task: the posted \<^verbatim>\<open>Start\<close>, with the clocks and the network's answers for the acquisition,
  the posted \<^verbatim>\<open>Cancel\<close>, a callback being registered, and the completion of an outstanding operation, with its
  error and what the library's parser has read: the message at the end of the header, the whole body, or
  more of the body and whether it is complete.
\<close>

datatype 'c client_event =
    EvStart int "nat \<Rightarrow> int" answers
  | EvCancel
  | EvSetOn HttpClientStage "'c option"
  | EvAcquired
  | EvWritten "client_ec option"
  | EvHeader "nat \<Rightarrow> int \<times> int \<times> int" "client_ec option" HttpClientResponse bool
  | EvBodyAll "client_ec option" string
  | EvBodySome "client_ec option" string bool

definition parsed :: "HttpClientResponse \<Rightarrow> bool \<Rightarrow> ('b, 's, 'c) client_task \<Rightarrow> ('b, 's, 'c) client_task" where
  "parsed msg is_done t = t\<lparr>ht_parser := map_option (\<lambda>p. p\<lparr>rp_message := msg, rp_is_done := is_done\<rparr>) (ht_parser t)\<rparr>"

definition drop_client_op :: "'s client_op \<Rightarrow> ('b, 's, 'c) client_task \<Rightarrow> ('b, 's, 'c) client_task" where
  "drop_client_op op t = t\<lparr>ht_ops := remove1 op (ht_ops t)\<rparr>"

text \<open>The outstanding operation an event completes, and the handler it runs.\<close>

fun completes :: "'c client_event \<Rightarrow> 's client_op \<Rightarrow> bool" where
  "completes EvAcquired (OpAcquire r) = True"
| "completes (EvWritten ec) (OpWrite tls ms) = True"
| "completes (EvHeader clocks ec msg is_done) (OpHeader tls ms) = True"
| "completes (EvBodyAll ec body) (OpBodyAll tls ms) = True"
| "completes (EvBodySome ec piece is_done) (OpBodySome tls ms) = True"
| "completes _ _ = False"

fun client_handler ::
  "(string \<Rightarrow> broken_time option) \<Rightarrow> 'c client_event \<Rightarrow> 's client_op \<Rightarrow> ('b, 's, 'c) client_task \<Rightarrow> ('b, 's, 'c) client_task" where
  "client_handler get_time EvAcquired (OpAcquire r) t = OnAcquireComplete r t"
| "client_handler get_time (EvWritten ec) op t = OnWriteRequest ec t"
| "client_handler get_time (EvHeader clocks ec msg is_done) op t =
     OnReadHeader get_time clocks ec (if ec = None then parsed msg is_done t else t)"
| "client_handler get_time (EvBodyAll ec body) op t =
     OnReadBodyAll ec (parsed ((parser_message t)\<lparr>rs_body := body\<rparr>) True t)"
| "client_handler get_time (EvBodySome ec piece is_done) op t =
     OnReadBodySome ec (parsed ((parser_message t)\<lparr>rs_body := rs_body (parser_message t) @ piece\<rparr>) is_done t)"
| "client_handler get_time _ op t = t"

fun client_step ::
  "('b \<Rightarrow> 'b) \<Rightarrow> ((nat \<times> nat) list \<Rightarrow> (nat \<times> nat) list) \<Rightarrow> (string \<Rightarrow> broken_time option) \<Rightarrow> 'c client_event \<Rightarrow>
   ('b, 's, 'c) client_task \<Rightarrow> ('b, 's, 'c) client_task option" where
  "client_step prepare srt get_time (EvStart now clock an) t = Some (DoStart prepare srt now clock an t)"
| "client_step prepare srt get_time EvCancel t = Some (DoCancel t)"
| "client_step prepare srt get_time (EvSetOn stage cb) t = Some (SetOn stage cb t)"
| "client_step prepare srt get_time e t =
     (case find (completes e) (ht_ops t) of
        None \<Rightarrow> None
      | Some op \<Rightarrow> Some (client_handler get_time e op (drop_client_op op t)))"

fun client_run ::
  "('b \<Rightarrow> 'b) \<Rightarrow> ((nat \<times> nat) list \<Rightarrow> (nat \<times> nat) list) \<Rightarrow> (string \<Rightarrow> broken_time option) \<Rightarrow> 'c client_event list \<Rightarrow>
   ('b, 's, 'c) client_task \<Rightarrow> ('b, 's, 'c) client_task option" where
  "client_run prepare srt get_time [] t = Some t"
| "client_run prepare srt get_time (e # es) t = Option.bind (client_step prepare srt get_time e t) (client_run prepare srt get_time es)"

section \<open>What the handlers do to the log\<close>

definition entry :: "nat \<Rightarrow> 'c option \<Rightarrow> HttpClientResult \<Rightarrow> (nat \<times> 'c \<times> HttpClientResult) list" where
  "entry ex cb result = (case cb of None \<Rightarrow> [] | Some c \<Rightarrow> [(ex, c, result)])"

definition stages :: "('b, 's, 'c) client_task \<Rightarrow> HttpClientStage list" where
  "stages t = map (\<lambda>(ex, c, r). hr_stage r) (ht_log t)"

definition told :: "'c option \<Rightarrow> HttpClientStage \<Rightarrow> HttpClientStage list" where
  "told cb stage = (if cb = None then [] else [stage])"

lemma stages_entry: "map (\<lambda>(ex, c, r). hr_stage r) (entry ex cb result) = told cb (hr_stage result)"
  by (simp add: entry_def told_def split: option.split)

lemma Emit_simps:
  "EmitConnected ec t =
     t\<lparr>ht_log := ht_log t @ entry (ht_callback_executor t) (ht_on_connected t) (new_HttpClientResult\<lparr>hr_ec := ec, hr_stage := kConnected\<rparr>)\<rparr>"
  "EmitHeader header ec t =
     t\<lparr>ht_log := ht_log t @ entry (ht_callback_executor t) (ht_on_header t) (new_HttpClientResult\<lparr>hr_ec := ec, hr_stage := kHeader, hr_header := Some header\<rparr>)\<rparr>"
  "EmitChunk chunk t =
     t\<lparr>ht_log := ht_log t @ entry (ht_callback_executor t) (ht_on_chunk t) (new_HttpClientResult\<lparr>hr_stage := kChunk, hr_chunk := chunk\<rparr>)\<rparr>"
  "EmitDone result t = t\<lparr>ht_log := ht_log t @ entry (ht_callback_executor t) (ht_on_done t) result\<rparr>"
  "EmitStageByResult result t = t\<lparr>ht_log := ht_log t @ entry (ht_callback_executor t) (GetCallbackCopy (hr_stage result) t) result\<rparr>"
  by (simp_all add: EmitConnected_def EmitHeader_def EmitChunk_def EmitDone_def EmitStageByResult_def DispatchCallback_def
      GetCallbackCopy_def GetDoneCallbackCopy_def entry_def split: option.split)

lemma return_stream_keeps [simp]:
  "ht_lifecycle_state (return_stream b t) = ht_lifecycle_state t" "ht_ops (return_stream b t) = ht_ops t"
  "ht_completion_state (return_stream b t) = ht_completion_state t" "ht_log (return_stream b t) = ht_log t"
  "ht_on_done (return_stream b t) = ht_on_done t" "ht_done_hook (return_stream b t) = ht_done_hook t"
  "ht_create_error (return_stream b t) = ht_create_error t" "ht_create_error_stage (return_stream b t) = ht_create_error_stage t"
  "ht_on_chunk (return_stream b t) = ht_on_chunk t" "ht_cancellation_state (return_stream b t) = ht_cancellation_state t"
  "ht_jar (return_stream b t) = ht_jar t" "\<not> ht_done_hook t \<Longrightarrow> ht_returned (return_stream b t) = ht_returned t"
  by (simp_all add: return_stream_def)

definition failure :: "HttpClientErrorStage \<Rightarrow> client_ec \<Rightarrow> ('b, 's, 'c) client_task \<Rightarrow> HttpClientResult" where
  "failure error_stage ec t =
     new_HttpClientResult\<lparr>hr_ec := Some ec, hr_cancelled := (ht_cancellation_state t = ca_Requested \<or> ec = ec_operation_aborted),
       hr_error_stage := error_stage, hr_stage := ErrorStageToCallbackStage error_stage\<rparr>"

lemma Fail_form:
  assumes "ht_lifecycle_state t \<noteq> ls_Done"
  shows "Fail error_stage ec t = return_stream True (t\<lparr>ht_error_stage := error_stage, ht_error_code := Some ec,
    ht_completion_state := (if ht_cancellation_state t = ca_Requested \<or> ec = ec_operation_aborted then cs_Cancelled else cs_Failure),
    ht_log := ht_log t @ entry (ht_callback_executor t) (GetCallbackCopy (ErrorStageToCallbackStage error_stage) t) (failure error_stage ec t) @
      entry (ht_callback_executor t) (ht_on_done t) ((failure error_stage ec t)\<lparr>hr_stage := kDone\<rparr>), ht_lifecycle_state := ls_Done\<rparr>)"
  using assms
  by (cases "ErrorStageToCallbackStage error_stage")
    (simp_all add: Fail_def Let_def Emit_simps failure_def GetCallbackCopy_def cong: if_cong)

lemma Succeed_form:
  assumes "ht_lifecycle_state t \<noteq> ls_Done"
  shows "Succeed response t = return_stream (\<not> rs_keep_alive response) (t\<lparr>ht_completion_state := cs_Success,
    ht_log := ht_log t @ entry (ht_callback_executor t) (ht_on_done t) (new_HttpClientResult\<lparr>hr_stage := kDone, hr_response := Some response\<rparr>),
    ht_lifecycle_state := ls_Done\<rparr>)"
  using assms by (simp add: Succeed_def Let_def Emit_simps)

lemma after_done: "ht_lifecycle_state t = ls_Done \<Longrightarrow> Fail error_stage ec t = t" "ht_lifecycle_state t = ls_Done \<Longrightarrow> Succeed response t = t"
  by (simp_all add: Fail_def Succeed_def)

text \<open>The shape of a log: connected, header, chunks and done, each at most once but the chunks.\<close>

definition stage_word :: "bool \<Rightarrow> bool \<Rightarrow> nat \<Rightarrow> bool \<Rightarrow> HttpClientStage list" where
  "stage_word a h n d =
     (if a then [kConnected] else []) @ (if h then [kHeader] else []) @ replicate n kChunk @ (if d then [kDone] else [])"

fun fits :: "'s client_op \<Rightarrow> bool \<Rightarrow> bool \<Rightarrow> nat \<Rightarrow> bool" where
  "fits (OpAcquire r) a h n \<longleftrightarrow> \<not> a \<and> \<not> h \<and> n = 0"
| "fits (OpWrite tls ms) a h n \<longleftrightarrow> \<not> h \<and> n = 0"
| "fits (OpHeader tls ms) a h n \<longleftrightarrow> \<not> h \<and> n = 0"
| "fits (OpBodyAll tls ms) a h n \<longleftrightarrow> True"
| "fits (OpBodySome tls ms) a h n \<longleftrightarrow> True"

definition client_inv :: "('b, 's, 'c) client_task \<Rightarrow> bool" where
  "client_inv t \<longleftrightarrow>
     (ht_create_error t \<noteq> None \<longrightarrow> ht_create_error_stage t = es_Create) \<and>
     (case ht_lifecycle_state t of
        ls_Idle \<Rightarrow> ht_ops t = [] \<and> ht_log t = [] \<and> ht_completion_state t = cs_None
      | ls_Running \<Rightarrow> ht_completion_state t = cs_None \<and>
          (\<exists>op a h n. ht_ops t = [op] \<and> stages t = stage_word a h n False \<and> fits op a h n)
      | ls_Done \<Rightarrow> ht_ops t = [] \<and> ht_completion_state t \<noteq> cs_None \<and> (\<exists>a h n d. stages t = stage_word a h n d))"

lemma stage_word_told:
  "stage_word False False 0 False @ told cb kConnected = stage_word (cb \<noteq> None) False 0 False"
  "stage_word a False 0 False @ told cb kHeader = stage_word a (cb \<noteq> None) 0 False"
  "stage_word a h n False @ told cb kChunk = stage_word a h (if cb = None then n else Suc n) False"
  "stage_word a h n False @ told cb kDone = stage_word a h n (cb \<noteq> None)"
  by (simp_all add: stage_word_def told_def replicate_append_same)

text \<open>A task that may fail at a stage: running, with no operation left, and a log that has not passed the stage.\<close>

definition open_until :: "HttpClientStage \<Rightarrow> ('b, 's, 'c) client_task \<Rightarrow> bool" where
  "open_until stage t \<longleftrightarrow>
     (ht_create_error t \<noteq> None \<longrightarrow> ht_create_error_stage t = es_Create) \<and> ht_ops t = [] \<and>
     ht_lifecycle_state t = ls_Running \<and> ht_completion_state t = cs_None \<and>
     (\<exists>a h n. stages t = stage_word a h n False \<and> (stage = kConnected \<longrightarrow> \<not> a) \<and> (stage = kConnected \<or> stage = kHeader \<longrightarrow> \<not> h \<and> n = 0))"

lemma open_until_told:
  assumes "open_until stage t" "stage \<noteq> kDone"
  shows "\<exists>a h n. stages t @ told cb stage = stage_word a h n False"
proof -
  obtain a h n where w: "stages t = stage_word a h n False" "stage = kConnected \<longrightarrow> \<not> a"
    "stage = kConnected \<or> stage = kHeader \<longrightarrow> \<not> h \<and> n = 0"
    using assms(1) unfolding open_until_def by blast
  show ?thesis
  proof (cases stage)
    case kConnected
    then show ?thesis using w stage_word_told(1) [of cb] by auto
  next
    case kHeader
    then show ?thesis using w stage_word_told(2) [of a cb] by auto
  next
    case kChunk
    then show ?thesis using w stage_word_told(3) [of a h n cb] by auto
  qed (use assms in simp)
qed

lemma Fail_inv:
  assumes "open_until (ErrorStageToCallbackStage error_stage) t" "error_stage \<noteq> es_None"
  shows "client_inv (Fail error_stage ec t)"
proof -
  have k: "ErrorStageToCallbackStage error_stage \<noteq> kDone" using assms(2) by (cases error_stage) (simp_all add: ErrorStageToCallbackStage_def)
  let ?cb = "GetCallbackCopy (ErrorStageToCallbackStage error_stage) t"
  obtain a h n where "stages t @ told ?cb (ErrorStageToCallbackStage error_stage) = stage_word a h n False"
    using open_until_told [OF assms(1) k] by blast
  then have "(stages t @ told ?cb (ErrorStageToCallbackStage error_stage)) @ told (ht_on_done t) kDone = stage_word a h n (ht_on_done t \<noteq> None)"
    by (simp only: stage_word_told)
  moreover have nd: "ht_lifecycle_state t \<noteq> ls_Done" and "ht_ops t = []" using assms(1) by (auto simp: open_until_def)
  ultimately show ?thesis using assms(1) unfolding Fail_form [OF nd]
    by (auto simp: client_inv_def stages_def stages_entry failure_def open_until_def)
qed

lemma Succeed_inv:
  assumes "open_until kChunk t"
  shows "client_inv (Succeed response t)"
proof -
  obtain a h n where w: "stages t = stage_word a h n False" using assms unfolding open_until_def by blast
  have "stages t @ told (ht_on_done t) kDone = stage_word a h n (ht_on_done t \<noteq> None)" unfolding w by (simp only: stage_word_told)
  moreover have nd: "ht_lifecycle_state t \<noteq> ls_Done" using assms by (auto simp: open_until_def)
  ultimately show ?thesis using assms unfolding Succeed_form [OF nd]
    by (auto simp: client_inv_def stages_def stages_entry open_until_def)
qed

lemma start_op_inv:
  assumes "open_until kDone t" "stages t = stage_word a h n False" "fits op a h n"
  shows "client_inv (start_op op t)"
  using assms unfolding open_until_def client_inv_def start_op_def stages_def by auto

lemma open_until_kDone: "open_until stage t \<Longrightarrow> open_until kDone t"
  by (auto simp: open_until_def)

lemma open_until_frame:
  assumes "open_until stage t" "ht_create_error t' = ht_create_error t" "ht_create_error_stage t' = ht_create_error_stage t"
    "ht_ops t' = ht_ops t" "ht_lifecycle_state t' = ht_lifecycle_state t" "ht_completion_state t' = ht_completion_state t"
    "stages t' = stages t"
  shows "open_until stage t'"
  using assms unfolding open_until_def by simp

lemma open_until_emit:
  assumes "open_until stage t" "stage \<noteq> kDone"
    and "ht_create_error t' = ht_create_error t" "ht_create_error_stage t' = ht_create_error_stage t"
    "ht_ops t' = ht_ops t" "ht_lifecycle_state t' = ht_lifecycle_state t" "ht_completion_state t' = ht_completion_state t"
    "stages t' = stages t @ told cb stage"
  shows "open_until kDone t'"
  using open_until_told [OF assms(1,2), of cb] assms unfolding open_until_def by auto

lemma stages_Emit [simp]:
  "stages (EmitConnected ec t) = stages t @ told (ht_on_connected t) kConnected"
  "stages (EmitHeader header ec t) = stages t @ told (ht_on_header t) kHeader"
  "stages (EmitChunk chunk t) = stages t @ told (ht_on_chunk t) kChunk"
  by (simp_all add: Emit_simps stages_def stages_entry)

lemma Emit_keeps [simp]:
  "ht_create_error (EmitConnected ec t) = ht_create_error t" "ht_create_error (EmitHeader header ec t) = ht_create_error t"
  "ht_create_error (EmitChunk chunk t) = ht_create_error t" "ht_create_error_stage (EmitConnected ec t) = ht_create_error_stage t"
  "ht_create_error_stage (EmitHeader header ec t) = ht_create_error_stage t" "ht_create_error_stage (EmitChunk chunk t) = ht_create_error_stage t"
  "ht_ops (EmitConnected ec t) = ht_ops t" "ht_ops (EmitHeader header ec t) = ht_ops t" "ht_ops (EmitChunk chunk t) = ht_ops t"
  "ht_lifecycle_state (EmitConnected ec t) = ht_lifecycle_state t" "ht_lifecycle_state (EmitHeader header ec t) = ht_lifecycle_state t"
  "ht_lifecycle_state (EmitChunk chunk t) = ht_lifecycle_state t" "ht_completion_state (EmitConnected ec t) = ht_completion_state t"
  "ht_completion_state (EmitHeader header ec t) = ht_completion_state t" "ht_completion_state (EmitChunk chunk t) = ht_completion_state t"
  "ht_parser (EmitConnected ec t) = ht_parser t" "ht_parser (EmitHeader header ec t) = ht_parser t" "ht_parser (EmitChunk chunk t) = ht_parser t"
  "ht_on_done (EmitConnected ec t) = ht_on_done t" "ht_on_done (EmitHeader header ec t) = ht_on_done t" "ht_on_done (EmitChunk chunk t) = ht_on_done t"
  "ht_on_chunk (EmitConnected ec t) = ht_on_chunk t" "ht_on_chunk (EmitHeader header ec t) = ht_on_chunk t" "ht_on_chunk (EmitChunk chunk t) = ht_on_chunk t"
  by (simp_all add: Emit_simps)

lemma stages_update [simp]:
  "stages (t\<lparr>ht_stream := s\<rparr>) = stages t" "stages (t\<lparr>ht_parser := p\<rparr>) = stages t" "stages (t\<lparr>ht_jar := j\<rparr>) = stages t"
  "stages (t\<lparr>ht_last_emitted_body_size := n\<rparr>) = stages t" "stages (t\<lparr>ht_ops := ops\<rparr>) = stages t"
  "stages (t\<lparr>ht_lifecycle_state := l\<rparr>) = stages t" "stages (t\<lparr>ht_builder := b\<rparr>) = stages t"
  by (simp_all add: stages_def)

lemma connected_inv:
  assumes "open_until kConnected t"
  shows "client_inv (DoWriteRequest (EmitConnected None t))"
proof -
  have "stages t = stage_word False False 0 False" using assms by (auto simp: open_until_def)
  then have w: "stages (EmitConnected None t) = stage_word (ht_on_connected t \<noteq> None) False 0 False"
    by (simp only: stages_Emit stage_word_told)
  have "open_until kDone (EmitConnected None t)" by (rule open_until_emit [OF assms]) simp_all
  from start_op_inv [OF this w] show ?thesis unfolding DoWriteRequest_def by simp
qed

lemma OnAcquireComplete_inv:
  assumes "open_until kConnected t"
  shows "client_inv (OnAcquireComplete r t)"
proof -
  have f: "client_inv (Fail es_Connect ec t)" for ec
    by (rule Fail_inv) (use assms in \<open>simp_all add: ErrorStageToCallbackStage_def\<close>)
  have "open_until kConnected (t\<lparr>ht_stream := s\<rparr>)" for s by (rule open_until_frame [OF assms]) simp_all
  then show ?thesis unfolding OnAcquireComplete_def using f by (auto intro!: connected_inv split: sum.split)
qed

lemma OnWriteRequest_inv:
  assumes "open_until kHeader t"
  shows "client_inv (OnWriteRequest ec t)"
proof (cases ec)
  case None
  obtain a where w: "stages t = stage_word a False 0 False" using assms by (auto simp: open_until_def)
  let ?t = "t\<lparr>ht_parser := Some \<lparr>rp_message = new_message, rp_is_done = False, rp_body_limit = co_max_response_body_bytes (ht_options t)\<rparr>\<rparr>"
  have "open_until kDone ?t" by (rule open_until_frame [OF open_until_kDone [OF assms]]) simp_all
  then have "client_inv (start_op (OpHeader (IsSsl ?t) (co_read_header_timeout (ht_options ?t))) ?t)"
    by (rule start_op_inv [where a = a and h = False and n = 0]) (use w in simp_all)
  then show ?thesis by (simp only: OnWriteRequest_def None option.case Let_def)
next
  case (Some e)
  have "client_inv (Fail es_WriteRequest e t)" by (rule Fail_inv) (use assms in \<open>simp_all add: ErrorStageToCallbackStage_def\<close>)
  then show ?thesis by (simp add: OnWriteRequest_def Some)
qed

lemma OnReadHeader_inv:
  assumes "open_until kHeader t"
  shows "client_inv (OnReadHeader get_time clocks ec t)"
proof (cases ec)
  case None
  let ?header = "copy_header (parser_message t)"
  define t1 where "t1 = (case ht_assembler t of
      Some a \<Rightarrow> t\<lparr>ht_jar := assembler_OnResponseHeader get_time clocks a ?header (ht_host t) (ht_target t) (ht_jar t)\<rparr> | None \<Rightarrow> t)"
  have o1: "open_until kHeader t1" by (rule open_until_frame [OF assms]) (simp_all add: t1_def split: option.split)
  then obtain a where w: "stages t1 = stage_word a False 0 False" by (auto simp: open_until_def)
  let ?t2 = "EmitHeader ?header None t1"
  have o2: "open_until kDone ?t2" by (rule open_until_emit [OF o1]) simp_all
  have w2: "stages ?t2 = stage_word a (ht_on_header t1 \<noteq> None) 0 False" unfolding stages_Emit w stage_word_told ..
  have "client_inv (DoReadBodySome (?t2\<lparr>ht_last_emitted_body_size := k\<rparr>))" for k
    unfolding DoReadBodySome_def by (rule start_op_inv [OF open_until_frame [OF o2]]) (use w2 in simp_all)
  moreover have "client_inv (DoReadBodyAll ?t2)" unfolding DoReadBodyAll_def by (rule start_op_inv [OF o2 w2]) simp
  ultimately show ?thesis unfolding OnReadHeader_def None option.case Let_def t1_def [symmetric] by simp
next
  case (Some e)
  have "client_inv (Fail es_ReadHeader e t)" by (rule Fail_inv) (use assms in \<open>simp_all add: ErrorStageToCallbackStage_def\<close>)
  then show ?thesis by (simp add: OnReadHeader_def Some)
qed

lemma body_failure_inv: "open_until kChunk t \<Longrightarrow> client_inv (Fail es_ReadBody ec t)"
  by (rule Fail_inv) (simp_all add: ErrorStageToCallbackStage_def)

lemma OnReadBodyAll_inv: "open_until kChunk t \<Longrightarrow> client_inv (OnReadBodyAll ec t)"
  unfolding OnReadBodyAll_def by (auto intro: body_failure_inv Succeed_inv)

lemma OnReadBodySome_inv:
  assumes "open_until kChunk t"
  shows "client_inv (OnReadBodySome ec t)"
proof -
  let ?t1 = "if length (rs_body (parser_message t)) > ht_last_emitted_body_size t
    then (EmitChunk (drop (ht_last_emitted_body_size t) (rs_body (parser_message t))) t)\<lparr>ht_last_emitted_body_size := length (rs_body (parser_message t))\<rparr>
    else t"
  have "open_until kDone (EmitChunk c t)" for c by (rule open_until_emit [OF assms]) simp_all
  then have "open_until kDone ((EmitChunk c t)\<lparr>ht_last_emitted_body_size := k\<rparr>)" for c k by (rule open_until_frame) simp_all
  then have o: "open_until kDone ?t1" using open_until_kDone [OF assms] by simp
  then have "open_until kChunk ?t1" by (simp add: open_until_def)
  then have "client_inv (Succeed (parser_message ?t1) ?t1)" by (rule Succeed_inv)
  moreover obtain a h n where "stages ?t1 = stage_word a h n False" using o unfolding open_until_def by blast
  then have "client_inv (DoReadBodySome ?t1)" unfolding DoReadBodySome_def by (intro start_op_inv [OF o]) simp_all
  ultimately show ?thesis unfolding OnReadBodySome_def Let_def using body_failure_inv [OF assms, of "the ec"]
    by (simp only: if_True if_False split: if_split) simp
qed

lemma DoStart_inv:
  assumes "client_inv t"
  shows "client_inv (DoStart prepare srt now clock an t)"
proof (cases "ht_lifecycle_state t = ls_Idle")
  case True
  let ?t = "t\<lparr>ht_lifecycle_state := ls_Running\<rparr>"
  have w: "stages ?t = stage_word False False 0 False" using assms True by (simp add: client_inv_def stages_def stage_word_def)
  have o: "open_until kConnected ?t" using assms True w by (auto simp: client_inv_def open_until_def)
  have "client_inv (Fail es_Create ec ?t)" for ec
    by (rule Fail_inv) (use o in \<open>simp_all add: ErrorStageToCallbackStage_def\<close>)
  moreover have "client_inv (DoAcquire prepare srt now clock an a ?t)" for a
    unfolding DoAcquire_def Let_def
    by (auto intro!: start_op_inv [where a = False and h = False and n = 0] open_until_frame [OF open_until_kDone [OF o]]
        split: prod.split) (use w in \<open>simp_all add: stages_def\<close>)
  moreover note connected_inv [OF o]
  moreover have "ht_create_error t \<noteq> None \<Longrightarrow> ht_create_error_stage t = es_Create" using assms by (simp add: client_inv_def)
  ultimately show ?thesis using True unfolding DoStart_def Let_def by (simp split: option.split)
qed (use assms in \<open>simp add: DoStart_def\<close>)

lemma DoCancel_inv: "client_inv t \<Longrightarrow> client_inv (DoCancel t)"
  unfolding client_inv_def DoCancel_def CloseTransports_def stages_def by (auto split: LifecycleState.splits)

lemma SetOn_inv: "client_inv t \<Longrightarrow> client_inv (SetOn stage cb t)"
  unfolding client_inv_def SetOn_def stages_def by (cases stage) (auto split: LifecycleState.splits)

lemma running_only: "client_inv t \<Longrightarrow> op \<in> set (ht_ops t) \<Longrightarrow> ht_ops t = [op] \<and> ht_lifecycle_state t = ls_Running"
  unfolding client_inv_def by (auto split: LifecycleState.splits)

definition op_stage :: "'s client_op \<Rightarrow> HttpClientStage" where
  "op_stage op = (case op of OpAcquire _ \<Rightarrow> kConnected | OpWrite _ _ \<Rightarrow> kHeader | OpHeader _ _ \<Rightarrow> kHeader | _ \<Rightarrow> kChunk)"

lemma completion_open:
  assumes "client_inv t" "ht_ops t = [op]"
  shows "open_until (op_stage op) (drop_client_op op t)"
proof -
  have "ht_lifecycle_state t = ls_Running" using running_only [OF assms(1)] assms(2) by simp
  then obtain a h n where "ht_completion_state t = cs_None" "stages t = stage_word a h n False" "fits op a h n"
    using assms unfolding client_inv_def by auto
  then show ?thesis using assms \<open>ht_lifecycle_state t = ls_Running\<close>
    by (cases op) (auto simp: open_until_def drop_client_op_def op_stage_def client_inv_def)
qed

lemma parsed_open: "open_until stage t \<Longrightarrow> open_until stage (parsed msg is_done t)"
  by (rule open_until_frame) (simp_all add: parsed_def)

lemma client_handler_inv:
  assumes "client_inv t" "ht_ops t = [op]" "completes e op"
  shows "client_inv (client_handler get_time e op (drop_client_op op t))"
  using completion_open [OF assms(1,2)] assms(3)
  by (cases "(e, op)" rule: completes.cases)
    (auto simp: op_stage_def intro: OnAcquireComplete_inv OnWriteRequest_inv OnReadHeader_inv OnReadBodyAll_inv OnReadBodySome_inv
      intro!: parsed_open)

text \<open>What an event does: start, cancel and registration always, and the others when they complete something.\<close>

lemma client_step_cases:
  assumes "client_step prepare srt get_time e t = Some t'"
  obtains (start) now clock an where "e = EvStart now clock an" "t' = DoStart prepare srt now clock an t"
    | (cancel) "e = EvCancel" "t' = DoCancel t"
    | (set_on) stage cb where "e = EvSetOn stage cb" "t' = SetOn stage cb t"
    | (completion) op where "op \<in> set (ht_ops t)" "completes e op" "t' = client_handler get_time e op (drop_client_op op t)"
  using assms by (cases e) (auto split: option.splits simp: find_Some_iff, (metis nth_mem)+)

lemma client_step_inv:
  assumes "client_step prepare srt get_time e t = Some t'" "client_inv t"
  shows "client_inv t'"
  using assms(1)
proof (cases rule: client_step_cases)
  case (completion op)
  then show ?thesis using running_only [OF assms(2)] client_handler_inv [OF assms(2)] by simp
qed (use assms(2) in \<open>simp_all add: DoStart_inv DoCancel_inv SetOn_inv\<close>)

lemma client_run_induct [consumes 1, case_names init step]:
  assumes "client_run prepare srt get_time es t = Some t'" "P t"
    and "\<And>e u u'. e \<in> set es \<Longrightarrow> client_step prepare srt get_time e u = Some u' \<Longrightarrow> P u \<Longrightarrow> P u'"
  shows "P t'"
  using assms by (induction es arbitrary: t) (auto split: Option.bind_splits, blast)

lemma client_run_inv: "client_run prepare srt get_time es t = Some t' \<Longrightarrow> client_inv t \<Longrightarrow> client_inv t'"
  by (erule client_run_induct) (auto intro: client_step_inv)

section \<open>Fresh tasks\<close>

definition client_fresh :: "('b, 's, 'c) client_task \<Rightarrow> bool" where
  "client_fresh t \<longleftrightarrow>
     ht_lifecycle_state t = ls_Idle \<and> ht_completion_state t = cs_None \<and> ht_cancellation_state t = ca_None \<and> ht_ops t = [] \<and>
     ht_log t = [] \<and> ht_returned t = [] \<and> \<not> ht_done_hook t \<and> (ht_create_error t \<noteq> None \<longrightarrow> ht_create_error_stage t = es_Create)"

lemma Impl_fresh [simp]:
  "client_fresh (new_Impl blank io cbe host port target verb options use_ssl ssl_ctx)"
  "client_fresh t \<Longrightarrow> client_fresh (SetCreateError ec es_Create t)" "client_fresh t \<Longrightarrow> client_fresh (SetAssembler a cookies b t)"
  "client_fresh t \<Longrightarrow> client_fresh (SetRawStream stream t)" "client_fresh t \<Longrightarrow> client_fresh (with_create_error create_ec t)"
  "client_fresh t \<Longrightarrow> client_fresh (SetOn stage cb t)"
  by (auto simp: client_fresh_def new_Impl_def SetCreateError_def SetAssembler_def SetRawStream_def with_create_error_def SetOn_def
      split: option.split HttpClientStage.split)

lemma factories_fresh [simp]:
  "client_fresh (CreateAssembledTask blank io cbe scheme host port target verb options ssl_ctx ec)"
  "client_fresh (CreateSessionTask cookies blank io cbe scheme host port target verb options ssl_ctx ec)"
  "client_fresh (client_CreateFromUrl_default parse_uri ssl_state blank io cbe url verb options)"
  "client_fresh (client_CreateFromUrl parse_uri ssl_ctx blank io cbe url verb options)"
  "client_fresh (CreateHttpRaw blank io cbe stream host target verb options)"
  "client_fresh (CreateHttpsRaw blank io cbe stream host target verb options)"
  "client_fresh (session_CreateFromUrl_default parse_uri ssl_state cookies blank io cbe url verb options)"
  "client_fresh (session_CreateFromUrl parse_uri ssl_ctx cookies blank io cbe url verb options)"
  by (simp_all add: CreateAssembledTask_def CreateSessionTask_def client_CreateFromUrl_default_def client_CreateFromUrl_def
      CreateHttpRaw_def CreateHttpsRaw_def session_CreateFromUrl_default_def session_CreateFromUrl_def Let_def split: option.split)

lemma fresh_inv: "client_fresh t \<Longrightarrow> client_inv t"
  by (simp add: client_fresh_def client_inv_def)

section \<open>The done callback\<close>

text \<open>The callback \<open>c\<close> for the end is registered, and once the task is done it was the last to be told, truthfully.\<close>

definition done_told :: "'c \<Rightarrow> ('b, 's, 'c) client_task \<Rightarrow> bool" where
  "done_told c t \<longleftrightarrow> ht_on_done t = Some c \<and>
     (ht_lifecycle_state t = ls_Done \<longrightarrow>
       (\<exists>pre r. ht_log t = pre @ [(ht_callback_executor t, c, r)] \<and> hr_stage r = kDone \<and>
         hr_response r = (if ht_completion_state t = cs_Success then Some (parser_message t) else None) \<and>
         (hr_ec r = None \<longleftrightarrow> ht_completion_state t = cs_Success) \<and> (hr_cancelled r \<longleftrightarrow> ht_completion_state t = cs_Cancelled)))"

lemma return_stream_more [simp]:
  "ht_callback_executor (return_stream b t) = ht_callback_executor t" "parser_message (return_stream b t) = parser_message t"
  by (simp_all add: return_stream_def parser_message_def)

lemma parser_message_update [simp]:
  "parser_message (t\<lparr>ht_error_stage := es, ht_error_code := ec, ht_completion_state := cs, ht_log := l, ht_lifecycle_state := ls\<rparr>) = parser_message t"
  "parser_message (t\<lparr>ht_completion_state := cs, ht_log := l, ht_lifecycle_state := ls\<rparr>) = parser_message t"
  "parser_message (EmitChunk c t) = parser_message t" "parser_message (t\<lparr>ht_last_emitted_body_size := n\<rparr>) = parser_message t"
  by (simp_all add: parser_message_def)

lemma Fail_told: "ht_lifecycle_state t \<noteq> ls_Done \<Longrightarrow> ht_on_done t = Some c \<Longrightarrow> done_told c (Fail error_stage ec t)"
  unfolding done_told_def by (simp add: Fail_form failure_def new_HttpClientResult_def entry_def)

lemma Succeed_told:
  "ht_lifecycle_state t \<noteq> ls_Done \<Longrightarrow> ht_on_done t = Some c \<Longrightarrow> m = parser_message t \<Longrightarrow> done_told c (Succeed m t)"
  unfolding done_told_def by (simp add: Succeed_form new_HttpClientResult_def entry_def)

lemma not_done_told: "ht_lifecycle_state t \<noteq> ls_Done \<Longrightarrow> ht_on_done t = Some c \<Longrightarrow> done_told c t"
  by (simp add: done_told_def)

lemma start_op_told: "ht_lifecycle_state t \<noteq> ls_Done \<Longrightarrow> ht_on_done t = Some c \<Longrightarrow> done_told c (start_op op t)"
  by (simp add: done_told_def start_op_def)

lemma start_op_keeps [simp]:
  "ht_lifecycle_state (start_op op t) = ht_lifecycle_state t" "ht_on_done (start_op op t) = ht_on_done t" "ht_log (start_op op t) = ht_log t"
  by (simp_all add: start_op_def)

lemma DoAcquire_keeps [simp]:
  "ht_lifecycle_state (DoAcquire prepare srt now clock an a t) = ht_lifecycle_state t"
  "ht_on_done (DoAcquire prepare srt now clock an a t) = ht_on_done t"
  by (simp_all add: DoAcquire_def Let_def split: prod.split)

lemma handlers_tell:
  assumes "ht_lifecycle_state t \<noteq> ls_Done" "ht_on_done t = Some c"
  shows "done_told c (OnAcquireComplete r t)" "done_told c (OnWriteRequest ec t)" "done_told c (OnReadHeader get_time clocks ec t)"
    "done_told c (OnReadBodyAll ec t)" "done_told c (OnReadBodySome ec t)" "done_told c (DoStart prepare srt now clock an t)"
  using assms
  by (simp_all add: OnAcquireComplete_def OnWriteRequest_def OnReadHeader_def OnReadBodyAll_def OnReadBodySome_def DoStart_def
      DoWriteRequest_def DoReadBodyAll_def DoReadBodySome_def Let_def Fail_told Succeed_told start_op_told not_done_told
      split: option.split sum.split)

lemma client_step_told:
  assumes "client_step prepare srt get_time e t = Some t'" "client_inv t \<and> done_told c t" "\<forall>cb. e \<noteq> EvSetOn kDone cb"
  shows "client_inv t' \<and> done_told c t'"
proof (rule conjI)
  show "client_inv t'" using client_step_inv [OF assms(1)] assms(2) by blast
  have d: "ht_on_done t = Some c" using assms(2) by (simp add: done_told_def)
  show "done_told c t'" using assms(1)
  proof (cases rule: client_step_cases)
    case (start now clock an)
    then show ?thesis using assms(2) d handlers_tell(6) [of t c] by (cases "ht_lifecycle_state t = ls_Done") (simp_all add: DoStart_def)
  next
    case cancel
    then show ?thesis using assms(2) d by (auto simp: DoCancel_def CloseTransports_def done_told_def)
  next
    case (set_on stage cb)
    then show ?thesis using assms(2,3) by (cases stage) (auto simp: SetOn_def done_told_def parser_message_def)
  next
    case (completion op)
    let ?t = "drop_client_op op t"
    have "ht_lifecycle_state t = ls_Running" using assms(2) running_only completion(1) by blast
    then have r: "ht_lifecycle_state ?t \<noteq> ls_Done" "ht_on_done ?t = Some c" using d by (simp_all add: drop_client_op_def)
    then have "ht_lifecycle_state (parsed m b ?t) \<noteq> ls_Done" "ht_on_done (parsed m b ?t) = Some c" for m b by (simp_all add: parsed_def)
    then show ?thesis using completion(2) r unfolding completion(3)
      by (cases "(e, op)" rule: completes.cases) (auto intro: handlers_tell)
  qed
qed

lemma client_run_told:
  assumes "client_run prepare srt get_time es t = Some t'" "client_fresh t" "ht_on_done t = Some c" "\<forall>cb. EvSetOn kDone cb \<notin> set es"
  shows "client_inv t' \<and> done_told c t'"
  using assms(1)
proof (induction rule: client_run_induct)
  case init
  show ?case using assms(2,3) fresh_inv [OF assms(2)] by (simp add: done_told_def client_fresh_def)
next
  case (step e u u')
  show ?case using client_step_told [OF step(2,3)] step(1) assms(4) by blast
qed

lemma stage_word_last: "stage_word a h n d = pre @ [kDone] \<Longrightarrow> d"
  by (cases d; cases n; cases h; cases a) (auto simp: stage_word_def replicate_append_same [symmetric])

text \<open>
  (C3) A client task finishes once. However its events come, whatever fails and whenever it is cancelled,
  its callbacks are told of the connection, the header, the chunks and the end in this order, each but the
  chunks at most once; a running task waits for exactly one operation; and when it is done, and only then,
  the callback for the end has been told, last and once, of the state the task ended in.
\<close>

theorem client_task_finishes_once:
  assumes "client_run prepare srt get_time es t = Some t'" "client_fresh t" "ht_on_done t = Some c" "\<forall>cb. EvSetOn kDone cb \<notin> set es"
  shows "(\<exists>a h n. stages t' = stage_word a h n (ht_lifecycle_state t' = ls_Done)) \<and>
    length (ht_ops t') = (if ht_lifecycle_state t' = ls_Running then 1 else 0) \<and>
    (ht_lifecycle_state t' = ls_Done \<longrightarrow>
      (\<exists>r. last (ht_log t') = (ht_callback_executor t', c, r) \<and> (hr_ec r = None \<longleftrightarrow> ht_completion_state t' = cs_Success) \<and>
        (hr_cancelled r \<longleftrightarrow> ht_completion_state t' = cs_Cancelled)))"
proof -
  have i: "client_inv t'" and d: "done_told c t'" using client_run_told [OF assms] by simp_all
  show ?thesis
  proof (cases "ht_lifecycle_state t'")
    case ls_Idle
    then have "stages t' = stage_word False False 0 False" using i by (simp add: client_inv_def stages_def stage_word_def)
    then show ?thesis using i ls_Idle by (auto simp: client_inv_def)
  next
    case ls_Running
    then show ?thesis using i by (auto simp: client_inv_def)
  next
    case ls_Done
    then obtain pre r where l: "ht_log t' = pre @ [(ht_callback_executor t', c, r)]" "hr_stage r = kDone"
      "hr_ec r = None \<longleftrightarrow> ht_completion_state t' = cs_Success" "hr_cancelled r \<longleftrightarrow> ht_completion_state t' = cs_Cancelled"
      using d unfolding done_told_def by (elim conjE impE exE) simp_all
    obtain a h n b where w: "stages t' = stage_word a h n b" "ht_ops t' = []" using i ls_Done unfolding client_inv_def by auto
    have b: b by (rule stage_word_last [of a h n b "map (\<lambda>(ex, c, r). hr_stage r) pre"]) (use w(1) l(1,2) in \<open>simp add: stages_def\<close>)
    show ?thesis using ls_Done w l b by auto
  qed
qed

section \<open>Chunks\<close>

text \<open>What the chunk callbacks have been given, and that it is what has been read of the body.\<close>

definition told_body :: "('b, 's, 'c) client_task \<Rightarrow> string" where
  "told_body t = concat (map (\<lambda>(ex, c, r). hr_chunk r) (ht_log t))"

definition body_so_far :: "('b, 's, 'c) client_task \<Rightarrow> bool" where
  "body_so_far t \<longleftrightarrow> ht_parser t \<noteq> None \<and> told_body t = rs_body (parser_message t) \<and>
     ht_last_emitted_body_size t = length (rs_body (parser_message t))"

definition chunk_inv :: "('b, 's, 'c) client_task \<Rightarrow> bool" where
  "chunk_inv t \<longleftrightarrow> ht_on_chunk t \<noteq> None \<and>
     (case ht_lifecycle_state t of
        ls_Idle \<Rightarrow> told_body t = []
      | ls_Running \<Rightarrow>
          (\<forall>op \<in> set (ht_ops t). case op of
             OpBodySome _ _ \<Rightarrow> body_so_far t
           | OpBodyAll _ _ \<Rightarrow> False
           | OpHeader _ _ \<Rightarrow> told_body t = [] \<and> ht_parser t \<noteq> None
           | _ \<Rightarrow> told_body t = [])
      | ls_Done \<Rightarrow> ht_completion_state t = cs_Success \<longrightarrow> told_body t = rs_body (parser_message t))"

lemma told_entry: "concat (map (\<lambda>(ex, c, r). hr_chunk r) (entry ex cb result)) = (if cb = None then [] else hr_chunk result)"
  by (simp add: entry_def split: option.split)

lemma told_body_Emit [simp]:
  "told_body (EmitConnected ec t) = told_body t" "told_body (EmitHeader header ec t) = told_body t"
  "told_body (EmitChunk chunk t) = (if ht_on_chunk t = None then told_body t else told_body t @ chunk)"
  by (simp_all add: Emit_simps told_body_def told_entry new_HttpClientResult_def)

lemma told_body_update [simp]:
  "told_body (t\<lparr>ht_stream := s\<rparr>) = told_body t" "told_body (t\<lparr>ht_parser := p\<rparr>) = told_body t" "told_body (t\<lparr>ht_jar := j\<rparr>) = told_body t"
  "told_body (t\<lparr>ht_last_emitted_body_size := n\<rparr>) = told_body t" "told_body (t\<lparr>ht_ops := ops\<rparr>) = told_body t"
  "told_body (t\<lparr>ht_lifecycle_state := l\<rparr>) = told_body t" "told_body (t\<lparr>ht_builder := b\<rparr>) = told_body t"
  "told_body (start_op op t) = told_body t"
  by (simp_all add: told_body_def)

lemma Fail_chunk: "ht_lifecycle_state t \<noteq> ls_Done \<Longrightarrow> ht_on_chunk t \<noteq> None \<Longrightarrow> chunk_inv (Fail error_stage ec t)"
  by (simp add: chunk_inv_def Fail_form)

lemma Succeed_chunk:
  assumes "ht_lifecycle_state t \<noteq> ls_Done" "ht_on_chunk t \<noteq> None" "told_body t = rs_body (parser_message t)"
  shows "chunk_inv (Succeed response t)"
  using assms(2,3) unfolding chunk_inv_def Succeed_form [OF assms(1)] by (simp add: told_body_def told_entry new_HttpClientResult_def)

lemma start_chunk:
  assumes "ht_lifecycle_state t = ls_Running" "ht_on_chunk t \<noteq> None" "ht_ops t = []"
    and "case op of OpBodySome _ _ \<Rightarrow> body_so_far t | OpBodyAll _ _ \<Rightarrow> False
      | OpHeader _ _ \<Rightarrow> told_body t = [] \<and> ht_parser t \<noteq> None | _ \<Rightarrow> told_body t = []"
  shows "chunk_inv (start_op op t)"
  using assms by (simp add: chunk_inv_def start_op_def body_so_far_def parser_message_def split: client_op.splits)

lemma DoAcquire_chunk:
  "told_body t = [] \<Longrightarrow> ht_lifecycle_state t = ls_Running \<Longrightarrow> ht_on_chunk t \<noteq> None \<Longrightarrow> ht_ops t = [] \<Longrightarrow>
    chunk_inv (DoAcquire prepare srt now clock an a t)"
  by (simp add: DoAcquire_def Let_def chunk_inv_def start_op_def told_body_def split: prod.split)

lemma early_handlers_chunk:
  assumes "ht_lifecycle_state t = ls_Running" "ht_on_chunk t \<noteq> None" "ht_ops t = []" "told_body t = []"
  shows "chunk_inv (OnAcquireComplete r t)" "chunk_inv (OnWriteRequest ec t)"
    "ht_parser t \<noteq> None \<Longrightarrow> rs_body (parser_message t) = [] \<or> ec \<noteq> None \<Longrightarrow> chunk_inv (OnReadHeader get_time clocks ec t)"
proof -
  show "chunk_inv (OnAcquireComplete r t)"
    using assms by (auto simp: OnAcquireComplete_def DoWriteRequest_def intro!: Fail_chunk start_chunk split: sum.split)
  show "chunk_inv (OnWriteRequest ec t)"
    using assms by (auto simp: OnWriteRequest_def Let_def intro!: Fail_chunk start_chunk split: option.split)
next
  assume p: "ht_parser t \<noteq> None" "rs_body (parser_message t) = [] \<or> ec \<noteq> None"
  show "chunk_inv (OnReadHeader get_time clocks ec t)"
  proof (cases ec)
    case None
    define t1 where "t1 = (case ht_assembler t of
        Some a \<Rightarrow> t\<lparr>ht_jar := assembler_OnResponseHeader get_time clocks a (copy_header (parser_message t)) (ht_host t) (ht_target t) (ht_jar t)\<rparr>
      | None \<Rightarrow> t)"
    have t1: "ht_lifecycle_state t1 = ls_Running" "ht_on_chunk t1 \<noteq> None" "ht_ops t1 = []" "told_body t1 = []" "ht_parser t1 = ht_parser t"
      using assms by (simp_all add: t1_def split: option.split)
    let ?t2 = "(EmitHeader (copy_header (parser_message t)) None t1)\<lparr>ht_last_emitted_body_size :=
        length (rs_body (parser_message (EmitHeader (copy_header (parser_message t)) None t1)))\<rparr>"
    have "rs_body (parser_message t1) = []" using p None t1(5) by (simp add: parser_message_def)
    then have "chunk_inv (DoReadBodySome ?t2)" unfolding DoReadBodySome_def
      using t1 p by (intro start_chunk) (simp_all add: body_so_far_def parser_message_def)
    then show ?thesis using t1(2) unfolding OnReadHeader_def None option.case Let_def t1_def [symmetric] HasChunkCallback_def by simp
  qed (use assms in \<open>auto simp: OnReadHeader_def intro: Fail_chunk\<close>)
qed

lemma OnReadBodySome_chunk:
  assumes "ht_lifecycle_state t = ls_Running" "ht_on_chunk t \<noteq> None" "ht_ops t = []" "ht_parser t \<noteq> None"
    and "rs_body (parser_message t) = told_body t @ drop (ht_last_emitted_body_size t) (rs_body (parser_message t))"
    and "ht_last_emitted_body_size t = length (told_body t)"
  shows "chunk_inv (OnReadBodySome ec t)"
proof -
  let ?body = "rs_body (parser_message t)"
  let ?t1 = "if length ?body > ht_last_emitted_body_size t
    then (EmitChunk (drop (ht_last_emitted_body_size t) ?body) t)\<lparr>ht_last_emitted_body_size := length ?body\<rparr> else t"
  have t1: "ht_lifecycle_state ?t1 = ls_Running" "ht_on_chunk ?t1 \<noteq> None" "ht_ops ?t1 = []" using assms(1-3) by simp_all
  have m: "parser_message ?t1 = parser_message t" "ht_parser ?t1 = ht_parser t" by simp_all
  have "told_body ?t1 = ?body"
  proof (cases "length ?body > ht_last_emitted_body_size t")
    case True
    then show ?thesis using assms(2) assms(5) [symmetric] by auto
  next
    case False
    then show ?thesis using assms(5) by simp
  qed
  moreover have "ht_last_emitted_body_size ?t1 = length ?body" using arg_cong [OF assms(5), of length] assms(6) by simp
  ultimately have "body_so_far ?t1" unfolding body_so_far_def m using assms(4) by simp
  then have "chunk_inv (DoReadBodySome ?t1)" unfolding DoReadBodySome_def using t1 by (intro start_chunk) simp_all
  moreover have "chunk_inv (Succeed (parser_message ?t1) ?t1)"
    using t1 \<open>body_so_far ?t1\<close> by (intro Succeed_chunk) (simp_all add: body_so_far_def del: if_split)
  moreover have "chunk_inv (Fail es_ReadBody (the ec) t)" using assms by (intro Fail_chunk) simp_all
  ultimately show ?thesis unfolding OnReadBodySome_def Let_def by (simp only: if_True if_False split: if_split) simp
qed

text \<open>The library stops reading at the end of the header, so the body is empty then.\<close>

definition header_event_ok :: "'c client_event \<Rightarrow> bool" where
  "header_event_ok e \<longleftrightarrow> (case e of EvHeader clocks ec msg is_done \<Rightarrow> rs_body msg = [] | EvSetOn stage cb \<Rightarrow> stage \<noteq> kChunk | _ \<Rightarrow> True)"

lemma parsed_keeps [simp]:
  "ht_lifecycle_state (parsed m b t) = ht_lifecycle_state t" "ht_on_chunk (parsed m b t) = ht_on_chunk t" "ht_ops (parsed m b t) = ht_ops t"
  "told_body (parsed m b t) = told_body t" "(ht_parser (parsed m b t) = None) = (ht_parser t = None)"
  "ht_last_emitted_body_size (parsed m b t) = ht_last_emitted_body_size t"
  "ht_parser t \<noteq> None \<Longrightarrow> parser_message (parsed m b t) = m"
  by (auto simp: parsed_def told_body_def parser_message_def)

lemma completion_chunk:
  assumes "client_inv t" "chunk_inv t" "ht_ops t = [op]" "completes e op" "header_event_ok e"
  shows "chunk_inv (client_handler get_time e op (drop_client_op op t))"
proof -
  let ?t = "drop_client_op op t"
  have l: "ht_lifecycle_state t = ls_Running" using running_only [OF assms(1)] assms(3) by simp
  have t: "ht_lifecycle_state ?t = ls_Running" "ht_on_chunk ?t \<noteq> None" "ht_ops ?t = []" "told_body ?t = told_body t"
    "ht_parser ?t = ht_parser t" "parser_message ?t = parser_message t" "ht_last_emitted_body_size ?t = ht_last_emitted_body_size t"
    using l assms(2,3) by (simp_all add: drop_client_op_def chunk_inv_def parser_message_def)
  note early = early_handlers_chunk [OF t(1,2,3)]
  have s: "case op of OpBodySome _ _ \<Rightarrow> body_so_far t | OpBodyAll _ _ \<Rightarrow> False
      | OpHeader _ _ \<Rightarrow> told_body t = [] \<and> ht_parser t \<noteq> None | _ \<Rightarrow> told_body t = []"
    using assms(2,3) l by (simp add: chunk_inv_def)
  show ?thesis
  proof (cases "(e, op)" rule: completes.cases)
    case (3 clocks ec msg is_done tls ms)
    let ?p = "if ec = None then parsed msg is_done ?t else ?t"
    have "ht_lifecycle_state ?p = ls_Running" "ht_on_chunk ?p \<noteq> None" "ht_ops ?p = []" "told_body ?p = []" "ht_parser ?p \<noteq> None"
      using 3 s t by (simp_all del: not_None_eq)
    moreover have "rs_body (parser_message ?p) = [] \<or> ec \<noteq> None" using 3 s t assms(5) by (simp add: header_event_ok_def)
    ultimately have "chunk_inv (OnReadHeader get_time clocks ec ?p)" by (rule early_handlers_chunk)
    then show ?thesis using 3 by (simp only: prod.inject client_handler.simps)
  next
    case (5 ec piece is_done tls ms)
    have b: "body_so_far t" using s 5 by simp
    let ?m = "(parser_message ?t)\<lparr>rs_body := rs_body (parser_message ?t) @ piece\<rparr>"
    have "chunk_inv (OnReadBodySome ec (parsed ?m is_done ?t))"
      by (rule OnReadBodySome_chunk) (use b t in \<open>auto simp: body_so_far_def\<close>)
    then show ?thesis using 5 by simp
  qed (use assms(4) s t early(1,2) in auto)
qed

lemma chunk_frame:
  assumes "chunk_inv t" "ht_on_chunk t' \<noteq> None" "ht_lifecycle_state t' = ht_lifecycle_state t" "ht_ops t' = ht_ops t"
    "ht_log t' = ht_log t" "ht_parser t' = ht_parser t" "ht_last_emitted_body_size t' = ht_last_emitted_body_size t"
    "ht_completion_state t' = ht_completion_state t"
  shows "chunk_inv t'"
proof -
  have m: "told_body t' = told_body t" "parser_message t' = parser_message t" using assms(5,6) by (simp_all add: told_body_def parser_message_def)
  then have b: "body_so_far t' = body_so_far t" using assms(6,7) by (simp add: body_so_far_def)
  then show ?thesis using assms(1,2) unfolding chunk_inv_def assms(3-8) m b by blast
qed

lemma client_step_chunk:
  assumes "client_step prepare srt get_time e t = Some t'" "client_inv t \<and> chunk_inv t" "header_event_ok e"
  shows "client_inv t' \<and> chunk_inv t'"
proof (rule conjI)
  show "client_inv t'" using client_step_inv [OF assms(1)] assms(2) by blast
  show "chunk_inv t'" using assms(1)
  proof (cases rule: client_step_cases)
    case (start now clock an)
    show ?thesis
    proof (cases "ht_lifecycle_state t = ls_Idle")
      case True
      let ?t = "t\<lparr>ht_lifecycle_state := ls_Running\<rparr>"
      have t: "told_body ?t = []" "ht_lifecycle_state ?t = ls_Running" "ht_on_chunk ?t \<noteq> None" "ht_ops ?t = []"
        using assms(2) True by (auto simp: chunk_inv_def client_inv_def told_body_def)
      then show ?thesis using True DoAcquire_chunk [OF t] unfolding start DoStart_def Let_def
        by (auto simp: DoWriteRequest_def intro!: Fail_chunk start_chunk split: option.split)
    qed (use assms(2) start in \<open>simp add: DoStart_def\<close>)
  next
    case cancel
    have c: "chunk_inv t" using assms(2) by blast
    then have "ht_on_chunk t \<noteq> None" by (simp add: chunk_inv_def)
    then show ?thesis by (intro chunk_frame [OF c]) (simp_all add: cancel DoCancel_def CloseTransports_def)
  next
    case (set_on stage cb)
    have c: "chunk_inv t" using assms(2) by blast
    then have "ht_on_chunk t \<noteq> None" by (simp add: chunk_inv_def)
    moreover have "stage \<noteq> kChunk" using assms(3) set_on by (simp add: header_event_ok_def)
    ultimately show ?thesis by (intro chunk_frame [OF c]) (simp_all add: set_on SetOn_def split: HttpClientStage.split)
  next
    case (completion op)
    then have "ht_ops t = [op]" using running_only [of t op] assms(2) by simp
    then show ?thesis unfolding completion(3) using completion_chunk [of t op e] completion(2) assms(2,3) by simp
  qed
qed

text \<open>
  (C38) A client that asked for chunks gets the body in them: when its task succeeds, the chunks told so
  far, joined, are the body of the response the callback for the end is given.
\<close>

theorem chunks_make_up_the_body:
  assumes "client_run prepare srt get_time es t = Some t'" "client_fresh t" "ht_on_done t = Some c" "ht_on_chunk t \<noteq> None"
    and "\<forall>cb. EvSetOn kDone cb \<notin> set es" "\<forall>e \<in> set es. header_event_ok e" "ht_completion_state t' = cs_Success"
  shows "\<exists>pre r response. ht_log t' = pre @ [(ht_callback_executor t', c, r)] \<and> hr_response r = Some response \<and>
    concat (map (\<lambda>(ex, c, r). hr_chunk r) (ht_log t')) = rs_body response"
proof -
  have "client_inv t' \<and> chunk_inv t'" using assms(1)
  proof (induction rule: client_run_induct)
    case init
    show ?case using assms(2,4) fresh_inv [OF assms(2)] by (simp add: chunk_inv_def client_fresh_def told_body_def)
  next
    case (step e u u')
    show ?case using client_step_chunk [OF step(2,3)] step(1) assms(6) by blast
  qed
  moreover have i: "client_inv t'" and d: "done_told c t'" using client_run_told [OF assms(1,2,3,5)] by simp_all
  have l: "ht_lifecycle_state t' = ls_Done" using i assms(7) by (auto simp: client_inv_def split: LifecycleState.splits)
  ultimately show ?thesis using d assms(7) by (auto simp: done_told_def chunk_inv_def told_body_def)
qed

section \<open>TLS\<close>

definition tls_transport :: "string \<Rightarrow> string \<Rightarrow> 's \<Rightarrow> bool \<Rightarrow> 's transport \<Rightarrow> bool" where
  "tls_transport host port ctx verify s \<longleftrightarrow> tr_peer s = (host, port) \<and>
     tr_tls s = Some \<lparr>tls_ctx = Some ctx, tls_sni = host, tls_verified = (if verify then Some host else None)\<rparr>"

fun op_under_tls :: "string \<Rightarrow> string \<Rightarrow> 's \<Rightarrow> bool \<Rightarrow> 's transport option \<Rightarrow> 's client_op \<Rightarrow> bool" where
  "op_under_tls host port ctx verify stream (OpAcquire r) \<longleftrightarrow>
     (case r of Inl ec \<Rightarrow> True | Inr slot \<Rightarrow> \<forall>s. sl_stream slot = Some s \<longrightarrow> tls_transport host port ctx verify s)"
| "op_under_tls host port ctx verify stream (OpWrite tls ms) \<longleftrightarrow> tls \<and> stream \<noteq> None"
| "op_under_tls host port ctx verify stream (OpHeader tls ms) \<longleftrightarrow> tls \<and> stream \<noteq> None"
| "op_under_tls host port ctx verify stream (OpBodyAll tls ms) \<longleftrightarrow> tls \<and> stream \<noteq> None"
| "op_under_tls host port ctx verify stream (OpBodySome tls ms) \<longleftrightarrow> tls \<and> stream \<noteq> None"

definition tls_inv :: "string \<Rightarrow> string \<Rightarrow> 's \<Rightarrow> HttpClientOptions \<Rightarrow> ('b, 's, 'c) client_task \<Rightarrow> bool" where
  "tls_inv host port ctx options t \<longleftrightarrow>
     ht_use_ssl t \<and> ht_host t = host \<and> ht_port t = port \<and> ht_ssl_ctx t = Some ctx \<and> ht_options t = options \<and> ht_builder t = Direct \<and>
     (ht_assembler t = Some DefaultAssembler \<or> ht_assembler t = Some SessionAssembler) \<and>
     (\<forall>s. ht_stream t = Some s \<longrightarrow> tls_transport host port ctx (co_verify_peer options) s) \<and>
     (\<forall>op \<in> set (ht_ops t). op_under_tls host port ctx (co_verify_peer options) (ht_stream t) op)"

lemma tls_frame:
  assumes "tls_inv host port ctx options t" "ht_use_ssl t' = ht_use_ssl t" "ht_host t' = ht_host t" "ht_port t' = ht_port t"
    "ht_ssl_ctx t' = ht_ssl_ctx t" "ht_options t' = ht_options t" "ht_builder t' = ht_builder t" "ht_assembler t' = ht_assembler t"
    "ht_stream t' = ht_stream t" "ht_ops t' = ht_ops t"
  shows "tls_inv host port ctx options t'"
  using assms unfolding tls_inv_def by simp

lemma Emit_tls [simp]:
  "tls_inv host port ctx options (EmitConnected ec t) = tls_inv host port ctx options t"
  "tls_inv host port ctx options (EmitHeader header ec t) = tls_inv host port ctx options t"
  "tls_inv host port ctx options (EmitChunk chunk t) = tls_inv host port ctx options t"
  by (simp_all add: Emit_simps tls_inv_def)

lemma update_tls [simp]:
  "tls_inv host port ctx options (t\<lparr>ht_parser := p\<rparr>) = tls_inv host port ctx options t"
  "tls_inv host port ctx options (t\<lparr>ht_jar := j\<rparr>) = tls_inv host port ctx options t"
  "tls_inv host port ctx options (t\<lparr>ht_last_emitted_body_size := n\<rparr>) = tls_inv host port ctx options t"
  by (simp_all add: tls_inv_def)

lemma Fail_tls: "tls_inv host port ctx options t \<Longrightarrow> ht_ops t = [] \<Longrightarrow> tls_inv host port ctx options (Fail error_stage ec t)"
  by (cases "ht_lifecycle_state t = ls_Done") (simp_all add: after_done Fail_form return_stream_def tls_inv_def)

lemma Succeed_tls: "tls_inv host port ctx options t \<Longrightarrow> ht_ops t = [] \<Longrightarrow> tls_inv host port ctx options (Succeed response t)"
  by (cases "ht_lifecycle_state t = ls_Done") (simp_all add: after_done Succeed_form return_stream_def tls_inv_def)

lemma start_tls:
  assumes "tls_inv host port ctx options t" "ht_stream t \<noteq> None"
  shows "tls_inv host port ctx options (DoWriteRequest t)" "tls_inv host port ctx options (start_op (OpHeader (IsSsl t) ms) t)"
    "tls_inv host port ctx options (DoReadBodyAll t)" "tls_inv host port ctx options (DoReadBodySome t)"
proof -
  have "IsSsl t" using assms by (auto simp: IsSsl_def tls_inv_def tls_transport_def)
  then show "tls_inv host port ctx options (DoWriteRequest t)" "tls_inv host port ctx options (start_op (OpHeader (IsSsl t) ms) t)"
    "tls_inv host port ctx options (DoReadBodyAll t)" "tls_inv host port ctx options (DoReadBodySome t)"
    using assms by (simp_all add: DoWriteRequest_def DoReadBodyAll_def DoReadBodySome_def start_op_def tls_inv_def)
qed

lemma stream_Emit [simp]:
  "ht_stream (EmitConnected ec t) = ht_stream t" "ht_stream (EmitHeader header ec t) = ht_stream t" "ht_stream (EmitChunk chunk t) = ht_stream t"
  by (simp_all add: Emit_simps)

lemma direct_Acquire_tls:
  assumes "direct_Acquire an (assembled_key options ''https'' host port (Some ctx)) = Inr slot" "sl_stream slot = Some s"
  shows "tls_transport host port ctx (co_verify_peer options) s"
  using assms by (auto simp: direct_Acquire_def DoDirectSslConnect_def assembled_key_def tls_transport_def tls_for_def connected_def Let_def
      split: if_splits option.splits)

lemma DoAcquire_tls:
  assumes "tls_inv host port ctx options t" "ht_ops t = []" "ht_assembler t = Some a"
  shows "tls_inv host port ctx options (DoAcquire prepare srt now clock an a t)"
proof -
  have b: "ht_use_ssl t" "ht_host t = host" "ht_port t = port" "ht_ssl_ctx t = Some ctx" "ht_options t = options" "ht_builder t = Direct"
    "a = DefaultAssembler \<or> a = SessionAssembler" using assms by (auto simp: tls_inv_def)
  obtain rq k j where as: "Assemble prepare srt now a (ht_jar t) (ht_request t) options ''https'' host port (Some ctx) = ((rq, k), j)"
    by (metis prod.collapse)
  have k: "k = assembled_key options ''https'' host port (Some ctx)" by (rule basic_Assemble(1) [OF as b(7)])
  then have kf: "ck_scheme k = ''https''" "ck_host k = host" "ck_port k = port" "ck_ssl_ctx k = Some ctx" by (simp_all add: assembled_key_def)
  show ?thesis using assms(1,2) b as kf direct_Acquire_tls [of an options host port ctx] unfolding k [symmetric]
    by (auto simp: DoAcquire_def start_op_def tls_inv_def split: sum.split)
qed

lemma OnReadHeader_tls:
  assumes "tls_inv host port ctx options t" "ht_ops t = []" "ht_stream t \<noteq> None"
  shows "tls_inv host port ctx options (OnReadHeader get_time clocks ec t)"
  using assms unfolding OnReadHeader_def Let_def
  by (auto simp del: not_None_eq intro!: Fail_tls start_tls split: option.split)

lemma OnReadBodySome_tls:
  assumes "tls_inv host port ctx options t" "ht_ops t = []" "ht_stream t \<noteq> None"
  shows "tls_inv host port ctx options (OnReadBodySome ec t)"
  using assms unfolding OnReadBodySome_def Let_def
  by (auto simp del: not_None_eq intro!: Fail_tls Succeed_tls start_tls)

lemma completion_tls:
  assumes "tls_inv host port ctx options t" "ht_ops t = [op]" "completes e op"
  shows "tls_inv host port ctx options (client_handler get_time e op (drop_client_op op t))"
proof -
  let ?t = "drop_client_op op t"
  have t: "tls_inv host port ctx options ?t" "ht_ops ?t = []" "ht_stream ?t = ht_stream t"
    using assms(1,2) by (auto simp: drop_client_op_def tls_inv_def)
  then have p: "tls_inv host port ctx options (parsed m b ?t)" "ht_ops (parsed m b ?t) = []" "ht_stream (parsed m b ?t) = ht_stream t" for m b
    by (auto simp: parsed_def)
  have o: "op_under_tls host port ctx (co_verify_peer options) (ht_stream t) op" using assms(1,2) by (simp add: tls_inv_def)
  show ?thesis
  proof (cases "(e, op)" rule: completes.cases)
    case (1 r)
    have "tls_inv host port ctx options (?t\<lparr>ht_stream := sl_stream slot\<rparr>)" if "r = Inr slot" for slot
      using t(1,2) o that 1 by (simp add: tls_inv_def)
    then have "tls_inv host port ctx options (OnAcquireComplete r ?t)" using t
      by (auto simp: OnAcquireComplete_def intro!: Fail_tls start_tls split: sum.split)
    then show ?thesis using 1 by simp
  next
    case (2 ec tls ms)
    then have "tls_inv host port ctx options (OnWriteRequest ec ?t)" using t o start_tls(2) [of host port ctx options "?t\<lparr>ht_parser := q\<rparr>" for q]
      by (auto simp: OnWriteRequest_def Let_def intro!: Fail_tls split: option.split)
    then show ?thesis using 2 by simp
  next
    case (3 clocks ec msg is_done tls ms)
    then show ?thesis using t p o by (auto intro!: OnReadHeader_tls)
  next
    case (4 ec body tls ms)
    then show ?thesis using p by (auto simp: OnReadBodyAll_def intro!: Fail_tls Succeed_tls)
  next
    case (5 ec piece is_done tls ms)
    then show ?thesis using p o by (auto intro!: OnReadBodySome_tls)
  qed (use assms(3) in auto)
qed

lemma client_step_tls:
  assumes "client_step prepare srt get_time e t = Some t'" "client_inv t \<and> tls_inv host port ctx options t"
  shows "client_inv t' \<and> tls_inv host port ctx options t'"
proof (rule conjI)
  show "client_inv t'" using client_step_inv [OF assms(1)] assms(2) by blast
  have i: "tls_inv host port ctx options t" using assms(2) by blast
  show "tls_inv host port ctx options t'" using assms(1)
  proof (cases rule: client_step_cases)
    case (start now clock an)
    show ?thesis
    proof (cases "ht_lifecycle_state t = ls_Idle")
      case True
      let ?t = "t\<lparr>ht_lifecycle_state := ls_Running\<rparr>"
      have t: "tls_inv host port ctx options ?t" "ht_ops ?t = []" using i assms(2) True by (simp_all add: tls_inv_def client_inv_def)
      then obtain a where "ht_assembler t = Some a" by (auto simp: tls_inv_def)
      then show ?thesis using True t DoAcquire_tls [OF t, of a] unfolding start DoStart_def Let_def
        by (auto intro!: Fail_tls split: option.split)
    qed (use i start in \<open>simp add: DoStart_def\<close>)
  next
    case cancel
    show ?thesis by (rule tls_frame [OF i]) (simp_all add: cancel DoCancel_def CloseTransports_def)
  next
    case (set_on stage cb)
    show ?thesis by (rule tls_frame [OF i]) (simp_all add: set_on SetOn_def split: HttpClientStage.split)
  next
    case (completion op)
    then have "ht_ops t = [op]" using running_only [of t op] assms(2) by simp
    then show ?thesis unfolding completion(3) by (rule completion_tls [OF i _ completion(2)])
  qed
qed

text \<open>
  (C5) An https request never leaves in the clear. Whatever happens to a task made for https with an SSL
  context, alone or in a session, its request is only written, and its response only read, on a connection
  to its host and port that is under TLS with this context, this name and the verification asked for.
\<close>

theorem https_exchange_is_under_tls:
  assumes "t = CreateAssembledTask blank io cbe ''https'' host port target verb options (Some ctx) create_ec \<or>
      t = CreateSessionTask cookies blank io cbe ''https'' host port target verb options (Some ctx) create_ec"
    and "client_run prepare srt get_time es t = Some t'"
    and "OpWrite tls ms \<in> set (ht_ops t') \<or> OpHeader tls ms \<in> set (ht_ops t') \<or> OpBodyAll tls ms \<in> set (ht_ops t') \<or>
      OpBodySome tls ms \<in> set (ht_ops t')"
  shows "tls \<and> (\<exists>s. ht_stream t' = Some s \<and> tr_peer s = (host, port) \<and>
    tr_tls s = Some \<lparr>tls_ctx = Some ctx, tls_sni = host, tls_verified = (if co_verify_peer options then Some host else None)\<rparr>)"
proof -
  have "client_inv t' \<and> tls_inv host port ctx options t'" using assms(2)
  proof (induction rule: client_run_induct)
    case init
    have "client_fresh t" using assms(1) by auto
    moreover have "tls_inv host port ctx options t" using assms(1)
      by (cases create_ec) (auto simp: CreateAssembledTask_def CreateSessionTask_def tls_inv_def with_create_error_def SetCreateError_def
          SetAssembler_def new_Impl_def Let_def)
    ultimately show ?case using fresh_inv by blast
  next
    case (step e u u')
    show ?case by (rule client_step_tls [OF step(2,3)])
  qed
  then have i: "\<forall>op \<in> set (ht_ops t'). op_under_tls host port ctx (co_verify_peer options) (ht_stream t') op"
    "\<forall>s. ht_stream t' = Some s \<longrightarrow> tls_transport host port ctx (co_verify_peer options) s" by (simp_all add: tls_inv_def)
  from assms(3) have "tls \<and> ht_stream t' \<noteq> None" using i(1) by (elim disjE) (fastforce dest: bspec)+
  then show ?thesis using i(2) by (auto simp: tls_transport_def)
qed

section \<open>Cancelling, cookies and cut responses\<close>

text \<open>
  A cancellation before the connection is there has no effect: there is no socket to close yet, and no
  later stage looks at the request to cancel. The task goes on to write its request and to read the
  response, and tells its callback of a success that was not cancelled.
\<close>

theorem early_cancel_is_ignored:
  assumes "ht_lifecycle_state t = ls_Running" "ht_ops t = [OpAcquire (Inr slot)]" "ht_stream t = None" "sl_stream slot = Some s"
    and "ht_on_chunk t = None" "ht_on_done t = Some c"
  shows "\<exists>t' pre r. client_run prepare srt get_time
      [EvCancel, EvAcquired, EvWritten None, EvHeader clocks None msg is_done, EvBodyAll None body] t = Some t' \<and>
    ht_cancellation_state t' = ca_Requested \<and> ht_completion_state t' = cs_Success \<and>
    ht_log t' = pre @ [(ht_callback_executor t, c, r)] \<and> hr_cancelled r = False \<and> hr_ec r = None"
proof -
  have "IsSsl (t\<lparr>ht_stream := Some s\<rparr>) = (tr_tls s \<noteq> None)" by (simp add: IsSsl_def)
  show ?thesis using assms
    by (simp add: DoCancel_def CloseTransports_def drop_client_op_def OnAcquireComplete_def DoWriteRequest_def start_op_def Emit_simps
        OnWriteRequest_def OnReadHeader_def Let_def HasChunkCallback_def DoReadBodyAll_def OnReadBodyAll_def ends_body_def parsed_def
        Succeed_form entry_def new_HttpClientResult_def split: option.split)
qed

lemma field_values_set:
  "field_values name (set_field f fs) = (if iequals (fst f) name then [snd f] else field_values name fs)"
  by (auto simp: field_values_def set_field_def iequals_def filter_empty_conv intro!: arg_cong [of _ _ "map snd"] filter_cong)

lemma field_values_copy:
  "field_values name (fold set_field fs acc) =
    (case field_values name fs of [] \<Rightarrow> field_values name acc | v # vs \<Rightarrow> [last (v # vs)])"
proof (induction fs rule: rev_induct)
  case (snoc f fs)
  have a: "field_values name (fs @ [f]) = field_values name fs @ (if iequals (fst f) name then [snd f] else [])"
    by (simp add: field_values_def)
  show ?case
  proof (cases "iequals (fst f) name")
    case True
    then show ?thesis unfolding a by (cases "field_values name fs") (simp_all add: field_values_set)
  next
    case False
    then show ?thesis using snoc unfolding a by (simp add: field_values_set)
  qed
qed (simp add: field_values_def)


lemma OnReadBodySome_goes_on:
  assumes "ends_body ec" "\<not> parser_is_done t"
  shows "\<exists>tls ms. ht_ops (OnReadBodySome ec t) = ht_ops t @ [OpBodySome tls ms]"
    "ht_lifecycle_state (OnReadBodySome ec t) = ht_lifecycle_state t" "ht_parser (OnReadBodySome ec t) = ht_parser t"
  using assms by (auto simp: OnReadBodySome_def DoReadBodySome_def start_op_def parser_is_done_def Let_def)

text \<open>
  (C40) A response cut short is not an error. Read as a whole, it is a success with the part of the body
  that came; read in chunks, the task asks for more for ever, for each read that finds the connection at its
  end is followed by another.
\<close>

theorem cut_response_is_no_error:
  assumes "ht_lifecycle_state t = ls_Running" "ht_parser t \<noteq> None" "ht_on_done t = Some c"
  shows "(ht_ops t = [OpBodyAll tls ms] \<longrightarrow>
      (\<exists>t' pre r. client_step prepare srt get_time (EvBodyAll (Some ec_partial_message) body) t = Some t' \<and>
        ht_completion_state t' = cs_Success \<and> ht_log t' = pre @ [(ht_callback_executor t, c, r)] \<and> hr_ec r = None \<and>
        map_option rs_body (hr_response r) = Some body)) \<and>
    (ht_ops t = [OpBodySome tls ms] \<longrightarrow>
      (\<exists>t' tls' ms'. client_run prepare srt get_time (replicate n (EvBodySome (Some ec_partial_message) [] False)) t = Some t' \<and>
        ht_lifecycle_state t' = ls_Running \<and> ht_ops t' = [OpBodySome tls' ms']))"
proof (intro conjI impI)
  assume "ht_ops t = [OpBodyAll tls ms]"
  then show "\<exists>t' pre r. client_step prepare srt get_time (EvBodyAll (Some ec_partial_message) body) t = Some t' \<and>
      ht_completion_state t' = cs_Success \<and> ht_log t' = pre @ [(ht_callback_executor t, c, r)] \<and> hr_ec r = None \<and>
      map_option rs_body (hr_response r) = Some body"
    using assms by (auto simp: drop_client_op_def OnReadBodyAll_def ends_body_def parsed_def Succeed_form entry_def new_HttpClientResult_def
        parser_message_def)
next
  assume "ht_ops t = [OpBodySome tls ms]"
  then show "\<exists>t' tls' ms'. client_run prepare srt get_time (replicate n (EvBodySome (Some ec_partial_message) [] False)) t = Some t' \<and>
      ht_lifecycle_state t' = ls_Running \<and> ht_ops t' = [OpBodySome tls' ms']"
    using assms(1,2)
  proof (induction n arbitrary: t tls ms)
    case (Suc n)
    let ?e = "EvBodySome (Some ec_partial_message) [] False"
    let ?u = "parsed ((parser_message (drop_client_op (OpBodySome tls ms) t))\<lparr>rs_body := rs_body (parser_message (drop_client_op (OpBodySome tls ms) t)) @ []\<rparr>)
        False (drop_client_op (OpBodySome tls ms) t)"
    let ?t1 = "OnReadBodySome (Some ec_partial_message) ?u"
    have s: "client_step prepare srt get_time ?e t = Some ?t1" using Suc(2) by simp
    have u: "ends_body (Some ec_partial_message)" "\<not> parser_is_done ?u" "ht_ops ?u = []" "ht_lifecycle_state ?u = ls_Running" "ht_parser ?u \<noteq> None"
      using Suc(2,3,4) by (auto simp: ends_body_def parser_is_done_def parsed_def drop_client_op_def)
    obtain tls1 ms1 where "ht_ops ?t1 = [OpBodySome tls1 ms1]" using OnReadBodySome_goes_on(1) [OF u(1,2)] u(3) by auto
    moreover have "ht_lifecycle_state ?t1 = ls_Running" "ht_parser ?t1 \<noteq> None" using OnReadBodySome_goes_on(2,3) [OF u(1,2)] u(4,5) by simp_all
    ultimately have "\<exists>t' tls' ms'. client_run prepare srt get_time (replicate n ?e) ?t1 = Some t' \<and>
        ht_lifecycle_state t' = ls_Running \<and> ht_ops t' = [OpBodySome tls' ms']" by (rule Suc(1))
    then show ?case unfolding replicate_Suc client_run.simps s by (simp del: client_step.simps client_handler.simps)
  qed simp
qed

lemma never_returned:
  assumes "client_run prepare srt get_time es t = Some t'" "client_fresh t"
  shows "ht_returned t' = [] \<and> \<not> ht_done_hook t'"
  using assms(1)
proof (induction rule: client_run_induct)
  case init
  show ?case using assms(2) by (simp add: client_fresh_def)
next
  case (step e u u')
  have k: "ht_returned (Fail s ec v) = [] \<and> \<not> ht_done_hook (Fail s ec v)" "ht_returned (Succeed r v) = [] \<and> \<not> ht_done_hook (Succeed r v)"
    if "ht_returned v = [] \<and> \<not> ht_done_hook v" for s ec r and v :: "('a, 'b, 'c) client_task"
    using that by (cases "ht_lifecycle_state v = ls_Done"; simp add: after_done Fail_form Succeed_form)+
  from step(2) show ?case
  proof (cases rule: client_step_cases)
    case (completion op)
    then show ?thesis using step(3)
      by (cases "(e, op)" rule: completes.cases)
        (auto simp: drop_client_op_def parsed_def OnAcquireComplete_def OnWriteRequest_def OnReadHeader_def OnReadBodyAll_def OnReadBodySome_def
          DoWriteRequest_def DoReadBodyAll_def DoReadBodySome_def start_op_def Let_def Emit_simps k split: option.split sum.split)
  qed (use step(3) in \<open>auto simp: DoStart_def DoAcquire_def DoWriteRequest_def start_op_def Let_def Emit_simps k DoCancel_def CloseTransports_def
      SetOn_def split: option.split prod.split HttpClientStage.split\<close>)
qed

section \<open>Examples\<close>

definition demo_events :: "nat client_event list" where
  "demo_events =
     [EvStart 0 (\<lambda>_. 0) (good_answers 1), EvAcquired, EvWritten None,
      EvHeader (\<lambda>_. (0, 0, 0)) None (new_message\<lparr>rs_fields := [(''Set-Cookie'', ''a=1''), (''set-cookie'', ''b=2'')]\<rparr>) False,
      EvBodySome None ''ab'' False, EvBodySome None ''c'' True]"

definition demo_client :: "(unit, nat, nat) client_task" where
  "demo_client = SetOn kChunk (Some 2) (SetOn kDone (Some 1)
     (CreateSessionTask [] (\<lambda>_. ()) 0 0 ''https'' ''h'' ''443'' ''/'' () default_options (Some 5) None))"

definition demo_client_run :: "nat client_event list \<Rightarrow> (unit, nat, nat) client_task option" where
  "demo_client_run es = client_run id id (\<lambda>_. None) es demo_client"

lemma demo_client_facts:
  "client_fresh demo_client" "ht_on_done demo_client = Some 1" "ht_on_chunk demo_client \<noteq> None"
  "\<forall>cb. EvSetOn kDone cb \<notin> set (take n demo_events)" "\<forall>e \<in> set demo_events. header_event_ok e"
  by (simp_all add: demo_client_def SetOn_def CreateSessionTask_def new_Impl_def with_create_error_def SetAssembler_def client_fresh_def
      demo_events_def header_event_ok_def new_message_def take_Cons' Let_def)

theorem client_task_finishes_once_witness:
  "\<exists>t'. demo_client_run demo_events = Some t' \<and> ht_lifecycle_state t' = ls_Done \<and>
    (\<exists>a h n. stages t' = stage_word a h n True)"
proof -
  have r: "client_run id id (\<lambda>_. None) demo_events demo_client = Some (the (demo_client_run demo_events))" by code_simp
  have d: "ht_lifecycle_state (the (demo_client_run demo_events)) = ls_Done" by code_simp
  from client_task_finishes_once [OF r demo_client_facts(1,2)] show ?thesis
    using d r demo_client_facts(4) [of 6] by (auto simp: demo_client_run_def demo_events_def)
qed

theorem chunks_make_up_the_body_witness:
  "\<exists>response :: HttpClientResponse. rs_body response = concat (map (\<lambda>(ex, c, r). hr_chunk r) (ht_log (the (demo_client_run demo_events)))) \<and>
    ht_completion_state (the (demo_client_run demo_events)) = cs_Success"
proof -
  have r: "client_run id id (\<lambda>_. None) demo_events demo_client = Some (the (demo_client_run demo_events))" by code_simp
  have d: "ht_completion_state (the (demo_client_run demo_events)) = cs_Success" by code_simp
  have "\<forall>cb. EvSetOn kDone cb \<notin> set demo_events" using demo_client_facts(4) [of 6] by (simp add: demo_events_def)
  from chunks_make_up_the_body [OF r demo_client_facts(1,2,3) this demo_client_facts(5) d] obtain response :: HttpClientResponse where
    "concat (map (\<lambda>(ex, c, r). hr_chunk r) (ht_log (the (demo_client_run demo_events)))) = rs_body response" by blast
  then show ?thesis using d by (intro exI [of _ response]) simp
qed

theorem https_exchange_is_under_tls_witness:
  "\<exists>s. ht_stream (the (demo_client_run (take 2 demo_events))) = Some s \<and> tr_peer s = (''h'', ''443'') \<and>
     ht_ops (the (demo_client_run (take 2 demo_events))) = [OpWrite True 2000]"
proof -
  let ?t = "CreateSessionTask [] (\<lambda>_. ()) 0 0 ''https'' ''h'' ''443'' ''/'' () default_options (Some 5) None :: (unit, nat, nat) client_task"
  let ?es = "EvSetOn kDone (Some 1) # EvSetOn kChunk (Some 2) # take 2 demo_events" and ?t' = "the (demo_client_run (take 2 demo_events))"
  have r: "client_run id id (\<lambda>_. None) ?es ?t = Some ?t'" by code_simp
  have o: "ht_ops ?t' = [OpWrite True 2000]" by code_simp
  from https_exchange_is_under_tls [OF disjI2 [OF refl] r, of True 2000] show ?thesis using o by auto
qed

definition demo_waiting :: "(unit, nat, nat) client_task" where
  "demo_waiting = the (demo_client_run (take 1 demo_events))\<lparr>ht_on_chunk := None\<rparr>"

theorem early_cancel_is_ignored_witness:
  "\<exists>t' r pre. client_run id id (\<lambda>_. None)
      [EvCancel, EvAcquired, EvWritten None, EvHeader (\<lambda>_. (0, 0, 0)) None new_message False, EvBodyAll None ''abc''] demo_waiting = Some t' \<and>
    ht_cancellation_state t' = ca_Requested \<and> ht_log t' = pre @ [(0, 1, r)] \<and> hr_cancelled r = False"
proof -
  let ?slot = "case hd (ht_ops demo_waiting) of OpAcquire r \<Rightarrow> projr r | _ \<Rightarrow> new_slot"
  have w: "ht_lifecycle_state demo_waiting = ls_Running" "ht_ops demo_waiting = [OpAcquire (Inr ?slot)]" "sl_stream ?slot = Some (the (sl_stream ?slot))"
    "ht_stream demo_waiting = None" "ht_on_chunk demo_waiting = None" "ht_on_done demo_waiting = Some 1" "ht_callback_executor demo_waiting = 0"
    by code_simp+
  from early_cancel_is_ignored [OF w(1,2,4,3,5,6), of id id "\<lambda>_. None" "\<lambda>_. (0, 0, 0)" new_message False "''abc''"] show ?thesis
    unfolding w(7) by (elim exE conjE) (intro exI conjI, assumption+)
qed


theorem cut_response_is_no_error_witness:
  "\<exists>t'. client_run id id (\<lambda>_. None) (replicate 1000 (EvBodySome (Some ec_partial_message) [] False)) (the (demo_client_run (take 5 demo_events))) =
      Some t' \<and> ht_lifecycle_state t' = ls_Running"
proof -
  let ?t = "the (demo_client_run (take 5 demo_events))"
  have w: "ht_lifecycle_state ?t = ls_Running" "ht_parser ?t \<noteq> None" "ht_on_done ?t = Some 1" "ht_ops ?t = [OpBodySome True 5000]"
    by code_simp+
  from cut_response_is_no_error [OF w(1,2,3), of True 5000 id id "\<lambda>_. None" _ 1000] w(4) show ?thesis by blast
qed

end
