(* ===== verification/Server_Runtime.thy ===== *)
theory Server_Runtime
  imports Route_Mount Session_Map
begin

text \<open>
  The server (\<^verbatim>\<open>core/http_server_construct.cc\<close>, \<^verbatim>\<open>http_server_accept.cc\<close>, \<^verbatim>\<open>http_server_runtime.cc\<close>,
  \<^verbatim>\<open>http_server_runtime_config.cc\<close>, \<^verbatim>\<open>http_server_route_config.cc\<close>, \<^verbatim>\<open>blue_print.cc\<close>): its configuration,
  what starting and stopping do to its listeners, contexts and threads, the choice of an executor, the
  limit on connections, and the lock that starting, stopping and posting share.
\<close>

section \<open>State\<close>

text \<open>Runtime options; the knobs of the worker pool are left out, they only go to the pool.\<close>

record HttpServerRuntimeOptions =
  ro_has_max_connection :: bool
  ro_max_connection :: size_t

text \<open>\<open>'e\<close> are endpoints and \<open>'s\<close> SSL contexts.\<close>

record ('e, 's) EndpointListenConfig =
  lc_endpoint :: 'e
  lc_io_threads :: nat
  lc_ssl_ctx :: "'s option"

text \<open>An acceptor: open, sharing its port, listening, and with an accept outstanding.\<close>

record acceptor =
  ac_open :: bool
  ac_reuse_port :: bool
  ac_listening :: bool
  ac_accepting :: bool

definition new_acceptor :: acceptor where
  "new_acceptor = \<lparr>ac_open = False, ac_reuse_port = False, ac_listening = False, ac_accepting = False\<rparr>"

text \<open>
  The runtime of an endpoint. I/O contexts are numbered; a context's executor has its number. A thread is
  the context it runs.
\<close>

record ('e, 's) EndpointRuntime =
  er_endpoint :: 'e
  er_ssl_ctx :: "'s option"
  er_run_threads :: nat
  er_io_contexts :: "nat list"
  er_acceptors :: "acceptor list"
  er_io_threads :: "nat list"

text \<open>Thread handles: the endpoint (\<open>None\<close> for the control thread) and the shard.\<close>

type_synonym thread_handle = "nat option \<times> nat"

record ('h, 'a, 'e, 's) HttpServer =
  sv_route_table :: "('h, 'a) HttpRouteTable"
  sv_sessions :: SessionMap
  sv_endpoint_configs :: "('e, 's) EndpointListenConfig list"
  sv_header_read_expiry :: size_t
  sv_keep_alive_timeout :: size_t
  sv_service_providers :: "nat option list"
  sv_runtime_options :: HttpServerRuntimeOptions
  sv_available_connection_num :: int
  sv_is_running :: bool
  sv_reuse_port_supported :: bool
  sv_endpoint_runtimes :: "('e, 's) EndpointRuntime list"
  sv_endpoint_execs :: "nat list list"
  sv_global_execs :: "nat list"
  sv_round_robin :: size_t
  sv_thread_handles :: "thread_handle list"
  sv_control_thread :: bool
  sv_contexts_made :: nat

definition new_HttpServer :: "'h \<Rightarrow> HttpServerRuntimeOptions \<Rightarrow> ('h, 'a, 'e, 's) HttpServer" where
  "new_HttpServer empty_route_handler runtime_options =
     \<lparr>sv_route_table = new_HttpRouteTable empty_route_handler, sv_sessions = new_SessionMap, sv_endpoint_configs = [],
      sv_header_read_expiry = 3000, sv_keep_alive_timeout = 4000, sv_service_providers = [], sv_runtime_options = runtime_options,
      sv_available_connection_num = (if ro_has_max_connection runtime_options then sint (ro_max_connection runtime_options) else 0),
      sv_is_running = False, sv_reuse_port_supported = False, sv_endpoint_runtimes = [], sv_endpoint_execs = [], sv_global_execs = [],
      sv_round_robin = 0, sv_thread_handles = [], sv_control_thread = False, sv_contexts_made = 0\<rparr>"

section \<open>Configuration\<close>

text \<open>Every setting is refused while the server runs.\<close>

definition when_stopped :: "(('h, 'a, 'e, 's) HttpServer \<Rightarrow> ('h, 'a, 'e, 's) HttpServer) \<Rightarrow> ('h, 'a, 'e, 's) HttpServer \<Rightarrow> ('h, 'a, 'e, 's) HttpServer" where
  "when_stopped f s = (if sv_is_running s then s else f s)"

definition on_table :: "(('h, 'a) HttpRouteTable \<Rightarrow> ('h, 'a) HttpRouteTable) \<Rightarrow> ('h, 'a, 'e, 's) HttpServer \<Rightarrow> ('h, 'a, 'e, 's) HttpServer" where
  "on_table f s = s\<lparr>sv_route_table := f (sv_route_table s)\<rparr>"

definition AddListen :: "'e \<Rightarrow> nat \<Rightarrow> 's option \<Rightarrow> ('h, 'a, 'e, 's) HttpServer \<Rightarrow> ('h, 'a, 'e, 's) HttpServer" where
  "AddListen ep io_threads ssl_ctx =
     when_stopped (\<lambda>s. let io_threads = (if io_threads = 0 then 1 else io_threads)
                        in s\<lparr>sv_endpoint_configs := sv_endpoint_configs s @
                              [\<lparr>lc_endpoint = ep, lc_io_threads = io_threads, lc_ssl_ctx = ssl_ctx\<rparr>]\<rparr>)"

definition srv_SetHeaderReadExpiry :: "size_t \<Rightarrow> ('h, 'a, 'e, 's) HttpServer \<Rightarrow> ('h, 'a, 'e, 's) HttpServer" where
  "srv_SetHeaderReadExpiry ms = when_stopped (\<lambda>s. s\<lparr>sv_header_read_expiry := ms\<rparr>)"

definition srv_SetKeepAliveTimeout :: "size_t \<Rightarrow> ('h, 'a, 'e, 's) HttpServer \<Rightarrow> ('h, 'a, 'e, 's) HttpServer" where
  "srv_SetKeepAliveTimeout timeout = when_stopped (\<lambda>s. s\<lparr>sv_keep_alive_timeout := timeout\<rparr>)"

definition srv_AddRouteEntry :: "HttpRequestMethod \<Rightarrow> string \<Rightarrow> 'h option \<Rightarrow> ('h, 'a, 'e, 's) HttpServer \<Rightarrow> ('h, 'a, 'e, 's) HttpServer" where
  "srv_AddRouteEntry m url h = when_stopped (on_table (\<lambda>t. snd (AddRouteEntry m url h t)))"

text \<open>A computing handler runs its inner handler on the worker pool; \<open>wrap\<close> is its constructor.\<close>

definition WrapComputingHandler :: "('h \<Rightarrow> 'h) \<Rightarrow> 'h option \<Rightarrow> 'h option" where
  "WrapComputingHandler wrap h = map_option wrap h"

definition srv_AddComputingRouteEntry ::
  "('h \<Rightarrow> 'h) \<Rightarrow> HttpRequestMethod \<Rightarrow> string \<Rightarrow> 'h option \<Rightarrow> ('h, 'a, 'e, 's) HttpServer \<Rightarrow> ('h, 'a, 'e, 's) HttpServer" where
  "srv_AddComputingRouteEntry wrap m url h = srv_AddRouteEntry m url (WrapComputingHandler wrap h)"

definition srv_AddExclusiveRouteEntry ::
  "HttpRequestMethod \<Rightarrow> string \<Rightarrow> 'h option \<Rightarrow> ('h, 'a, 'e, 's) HttpServer \<Rightarrow> ('h, 'a, 'e, 's) HttpServer" where
  "srv_AddExclusiveRouteEntry m url h = when_stopped (on_table (\<lambda>t. snd (AddExclusiveRouteEntry m url h t)))"

definition srv_AddAspect :: "HttpRequestMethod \<Rightarrow> string \<Rightarrow> 'a \<Rightarrow> ('h, 'a, 'e, 's) HttpServer \<Rightarrow> ('h, 'a, 'e, 's) HttpServer" where
  "srv_AddAspect m url a = when_stopped (on_table (\<lambda>t. snd (AddAspectAt m url a t)))"

definition srv_AddTerminalAspect :: "HttpRequestMethod \<Rightarrow> string \<Rightarrow> 'a \<Rightarrow> ('h, 'a, 'e, 's) HttpServer \<Rightarrow> ('h, 'a, 'e, 's) HttpServer" where
  "srv_AddTerminalAspect m url a = when_stopped (on_table (\<lambda>t. snd (AddTerminalAspectAt m url a t)))"

definition srv_AddMethodGlobalAspect :: "HttpRequestMethod \<Rightarrow> 'a \<Rightarrow> ('h, 'a, 'e, 's) HttpServer \<Rightarrow> ('h, 'a, 'e, 's) HttpServer" where
  "srv_AddMethodGlobalAspect m a = when_stopped (on_table (\<lambda>t. snd (AddMethodGlobalAspect m a t)))"

definition srv_AddGlobalAspect :: "'a \<Rightarrow> ('h, 'a, 'e, 's) HttpServer \<Rightarrow> ('h, 'a, 'e, 's) HttpServer" where
  "srv_AddGlobalAspect a = when_stopped (on_table (\<lambda>t. snd (AddGlobalAspect a t)))"

definition srv_SetReadExpiry :: "HttpRequestMethod \<Rightarrow> string \<Rightarrow> size_t \<Rightarrow> ('h, 'a, 'e, 's) HttpServer \<Rightarrow> ('h, 'a, 'e, 's) HttpServer" where
  "srv_SetReadExpiry m url n = when_stopped (on_table (\<lambda>t. snd (SetReadExpiryAt m url n t)))"

definition srv_SetWriteExpiry :: "HttpRequestMethod \<Rightarrow> string \<Rightarrow> size_t \<Rightarrow> ('h, 'a, 'e, 's) HttpServer \<Rightarrow> ('h, 'a, 'e, 's) HttpServer" where
  "srv_SetWriteExpiry m url n = when_stopped (on_table (\<lambda>t. snd (SetWriteExpiryAt m url n t)))"

definition srv_SetMaxBodySize :: "HttpRequestMethod \<Rightarrow> string \<Rightarrow> size_t \<Rightarrow> ('h, 'a, 'e, 's) HttpServer \<Rightarrow> ('h, 'a, 'e, 's) HttpServer" where
  "srv_SetMaxBodySize m url n = when_stopped (on_table (\<lambda>t. snd (SetMaxBodySizeAt m url n t)))"

definition srv_SetDefaultReadExpiry :: "size_t \<Rightarrow> ('h, 'a, 'e, 's) HttpServer \<Rightarrow> ('h, 'a, 'e, 's) HttpServer" where
  "srv_SetDefaultReadExpiry n = when_stopped (on_table (SetDefaultReadExpiry n))"

definition srv_SetDefaultWriteExpiry :: "size_t \<Rightarrow> ('h, 'a, 'e, 's) HttpServer \<Rightarrow> ('h, 'a, 'e, 's) HttpServer" where
  "srv_SetDefaultWriteExpiry n = when_stopped (on_table (SetDefaultWriteExpiry n))"

definition srv_SetDefaultMaxBodySize :: "size_t \<Rightarrow> ('h, 'a, 'e, 's) HttpServer \<Rightarrow> ('h, 'a, 'e, 's) HttpServer" where
  "srv_SetDefaultMaxBodySize n = when_stopped (on_table (SetDefaultMaxBodySize n))"

definition srv_SetDefaultHandler :: "'h option \<Rightarrow> ('h, 'a, 'e, 's) HttpServer \<Rightarrow> ('h, 'a, 'e, 's) HttpServer" where
  "srv_SetDefaultHandler h = when_stopped (on_table (SetDefaultHandler h))"

text \<open>
  A blueprint is a route table that is mounted; whether the mount was refused is not told to the caller.
  The table of a moved-from blueprint is gone (\<open>None\<close>).
\<close>

type_synonym ('h, 'a) BluePrint = "('h, 'a) HttpRouteTable option"

definition BluePrint_ctor :: "'h \<Rightarrow> ('h, 'a) BluePrint" where
  "BluePrint_ctor empty_route_handler = Some (new_HttpRouteTable empty_route_handler)"

text \<open>Registering on a blueprint follows its pointer; \<open>None\<close> when that is null.\<close>

definition on_blue_print ::
  "(('h, 'a) HttpRouteTable \<Rightarrow> bool \<times> ('h, 'a) HttpRouteTable) \<Rightarrow> ('h, 'a) BluePrint \<Rightarrow> ('h, 'a) BluePrint option" where
  "on_blue_print f b = map_option (\<lambda>t. Some (snd (f t))) b"

definition bp_AddRouteEntry :: "HttpRequestMethod \<Rightarrow> string \<Rightarrow> 'h option \<Rightarrow> ('h, 'a) BluePrint \<Rightarrow> ('h, 'a) BluePrint option" where
  "bp_AddRouteEntry m url h = on_blue_print (AddRouteEntry m url h)"

definition bp_AddExclusiveRouteEntry :: "HttpRequestMethod \<Rightarrow> string \<Rightarrow> 'h option \<Rightarrow> ('h, 'a) BluePrint \<Rightarrow> ('h, 'a) BluePrint option" where
  "bp_AddExclusiveRouteEntry m url h = on_blue_print (AddExclusiveRouteEntry m url h)"

definition bp_AddAspect :: "HttpRequestMethod \<Rightarrow> string \<Rightarrow> 'a \<Rightarrow> ('h, 'a) BluePrint \<Rightarrow> ('h, 'a) BluePrint option" where
  "bp_AddAspect m url a = on_blue_print (AddAspectAt m url a)"

definition bp_AddTerminalAspect :: "HttpRequestMethod \<Rightarrow> string \<Rightarrow> 'a \<Rightarrow> ('h, 'a) BluePrint \<Rightarrow> ('h, 'a) BluePrint option" where
  "bp_AddTerminalAspect m url a = on_blue_print (AddTerminalAspectAt m url a)"

definition bp_SetReadExpiry :: "HttpRequestMethod \<Rightarrow> string \<Rightarrow> size_t \<Rightarrow> ('h, 'a) BluePrint \<Rightarrow> ('h, 'a) BluePrint option" where
  "bp_SetReadExpiry m url n = on_blue_print (SetReadExpiryAt m url n)"

definition bp_SetWriteExpiry :: "HttpRequestMethod \<Rightarrow> string \<Rightarrow> size_t \<Rightarrow> ('h, 'a) BluePrint \<Rightarrow> ('h, 'a) BluePrint option" where
  "bp_SetWriteExpiry m url n = on_blue_print (SetWriteExpiryAt m url n)"

definition bp_SetMaxBodySize :: "HttpRequestMethod \<Rightarrow> string \<Rightarrow> size_t \<Rightarrow> ('h, 'a) BluePrint \<Rightarrow> ('h, 'a) BluePrint option" where
  "bp_SetMaxBodySize m url n = on_blue_print (SetMaxBodySizeAt m url n)"

definition MountInto :: "string \<Rightarrow> ('h, 'a) BluePrint \<Rightarrow> ('h, 'a) HttpRouteTable \<Rightarrow> bool \<times> ('h, 'a) HttpRouteTable" where
  "MountInto pre blue_print t = (case blue_print of None \<Rightarrow> (False, t) | Some source \<Rightarrow> MountAt pre source t)"

definition MountInto_reuseable ::
  "('h \<Rightarrow> 'h option) \<Rightarrow> ('a \<Rightarrow> 'a option) \<Rightarrow> 'h \<Rightarrow> string \<Rightarrow> ('h, 'a) BluePrint \<Rightarrow> ('h, 'a) HttpRouteTable \<Rightarrow> bool \<times> ('h, 'a) HttpRouteTable" where
  "MountInto_reuseable clone_h clone_a eh pre blue_print t =
     (case blue_print of None \<Rightarrow> (False, t) | Some source \<Rightarrow> MountAtClone clone_h clone_a eh pre source t)"

definition AddBluePrint :: "string \<Rightarrow> ('h, 'a) BluePrint \<Rightarrow> ('h, 'a, 'e, 's) HttpServer \<Rightarrow> ('h, 'a, 'e, 's) HttpServer" where
  "AddBluePrint pre blue_print = when_stopped (on_table (\<lambda>t. snd (MountInto pre blue_print t)))"

definition AddBluePrint_reuseable ::
  "('h \<Rightarrow> 'h option) \<Rightarrow> ('a \<Rightarrow> 'a option) \<Rightarrow> 'h \<Rightarrow> string \<Rightarrow> ('h, 'a) BluePrint \<Rightarrow> ('h, 'a, 'e, 's) HttpServer \<Rightarrow> ('h, 'a, 'e, 's) HttpServer" where
  "AddBluePrint_reuseable clone_h clone_a eh pre blue_print =
     when_stopped (on_table (\<lambda>t. snd (MountInto_reuseable clone_h clone_a eh pre blue_print t)))"

text \<open>Services and sessions can be set at any time.\<close>

definition SetServiceProvider :: "nat \<Rightarrow> nat option \<Rightarrow> ('h, 'a, 'e, 's) HttpServer \<Rightarrow> ('h, 'a, 'e, 's) HttpServer" where
  "SetServiceProvider index provider s =
     (let ps = sv_service_providers s;
          ps = (if index \<ge> length ps then ps @ replicate (index + 1 - length ps) None else ps)
      in s\<lparr>sv_service_providers := ps[index := provider]\<rparr>)"

definition GetServiceProvider :: "nat \<Rightarrow> ('h, 'a, 'e, 's) HttpServer \<Rightarrow> nat option" where
  "GetServiceProvider index s =
     (if index \<ge> length (sv_service_providers s) then None else sv_service_providers s ! index)"

definition srv_SetDefaultSessionTimeout :: "size_t \<Rightarrow> ('h, 'a, 'e, 's) HttpServer \<Rightarrow> ('h, 'a, 'e, 's) HttpServer" where
  "srv_SetDefaultSessionTimeout timeout s = s\<lparr>sv_sessions := SetDefaultSessionTimeout timeout (sv_sessions s)\<rparr>"

definition srv_SetSessionCleaner :: "bool \<Rightarrow> ('h, 'a, 'e, 's) HttpServer \<Rightarrow> timer_request \<times> ('h, 'a, 'e, 's) HttpServer" where
  "srv_SetSessionCleaner use_cleaner s =
     (case SetBackgroundCleaner use_cleaner (sv_sessions s) of (r, m) \<Rightarrow> (r, s\<lparr>sv_sessions := m\<rparr>))"

definition srv_GetSession :: "time_point \<Rightarrow> time_point \<Rightarrow> string \<Rightarrow> ('h, 'a, 'e, 's) HttpServer \<Rightarrow> nat \<times> ('h, 'a, 'e, 's) HttpServer" where
  "srv_GetSession now now' sessionid s =
     (case GetSession now now' sessionid (sv_sessions s) of (found, m) \<Rightarrow> (found, s\<lparr>sv_sessions := m\<rparr>))"

definition srv_SetSessionTimeout ::
  "time_point \<Rightarrow> time_point \<Rightarrow> string \<Rightarrow> size_t \<Rightarrow> ('h, 'a, 'e, 's) HttpServer \<Rightarrow> bool \<times> ('h, 'a, 'e, 's) HttpServer" where
  "srv_SetSessionTimeout now now' sessionid timeout s =
     (True, s\<lparr>sv_sessions := SetSessionTimeout now now' sessionid timeout (sv_sessions s)\<rparr>)"

section \<open>Listeners\<close>

text \<open>What the system answers to the calls that set up an acceptor; true for success.\<close>

record acceptor_answers =
  aa_open :: bool
  aa_reuse_address :: bool
  aa_reuse_port :: bool
  aa_bind :: bool
  aa_listen :: bool

definition CloseAcceptor :: "acceptor \<Rightarrow> acceptor" where
  "CloseAcceptor a = a\<lparr>ac_open := False, ac_listening := False, ac_accepting := False\<rparr>"

text \<open>The result: success, whether the port is shared, and the acceptor.\<close>

definition SetupEndpointAcceptor :: "acceptor_answers \<Rightarrow> bool \<Rightarrow> bool \<Rightarrow> acceptor \<Rightarrow> bool \<times> bool \<times> acceptor" where
  "SetupEndpointAcceptor aa try_reuse_port require_reuse_port acceptor =
     (if \<not> aa_open aa then (False, False, acceptor)
      else
        (let acceptor = acceptor\<lparr>ac_open := True\<rparr>
         in if \<not> aa_reuse_address aa then (False, False, CloseAcceptor acceptor)
            else
              (let reuse_enabled = (try_reuse_port \<and> aa_reuse_port aa)
               in if try_reuse_port \<and> require_reuse_port \<and> \<not> reuse_enabled then (False, False, CloseAcceptor acceptor)
                  else
                    (let acceptor = acceptor\<lparr>ac_reuse_port := reuse_enabled\<rparr>
                     in if \<not> aa_bind aa then (False, False, CloseAcceptor acceptor)
                        else if \<not> aa_listen aa then (False, False, CloseAcceptor acceptor)
                        else (True, reuse_enabled, acceptor\<lparr>ac_listening := True\<rparr>)))))"

text \<open>
  What is being built: the runtime of the endpoint, the number of the next context, and the executors of the
  endpoint and of the server.
\<close>

type_synonym ('e, 's) building = "('e, 's) EndpointRuntime \<times> nat \<times> nat list \<times> nat list"

text \<open>One more context with an acceptor on it; the executors are only added when the acceptor is set up.\<close>

definition add_shard :: "acceptor_answers \<Rightarrow> bool \<Rightarrow> bool \<Rightarrow> ('e, 's) building \<Rightarrow> bool \<times> bool \<times> ('e, 's) building" where
  "add_shard aa try_reuse_port require_reuse_port b =
     (case b of (runtime, next_ioc, endpoint_execs, global_execs) \<Rightarrow>
        (case SetupEndpointAcceptor aa try_reuse_port require_reuse_port new_acceptor of
           (ok, reuse_enabled, acceptor) \<Rightarrow>
             (let runtime = runtime\<lparr>er_io_contexts := er_io_contexts runtime @ [next_ioc], er_acceptors := er_acceptors runtime @ [acceptor]\<rparr>
              in if \<not> ok then (False, False, (runtime, Suc next_ioc, endpoint_execs, global_execs))
                 else (True, reuse_enabled, (runtime, Suc next_ioc, endpoint_execs @ [next_ioc], global_execs @ [next_ioc])))))"

text \<open>The loop over the shards from \<open>shard_index\<close> on; \<open>n\<close> of them are left.\<close>

fun shards_loop :: "(nat \<Rightarrow> acceptor_answers) \<Rightarrow> nat \<Rightarrow> nat \<Rightarrow> ('e, 's) building \<Rightarrow> bool \<times> ('e, 's) building" where
  "shards_loop net 0 shard_index b = (True, b)"
| "shards_loop net (Suc n) shard_index b =
     (case add_shard (net shard_index) True True b of
        (ok, _, b) \<Rightarrow> if \<not> ok then (False, b) else shards_loop net n (Suc shard_index) b)"

definition BuildReusePortShardsLocked ::
  "(nat \<Rightarrow> acceptor_answers) \<Rightarrow> ('e, 's) EndpointListenConfig \<Rightarrow> nat \<Rightarrow> ('e, 's) building \<Rightarrow> bool \<times> ('e, 's) building" where
  "BuildReusePortShardsLocked net cfg start_shard_index b = shards_loop net (lc_io_threads cfg - start_shard_index) start_shard_index b"

definition BuildReusePortEndpointRuntimeLocked ::
  "(nat \<Rightarrow> acceptor_answers) \<Rightarrow> ('e, 's) EndpointListenConfig \<Rightarrow> ('e, 's) building \<Rightarrow> bool \<times> ('e, 's) building" where
  "BuildReusePortEndpointRuntimeLocked net cfg b = BuildReusePortShardsLocked net cfg 0 b"

definition BuildFallbackEndpointRuntimeLocked ::
  "(nat \<Rightarrow> acceptor_answers) \<Rightarrow> ('e, 's) building \<Rightarrow> bool \<times> ('e, 's) building" where
  "BuildFallbackEndpointRuntimeLocked net b = (case add_shard (net 0) False False b of (ok, _, b) \<Rightarrow> (ok, b))"

text \<open>The first endpoint decides whether ports are shared; the second component of the result tells.\<close>

definition BuildFirstEndpointRuntimeLocked ::
  "(nat \<Rightarrow> acceptor_answers) \<Rightarrow> ('e, 's) EndpointListenConfig \<Rightarrow> ('e, 's) building \<Rightarrow> bool \<times> bool \<times> ('e, 's) building" where
  "BuildFirstEndpointRuntimeLocked net cfg b =
     (case add_shard (net 0) True False b of
        (ok, reuse_enabled, b) \<Rightarrow>
          if \<not> ok then (False, False, b)
          else if \<not> reuse_enabled then (True, False, b)
          else (case BuildReusePortShardsLocked net cfg 1 b of (ok, b) \<Rightarrow> (ok, True, b)))"

text \<open>
  The loop over the configured endpoints; \<open>net i j\<close> answers for shard \<open>j\<close> of endpoint \<open>i\<close>. A runtime that could not be
  built is dropped with what it had opened.
\<close>

fun runtimes_loop ::
  "(nat \<Rightarrow> nat \<Rightarrow> acceptor_answers) \<Rightarrow> nat \<Rightarrow> bool \<Rightarrow> ('e, 's) EndpointListenConfig list \<Rightarrow> nat list list \<Rightarrow> nat list \<Rightarrow>
   ('h, 'a, 'e, 's) HttpServer \<Rightarrow> bool \<times> nat list list \<times> nat list \<times> ('h, 'a, 'e, 's) HttpServer" where
  "runtimes_loop net i mode_decided [] endpoint_execs global_execs s = (True, endpoint_execs, global_execs, s)"
| "runtimes_loop net i mode_decided (cfg # cfgs) endpoint_execs global_execs s =
     (let runtime = \<lparr>er_endpoint = lc_endpoint cfg, er_ssl_ctx = lc_ssl_ctx cfg, er_run_threads = lc_io_threads cfg,
                     er_io_contexts = [], er_acceptors = [], er_io_threads = []\<rparr>;
          b = (runtime, sv_contexts_made s, [], global_execs);
          (ok, reuse, b) =
            (if \<not> mode_decided then BuildFirstEndpointRuntimeLocked (net i) cfg b
             else if sv_reuse_port_supported s
             then (case BuildReusePortEndpointRuntimeLocked (net i) cfg b of (ok, b) \<Rightarrow> (ok, True, b))
             else (case BuildFallbackEndpointRuntimeLocked (net i) b of (ok, b) \<Rightarrow> (ok, False, b)));
          (runtime, next_ioc, execs, global_execs) = b;
          s = s\<lparr>sv_reuse_port_supported := reuse, sv_contexts_made := next_ioc\<rparr>
      in if \<not> ok then (False, endpoint_execs @ [execs], global_execs, s)
         else runtimes_loop net (Suc i) True cfgs (endpoint_execs @ [execs]) global_execs
                (s\<lparr>sv_endpoint_runtimes := sv_endpoint_runtimes s @ [runtime]\<rparr>))"

definition BuildEndpointRuntimesLocked ::
  "(nat \<Rightarrow> nat \<Rightarrow> acceptor_answers) \<Rightarrow> ('h, 'a, 'e, 's) HttpServer \<Rightarrow> bool \<times> nat list list \<times> nat list \<times> ('h, 'a, 'e, 's) HttpServer" where
  "BuildEndpointRuntimesLocked net s =
     runtimes_loop net 0 False (sv_endpoint_configs s) [] [] (s\<lparr>sv_endpoint_runtimes := [], sv_reuse_port_supported := False\<rparr>)"

section \<open>Starting and stopping\<close>

definition ClearExecutorSnapshotsLocked :: "('h, 'a, 'e, 's) HttpServer \<Rightarrow> ('h, 'a, 'e, 's) HttpServer" where
  "ClearExecutorSnapshotsLocked s =
     s\<lparr>sv_endpoint_execs := [], sv_global_execs := [], sv_round_robin := 0, sv_thread_handles := []\<rparr>"

definition PublishExecutorSnapshotsLocked :: "nat list list \<Rightarrow> nat list \<Rightarrow> ('h, 'a, 'e, 's) HttpServer \<Rightarrow> ('h, 'a, 'e, 's) HttpServer" where
  "PublishExecutorSnapshotsLocked endpoint_execs global_execs s =
     s\<lparr>sv_endpoint_execs := endpoint_execs, sv_global_execs := global_execs, sv_round_robin := 0\<rparr>"

definition PublishThreadNativeHandlesLocked :: "('h, 'a, 'e, 's) HttpServer \<Rightarrow> ('h, 'a, 'e, 's) HttpServer" where
  "PublishThreadNativeHandlesLocked s =
     s\<lparr>sv_thread_handles :=
         concat (map (\<lambda>(i, r). map (\<lambda>j. (Some i, j)) [0..<length (er_io_threads r)]) (enumerate 0 (sv_endpoint_runtimes s))) @
         (if sv_control_thread s then [(None, 0)] else [])\<rparr>"

definition DoAccept :: "nat \<Rightarrow> nat \<Rightarrow> ('h, 'a, 'e, 's) HttpServer \<Rightarrow> ('h, 'a, 'e, 's) HttpServer" where
  "DoAccept endpoint_index shard_index s =
     (if endpoint_index \<ge> length (sv_endpoint_runtimes s) then s
      else
        (let runtime = sv_endpoint_runtimes s ! endpoint_index
         in if shard_index \<ge> length (er_acceptors runtime) then s
            else s\<lparr>sv_endpoint_runtimes := (sv_endpoint_runtimes s)[endpoint_index :=
                     runtime\<lparr>er_acceptors := (er_acceptors runtime)[shard_index := (er_acceptors runtime ! shard_index)\<lparr>ac_accepting := True\<rparr>]\<rparr>]\<rparr>))"

definition start_threads :: "bool \<Rightarrow> ('e, 's) EndpointRuntime \<Rightarrow> ('e, 's) EndpointRuntime" where
  "start_threads reuse_port runtime =
     (if er_io_contexts runtime = [] then runtime
      else if reuse_port then runtime\<lparr>er_io_threads := er_io_threads runtime @ er_io_contexts runtime\<rparr>
      else runtime\<lparr>er_io_threads := er_io_threads runtime @ replicate (er_run_threads runtime) (hd (er_io_contexts runtime))\<rparr>)"

definition StartEndpointRuntimesLocked :: "('h, 'a, 'e, 's) HttpServer \<Rightarrow> ('h, 'a, 'e, 's) HttpServer" where
  "StartEndpointRuntimesLocked s =
     (let s = fold (\<lambda>i s. fold (\<lambda>j s. DoAccept i j s) [0..<length (er_acceptors (sv_endpoint_runtimes s ! i))] s)
                [0..<length (sv_endpoint_runtimes s)] s
      in s\<lparr>sv_endpoint_runtimes := map (start_threads (sv_reuse_port_supported s)) (sv_endpoint_runtimes s)\<rparr>)"

definition StopEndpointIoLocked :: "('h, 'a, 'e, 's) HttpServer \<Rightarrow> ('h, 'a, 'e, 's) HttpServer" where
  "StopEndpointIoLocked s =
     s\<lparr>sv_endpoint_runtimes := map (\<lambda>r. r\<lparr>er_acceptors := map CloseAcceptor (er_acceptors r)\<rparr>) (sv_endpoint_runtimes s)\<rparr>"

definition JoinEndpointIoThreadsLocked :: "('h, 'a, 'e, 's) HttpServer \<Rightarrow> ('h, 'a, 'e, 's) HttpServer" where
  "JoinEndpointIoThreadsLocked s =
     s\<lparr>sv_endpoint_runtimes := map (\<lambda>r. r\<lparr>er_io_threads := []\<rparr>) (sv_endpoint_runtimes s)\<rparr>"

definition ResetControlIoLocked :: "('h, 'a, 'e, 's) HttpServer \<Rightarrow> ('h, 'a, 'e, 's) HttpServer" where
  "ResetControlIoLocked s = s\<lparr>sv_control_thread := False\<rparr>"

definition RollbackStartLocked :: "('h, 'a, 'e, 's) HttpServer \<Rightarrow> ('h, 'a, 'e, 's) HttpServer" where
  "RollbackStartLocked s =
     (let s = JoinEndpointIoThreadsLocked (StopEndpointIoLocked (ClearExecutorSnapshotsLocked s));
          s = ResetControlIoLocked (s\<lparr>sv_endpoint_runtimes := []\<rparr>)
      in s\<lparr>sv_reuse_port_supported := False, sv_is_running := False\<rparr>)"

definition Start :: "(nat \<Rightarrow> nat \<Rightarrow> acceptor_answers) \<Rightarrow> ('h, 'a, 'e, 's) HttpServer \<Rightarrow> bool \<times> ('h, 'a, 'e, 's) HttpServer" where
  "Start net s =
     (if sv_is_running s then (False, s)
      else
        (let s = (if ro_has_max_connection (sv_runtime_options s)
                  then s\<lparr>sv_available_connection_num := sint (ro_max_connection (sv_runtime_options s))\<rparr> else s);
             s = s\<lparr>sv_is_running := True, sv_control_thread := True\<rparr>
         in case BuildEndpointRuntimesLocked net s of
              (ok, endpoint_execs, global_execs, s) \<Rightarrow>
                if \<not> ok then (False, RollbackStartLocked s)
                else (True, PublishThreadNativeHandlesLocked (StartEndpointRuntimesLocked
                              (PublishExecutorSnapshotsLocked endpoint_execs global_execs s)))))"

definition Stop :: "('h, 'a, 'e, 's) HttpServer \<Rightarrow> ('h, 'a, 'e, 's) HttpServer" where
  "Stop s =
     (if \<not> sv_is_running s then s
      else
        (let s = StopEndpointIoLocked (ClearExecutorSnapshotsLocked (s\<lparr>sv_is_running := False\<rparr>));
             s = ResetControlIoLocked (JoinEndpointIoThreadsLocked s)
         in s\<lparr>sv_endpoint_runtimes := [], sv_reuse_port_supported := False\<rparr>))"

section \<open>Executors\<close>

text \<open>\<open>None\<close> is the executor of the control context.\<close>

definition SelectIoExecutorRoundRobin :: "('h, 'a, 'e, 's) HttpServer \<Rightarrow> nat option \<times> ('h, 'a, 'e, 's) HttpServer" where
  "SelectIoExecutorRoundRobin s =
     (if sv_global_execs s = [] then (None, s)
      else (Some (sv_global_execs s ! (unat (sv_round_robin s) mod length (sv_global_execs s))),
            s\<lparr>sv_round_robin := sv_round_robin s + 1\<rparr>))"

definition srv_GetIoExecutor :: "('h, 'a, 'e, 's) HttpServer \<Rightarrow> nat option option \<times> ('h, 'a, 'e, 's) HttpServer" where
  "srv_GetIoExecutor s =
     (if \<not> sv_is_running s then (None, s) else case SelectIoExecutorRoundRobin s of (e, s) \<Rightarrow> (Some e, s))"

text \<open>The general executor is that of the worker pool; \<open>True\<close> when there is one.\<close>

definition srv_GetExecutor :: "('h, 'a, 'e, 's) HttpServer \<Rightarrow> bool" where
  "srv_GetExecutor s = sv_is_running s"

definition srv_GetEndpointExecutors :: "nat \<Rightarrow> ('h, 'a, 'e, 's) HttpServer \<Rightarrow> nat list" where
  "srv_GetEndpointExecutors endpoint_index s =
     (if \<not> sv_is_running s then []
      else if endpoint_index \<ge> length (sv_endpoint_execs s) then [] else sv_endpoint_execs s ! endpoint_index)"

definition srv_GetGlobalExecutors :: "('h, 'a, 'e, 's) HttpServer \<Rightarrow> nat list" where
  "srv_GetGlobalExecutors s = (if \<not> sv_is_running s then [] else sv_global_execs s)"

definition GetThreadNativeHandles :: "('h, 'a, 'e, 's) HttpServer \<Rightarrow> thread_handle list" where
  "GetThreadNativeHandles s = (if \<not> sv_is_running s then [] else sv_thread_handles s)"

text \<open>Where a posted function goes: nowhere, to the worker pool (which every server has from its construction on) or to a context.\<close>

datatype posted = Dropped | OnPool | OnIo "nat option"

definition PostToIoContext :: "('h, 'a, 'e, 's) HttpServer \<Rightarrow> posted \<times> ('h, 'a, 'e, 's) HttpServer" where
  "PostToIoContext s =
     (if \<not> sv_is_running s then (Dropped, s) else case SelectIoExecutorRoundRobin s of (e, s) \<Rightarrow> (OnIo e, s))"

definition srv_Post :: "('h, 'a, 'e, 's) HttpServer \<Rightarrow> posted" where
  "srv_Post s = (if \<not> sv_is_running s then Dropped else OnPool)"

text \<open>A timer waits on a context; what it does when the wait is over.\<close>

definition SetTimer :: "('h, 'a, 'e, 's) HttpServer \<Rightarrow> nat option option \<times> ('h, 'a, 'e, 's) HttpServer" where
  "SetTimer s =
     (if \<not> sv_is_running s then (None, s) else case SelectIoExecutorRoundRobin s of (e, s) \<Rightarrow> (Some e, s))"

definition timer_expired :: "bool \<Rightarrow> ('h, 'a, 'e, 's) HttpServer \<Rightarrow> posted" where
  "timer_expired ec s = (if ec then Dropped else if \<not> sv_is_running s then Dropped else srv_Post s)"

section \<open>Accepting\<close>

text \<open>What a connection is made from; a context makes it a TLS stream.\<close>

record 's accepted_connection =
  acc_ssl_ctx :: "'s option"
  acc_header_read_expiry :: size_t
  acc_keep_alive_timeout :: size_t
  acc_has_max_connection :: bool
  acc_endpoint_index :: nat

text \<open>The connection's constructor and destructor on the counter of free slots.\<close>

definition StreamServerConnection_ctor :: "bool \<Rightarrow> int \<Rightarrow> int" where
  "StreamServerConnection_ctor has_max_connection available = (if has_max_connection then available - 1 else available)"

definition StreamServerConnection_dtor :: "bool \<Rightarrow> int \<Rightarrow> int" where
  "StreamServerConnection_dtor has_max_connection available = (if has_max_connection then available + 1 else available)"

definition StartAcceptedConnection ::
  "nat \<Rightarrow> ('h, 'a, 'e, 's) HttpServer \<Rightarrow> 's accepted_connection \<times> ('h, 'a, 'e, 's) HttpServer" where
  "StartAcceptedConnection endpoint_index s =
     (let ssl_ctx = (if endpoint_index < length (sv_endpoint_runtimes s) then er_ssl_ctx (sv_endpoint_runtimes s ! endpoint_index) else None);
          has_max = ro_has_max_connection (sv_runtime_options s)
      in (\<lparr>acc_ssl_ctx = ssl_ctx, acc_header_read_expiry = sv_header_read_expiry s, acc_keep_alive_timeout = sv_keep_alive_timeout s,
           acc_has_max_connection = has_max, acc_endpoint_index = endpoint_index\<rparr>,
          s\<lparr>sv_available_connection_num := StreamServerConnection_ctor has_max (sv_available_connection_num s)\<rparr>))"

definition RearmAcceptIfRunning :: "nat \<Rightarrow> nat \<Rightarrow> ('h, 'a, 'e, 's) HttpServer \<Rightarrow> ('h, 'a, 'e, 's) HttpServer" where
  "RearmAcceptIfRunning endpoint_index shard_index s =
     (if \<not> sv_is_running s then s
      else if \<not> sv_is_running s \<or> endpoint_index \<ge> length (sv_endpoint_runtimes s) then s
      else if shard_index \<ge> length (er_acceptors (sv_endpoint_runtimes s ! endpoint_index)) then s
      else DoAccept endpoint_index shard_index s)"

definition should_reject :: "bool \<Rightarrow> bool \<Rightarrow> int \<Rightarrow> bool" where
  "should_reject ec has_max_connection available \<longleftrightarrow> \<not> ec \<and> has_max_connection \<and> available \<le> 0"

text \<open>The connection it starts, if it starts one.\<close>

definition HandleAcceptResult ::
  "nat \<Rightarrow> nat \<Rightarrow> bool \<Rightarrow> ('h, 'a, 'e, 's) HttpServer \<Rightarrow> 's accepted_connection option \<times> ('h, 'a, 'e, 's) HttpServer" where
  "HandleAcceptResult endpoint_index shard_index ec s =
     (let reject = should_reject ec (ro_has_max_connection (sv_runtime_options s)) (sv_available_connection_num s);
          (started, s) =
            (if \<not> ec then
               (if reject then (None, s)
                else case StartAcceptedConnection endpoint_index s of (c, s) \<Rightarrow> (Some c, s))
             else (None, s))
      in (started, RearmAcceptIfRunning endpoint_index shard_index s))"

text \<open>The completion of an accept: it is no longer outstanding when its handler runs.\<close>

definition accept_completed :: "nat \<Rightarrow> nat \<Rightarrow> ('h, 'a, 'e, 's) HttpServer \<Rightarrow> ('h, 'a, 'e, 's) HttpServer" where
  "accept_completed endpoint_index shard_index s =
     (if endpoint_index \<ge> length (sv_endpoint_runtimes s) then s
      else
        (let runtime = sv_endpoint_runtimes s ! endpoint_index
         in if shard_index \<ge> length (er_acceptors runtime) then s
            else s\<lparr>sv_endpoint_runtimes := (sv_endpoint_runtimes s)[endpoint_index :=
                     runtime\<lparr>er_acceptors := (er_acceptors runtime)[shard_index := (er_acceptors runtime ! shard_index)\<lparr>ac_accepting := False\<rparr>]\<rparr>]\<rparr>))"

section \<open>The connection limit, step by step\<close>

text \<open>
  Each acceptor has its own thread when ports are shared. It looks at the counter in \<open>HandleAcceptResult\<close>, and only
  the constructor of the connection takes a slot. \<open>lim_admitted\<close> tells which acceptors are in between.
\<close>

record limit_state =
  lim_available :: int
  lim_live :: nat
  lim_admitted :: "bool list"

definition limit_start :: "nat \<Rightarrow> nat \<Rightarrow> limit_state" where
  "limit_start max_connection acceptors =
     \<lparr>lim_available = int max_connection, lim_live = 0, lim_admitted = replicate acceptors False\<rparr>"

datatype limit_event = Accepted nat | Created nat | Destroyed

fun limit_step :: "limit_event \<Rightarrow> limit_state \<Rightarrow> limit_state option" where
  "limit_step (Accepted i) l =
     (if i < length (lim_admitted l) \<and> \<not> lim_admitted l ! i
      then Some (l\<lparr>lim_admitted := (lim_admitted l)[i := \<not> should_reject False True (lim_available l)]\<rparr>) else None)"
| "limit_step (Created i) l =
     (if i < length (lim_admitted l) \<and> lim_admitted l ! i
      then Some (l\<lparr>lim_admitted := (lim_admitted l)[i := False], lim_live := Suc (lim_live l),
                   lim_available := StreamServerConnection_ctor True (lim_available l)\<rparr>) else None)"
| "limit_step Destroyed l =
     (if lim_live l > 0
      then Some (l\<lparr>lim_live := lim_live l - 1, lim_available := StreamServerConnection_dtor True (lim_available l)\<rparr>) else None)"

fun limit_run :: "limit_event list \<Rightarrow> limit_state \<Rightarrow> limit_state option" where
  "limit_run [] l = Some l"
| "limit_run (e # es) l = (case limit_step e l of None \<Rightarrow> None | Some l' \<Rightarrow> limit_run es l')"

section \<open>The lock, step by step\<close>

text \<open>
  \<open>Stop\<close> takes the lock exclusively and keeps it while it joins the worker pool; \<open>Post\<close>, called by a handler on the
  pool, takes it shared. The pool is not part of the sources: \<open>joined\<close> tells from its workers whether joining it returns.
\<close>

datatype stop_pc = StopWaits | StopJoins | StopReturned

datatype worker_pc = Working | PostWaits | PostHolds | Finished

record lock_state =
  ls_stop :: stop_pc
  ls_workers :: "worker_pc list"

inductive lock_step :: "(worker_pc list \<Rightarrow> bool) \<Rightarrow> lock_state \<Rightarrow> lock_state \<Rightarrow> bool" for joined where
  stop_locks: "ls_stop l = StopWaits \<Longrightarrow> PostHolds \<notin> set (ls_workers l) \<Longrightarrow> lock_step joined l (l\<lparr>ls_stop := StopJoins\<rparr>)"
| stop_returns: "ls_stop l = StopJoins \<Longrightarrow> joined (ls_workers l) \<Longrightarrow> lock_step joined l (l\<lparr>ls_stop := StopReturned\<rparr>)"
| post_called: "i < length (ls_workers l) \<Longrightarrow> ls_workers l ! i = Working \<Longrightarrow>
    lock_step joined l (l\<lparr>ls_workers := (ls_workers l)[i := PostWaits]\<rparr>)"
| post_locks: "i < length (ls_workers l) \<Longrightarrow> ls_workers l ! i = PostWaits \<Longrightarrow> ls_stop l \<noteq> StopJoins \<Longrightarrow>
    lock_step joined l (l\<lparr>ls_workers := (ls_workers l)[i := PostHolds]\<rparr>)"
| post_returns: "i < length (ls_workers l) \<Longrightarrow> ls_workers l ! i = PostHolds \<Longrightarrow>
    lock_step joined l (l\<lparr>ls_workers := (ls_workers l)[i := Working]\<rparr>)"
| work_ends: "i < length (ls_workers l) \<Longrightarrow> ls_workers l ! i = Working \<Longrightarrow>
    lock_step joined l (l\<lparr>ls_workers := (ls_workers l)[i := Finished]\<rparr>)"

inductive_cases lock_stepE: "lock_step joined l l'"

end
