(* ===== verification/Server_Lifecycle.thy ===== *)
theory Server_Lifecycle
  imports Server_Runtime
begin

text \<open>
  Starting and stopping the server: what \<open>Start\<close> builds from the configured endpoints, the invariant of the server, the
  round robin over its executors, the connection limit and the lock of \<open>Stop\<close>.
\<close>

section \<open>What starting builds\<close>

definition setup_ok :: "acceptor_answers \<Rightarrow> bool" where
  "setup_ok aa \<longleftrightarrow> aa_open aa \<and> aa_reuse_address aa \<and> aa_bind aa \<and> aa_listen aa"

definition listening :: "bool \<Rightarrow> acceptor" where
  "listening reuse = \<lparr>ac_open = True, ac_reuse_port = reuse, ac_listening = True, ac_accepting = False\<rparr>"

lemma SetupEndpointAcceptor_ok:
  "setup_ok aa \<Longrightarrow> (p \<and> q \<longrightarrow> aa_reuse_port aa) \<Longrightarrow>
   SetupEndpointAcceptor aa p q new_acceptor = (True, p \<and> aa_reuse_port aa, listening (p \<and> aa_reuse_port aa))"
  by (auto simp: SetupEndpointAcceptor_def setup_ok_def listening_def new_acceptor_def Let_def)

lemma SetupEndpointAcceptor_fails:
  "\<not> (setup_ok aa \<and> (p \<and> q \<longrightarrow> aa_reuse_port aa)) \<Longrightarrow> \<exists>a. SetupEndpointAcceptor aa p q acc = (False, False, a)"
  by (auto simp: SetupEndpointAcceptor_def setup_ok_def Let_def)

text \<open>A runtime on its way: \<open>k\<close> shards on the contexts from \<open>n\<close> on.\<close>

definition shape :: "('e, 's) EndpointRuntime \<Rightarrow> nat \<Rightarrow> nat list \<Rightarrow> nat \<Rightarrow> bool \<Rightarrow> ('e, 's) building" where
  "shape r n g k reuse =
     (r\<lparr>er_io_contexts := [n..<n + k], er_acceptors := replicate k (listening reuse)\<rparr>, n + k, [n..<n + k], g @ [n..<n + k])"

lemma add_shard_ok:
  assumes "setup_ok aa" "p \<and> q \<longrightarrow> aa_reuse_port aa" "k = 0 \<or> reuse = (p \<and> aa_reuse_port aa)"
  shows "add_shard aa p q (shape r n g k reuse) = (True, p \<and> aa_reuse_port aa, shape r n g (Suc k) (p \<and> aa_reuse_port aa))"
  using assms(3) SetupEndpointAcceptor_ok [OF assms(1,2)]
  by (auto simp: add_shard_def shape_def replicate_append_same Let_def)

lemma add_shard_fails:
  "\<not> (setup_ok aa \<and> (p \<and> q \<longrightarrow> aa_reuse_port aa)) \<Longrightarrow> \<exists>b'. add_shard aa p q b = (False, False, b')"
  using SetupEndpointAcceptor_fails [of aa p q new_acceptor] by (auto simp: add_shard_def Let_def split: prod.splits)

lemma shards_loop_ok:
  "\<forall>j \<in> {i..<i + m}. setup_ok (net j) \<and> aa_reuse_port (net j) \<Longrightarrow>
   shards_loop net m i (shape r n g k True) = (True, shape r n g (k + m) True)"
proof (induction m arbitrary: i k)
  case (Suc m)
  have "add_shard (net i) True True (shape r n g k True) = (True, True, shape r n g (Suc k) True)"
    using add_shard_ok [of "net i" True True k True r n g] Suc.prems by simp
  moreover have "shards_loop net m (Suc i) (shape r n g (Suc k) True) = (True, shape r n g (Suc k + m) True)"
    by (rule Suc.IH) (use Suc.prems in auto)
  ultimately show ?case by simp
qed simp

lemma shards_loop_fails:
  "\<not> (\<forall>j \<in> {i..<i + m}. setup_ok (net j) \<and> aa_reuse_port (net j)) \<Longrightarrow> \<exists>b'. shards_loop net m i b = (False, b')"
proof (induction m arbitrary: i b)
  case (Suc m)
  show ?case
  proof (cases "setup_ok (net i) \<and> aa_reuse_port (net i)")
    case True
    have "{i..<i + Suc m} = insert i {Suc i..<Suc i + m}" by auto
    then have "\<not> (\<forall>j \<in> {Suc i..<Suc i + m}. setup_ok (net j) \<and> aa_reuse_port (net j))" using Suc.prems True by auto
    from Suc.IH [OF this] show ?thesis by (auto split: prod.split)
  next
    case False
    then show ?thesis using add_shard_fails [of "net i" True True b] by auto
  qed
qed simp

text \<open>What the shards of an endpoint need of the system, and how many they are.\<close>

definition shards :: "bool \<Rightarrow> ('e, 's) EndpointListenConfig \<Rightarrow> nat" where
  "shards reuse cfg = (if reuse then lc_io_threads cfg else 1)"

definition endpoint_ok :: "(nat \<Rightarrow> acceptor_answers) \<Rightarrow> bool \<Rightarrow> ('e, 's) EndpointListenConfig \<Rightarrow> bool" where
  "endpoint_ok net reuse cfg \<longleftrightarrow> (\<forall>j < shards reuse cfg. setup_ok (net j) \<and> (reuse \<longrightarrow> aa_reuse_port (net j)))"

lemma shape_0: "shape r n g 0 reuse = (r\<lparr>er_io_contexts := [], er_acceptors := []\<rparr>, n, [], g)"
  by (simp add: shape_def)

lemma endpoint_ok_shared:
  "lc_io_threads cfg \<ge> 1 \<Longrightarrow>
   endpoint_ok net True cfg \<longleftrightarrow> setup_ok (net 0) \<and> aa_reuse_port (net 0) \<and>
     (\<forall>j \<in> {1..<1 + (lc_io_threads cfg - 1)}. setup_ok (net j) \<and> aa_reuse_port (net j))"
proof -
  assume "lc_io_threads cfg \<ge> 1"
  then have "{..<lc_io_threads cfg} = insert 0 {1..<1 + (lc_io_threads cfg - 1)}" by auto
  moreover have "endpoint_ok net True cfg \<longleftrightarrow> (\<forall>j \<in> {..<lc_io_threads cfg}. setup_ok (net j) \<and> aa_reuse_port (net j))"
    by (auto simp: endpoint_ok_def shards_def)
  ultimately show ?thesis by simp
qed

lemma BuildFirst_ok:
  assumes "lc_io_threads cfg \<ge> 1" "endpoint_ok net (aa_reuse_port (net 0)) cfg"
  shows "BuildFirstEndpointRuntimeLocked net cfg (shape r n g 0 True) =
    (True, aa_reuse_port (net 0), shape r n g (shards (aa_reuse_port (net 0)) cfg) (aa_reuse_port (net 0)))"
proof (cases "aa_reuse_port (net 0)")
  case True
  then have "endpoint_ok net True cfg" using assms(2) by simp
  note e = this [unfolded endpoint_ok_shared [OF assms(1)]]
  show ?thesis using add_shard_ok [of "net 0" True False 0 True r n g] shards_loop_ok [of 1 "lc_io_threads cfg - 1" net r n g 1] e assms(1)
    by (simp add: BuildFirstEndpointRuntimeLocked_def BuildReusePortShardsLocked_def shards_def)
next
  case False
  then show ?thesis using add_shard_ok [of "net 0" True False 0 True r n g] assms(2)
    by (simp add: BuildFirstEndpointRuntimeLocked_def shards_def endpoint_ok_def)
qed

lemma BuildFirst_fails:
  assumes "lc_io_threads cfg \<ge> 1" "\<not> endpoint_ok net (aa_reuse_port (net 0)) cfg"
  shows "\<exists>reuse b'. BuildFirstEndpointRuntimeLocked net cfg (shape r n g 0 True) = (False, reuse, b')"
proof (cases "setup_ok (net 0)")
  case True
  then have re: "aa_reuse_port (net 0)" using assms(2) by (auto simp: endpoint_ok_def shards_def split: if_splits)
  then have "\<not> (\<forall>j \<in> {1..<1 + (lc_io_threads cfg - 1)}. setup_ok (net j) \<and> aa_reuse_port (net j))"
    using True assms(2) re endpoint_ok_shared [OF assms(1), of net] by (simp del: add_diff_inverse_nat)
  from shards_loop_fails [OF this, of "shape r n g 1 True"] show ?thesis
    using add_shard_ok [of "net 0" True False 0 True r n g] True re
    by (auto simp: BuildFirstEndpointRuntimeLocked_def BuildReusePortShardsLocked_def)
next
  case False
  then show ?thesis using add_shard_fails [of "net 0" True False "shape r n g 0 True"] by (auto simp: BuildFirstEndpointRuntimeLocked_def)
qed

lemmas build_later_defs = BuildReusePortEndpointRuntimeLocked_def BuildReusePortShardsLocked_def BuildFallbackEndpointRuntimeLocked_def
  endpoint_ok_def shards_def

lemma BuildReusePort_ok:
  "endpoint_ok net True cfg \<Longrightarrow>
   BuildReusePortEndpointRuntimeLocked net cfg (shape r n g 0 True) = (True, shape r n g (shards True cfg) True)"
  using shards_loop_ok [of 0 "lc_io_threads cfg" net r n g 0] by (simp add: build_later_defs)

lemma BuildReusePort_fails:
  "\<not> endpoint_ok net True cfg \<Longrightarrow> \<exists>b'. BuildReusePortEndpointRuntimeLocked net cfg b = (False, b')"
  using shards_loop_fails [of 0 "lc_io_threads cfg" net b] by (auto simp: build_later_defs Ball_def)

lemma BuildFallback_ok:
  "endpoint_ok net False cfg \<Longrightarrow>
   BuildFallbackEndpointRuntimeLocked net (shape r n g 0 True) = (True, shape r n g (shards False cfg) False)"
  using add_shard_ok [of "net 0" False False 0 True r n g] by (simp add: build_later_defs)

lemma BuildFallback_fails:
  "\<not> endpoint_ok net False cfg \<Longrightarrow> \<exists>b'. BuildFallbackEndpointRuntimeLocked net b = (False, b')"
  using add_shard_fails [of "net 0" False False b] by (auto simp: build_later_defs)

text \<open>The runtimes that the configured endpoints ask for, before the threads are started.\<close>

definition runtime_of :: "bool \<Rightarrow> nat \<Rightarrow> ('e, 's) EndpointListenConfig \<Rightarrow> ('e, 's) EndpointRuntime" where
  "runtime_of reuse n cfg =
     \<lparr>er_endpoint = lc_endpoint cfg, er_ssl_ctx = lc_ssl_ctx cfg, er_run_threads = lc_io_threads cfg,
      er_io_contexts = [n..<n + shards reuse cfg], er_acceptors = replicate (shards reuse cfg) (listening reuse), er_io_threads = []\<rparr>"

fun runtimes_of :: "bool \<Rightarrow> nat \<Rightarrow> ('e, 's) EndpointListenConfig list \<Rightarrow> ('e, 's) EndpointRuntime list" where
  "runtimes_of reuse n [] = []"
| "runtimes_of reuse n (cfg # cfgs) = runtime_of reuse n cfg # runtimes_of reuse (n + shards reuse cfg) cfgs"

fun endpoints_ok :: "(nat \<Rightarrow> nat \<Rightarrow> acceptor_answers) \<Rightarrow> nat \<Rightarrow> bool \<Rightarrow> ('e, 's) EndpointListenConfig list \<Rightarrow> bool" where
  "endpoints_ok net i reuse [] = True"
| "endpoints_ok net i reuse (cfg # cfgs) = (endpoint_ok (net i) reuse cfg \<and> endpoints_ok net (Suc i) reuse cfgs)"

definition contexts_needed :: "bool \<Rightarrow> ('e, 's) EndpointListenConfig list \<Rightarrow> nat" where
  "contexts_needed reuse cfgs = sum_list (map (shards reuse) cfgs)"

lemma fresh_runtime_shape:
  "(\<lparr>er_endpoint = lc_endpoint cfg, er_ssl_ctx = lc_ssl_ctx cfg, er_run_threads = lc_io_threads cfg,
     er_io_contexts = [], er_acceptors = [], er_io_threads = []\<rparr>, n, [], g) = shape (runtime_of True 0 cfg) n g 0 True"
  by (simp add: shape_def runtime_of_def)

lemma shape_runtime_of:
  "shape (runtime_of True 0 cfg) n g (shards reuse cfg) reuse =
   (runtime_of reuse n cfg, n + shards reuse cfg, er_io_contexts (runtime_of reuse n cfg), g @ er_io_contexts (runtime_of reuse n cfg))"
  by (simp add: shape_def runtime_of_def)

lemma runtimes_loop_decided:
  "sv_reuse_port_supported s = reuse \<Longrightarrow> endpoints_ok net i reuse cfgs \<Longrightarrow>
   runtimes_loop net i True cfgs E G s =
     (True, E @ map er_io_contexts (runtimes_of reuse (sv_contexts_made s) cfgs),
      G @ concat (map er_io_contexts (runtimes_of reuse (sv_contexts_made s) cfgs)),
      s\<lparr>sv_contexts_made := sv_contexts_made s + contexts_needed reuse cfgs,
        sv_endpoint_runtimes := sv_endpoint_runtimes s @ runtimes_of reuse (sv_contexts_made s) cfgs\<rparr>)"
proof (induction cfgs arbitrary: i E G s)
  case (Cons cfg cfgs)
  have e: "endpoint_ok (net i) reuse cfg" "endpoints_ok net (Suc i) reuse cfgs" using Cons.prems by simp_all
  note IH = Cons.IH [OF _ e(2)]
  show ?case using Cons.prems(1) e(1)
    by (cases reuse) (simp_all add: fresh_runtime_shape BuildReusePort_ok BuildFallback_ok shape_runtime_of IH contexts_needed_def ac_simps)
qed (simp add: contexts_needed_def)

text \<open>What building does not touch.\<close>

definition frame :: "('h, 'a, 'e, 's) HttpServer \<Rightarrow> ('h, 'a, 'e, 's) HttpServer" where
  "frame s = s\<lparr>sv_reuse_port_supported := False, sv_contexts_made := 0, sv_endpoint_runtimes := []\<rparr>"

lemma runtimes_loop_decided_fails:
  "sv_reuse_port_supported s = reuse \<Longrightarrow> \<not> endpoints_ok net i reuse cfgs \<Longrightarrow>
   \<exists>E' G' s'. runtimes_loop net i True cfgs E G s = (False, E', G', s') \<and> frame s' = frame s"
proof (induction cfgs arbitrary: i E G s)
  case (Cons cfg cfgs)
  show ?case
  proof (cases "endpoint_ok (net i) reuse cfg")
    case True
    then have "\<not> endpoints_ok net (Suc i) reuse cfgs" using Cons.prems by simp
    note IH = Cons.IH [OF _ this]
    let ?s = "s\<lparr>sv_reuse_port_supported := reuse, sv_contexts_made := sv_contexts_made s + shards reuse cfg,
      sv_endpoint_runtimes := sv_endpoint_runtimes s @ [runtime_of reuse (sv_contexts_made s) cfg]\<rparr>"
    have "runtimes_loop net i True (cfg # cfgs) E G s =
      runtimes_loop net (Suc i) True cfgs (E @ [er_io_contexts (runtime_of reuse (sv_contexts_made s) cfg)])
        (G @ er_io_contexts (runtime_of reuse (sv_contexts_made s) cfg)) ?s"
      using Cons.prems(1) True by (cases reuse) (simp_all add: fresh_runtime_shape BuildReusePort_ok BuildFallback_ok shape_runtime_of)
    moreover have "frame ?s = frame s" by (simp add: frame_def)
    ultimately show ?thesis using IH [of ?s] by simp
  next
    case False
    let ?b = "shape (runtime_of True 0 cfg) (sv_contexts_made s) G 0 True"
    obtain r n e g where "(if reuse then BuildReusePortEndpointRuntimeLocked (net i) cfg ?b
        else BuildFallbackEndpointRuntimeLocked (net i) ?b) = (False, r, n, e, g)"
      using BuildReusePort_fails [of "net i" cfg ?b] BuildFallback_fails [of "net i" cfg ?b] False by (cases reuse) auto
    then show ?thesis using Cons.prems(1) by (cases reuse) (simp_all add: fresh_runtime_shape frame_def)
  qed
qed simp

text \<open>The first endpoint tells whether ports are shared; with no endpoint nothing does.\<close>

definition shared :: "(nat \<Rightarrow> nat \<Rightarrow> acceptor_answers) \<Rightarrow> ('e, 's) EndpointListenConfig list \<Rightarrow> bool" where
  "shared net cfgs \<longleftrightarrow> cfgs \<noteq> [] \<and> aa_reuse_port (net 0 0)"

lemma Build_ok:
  assumes "\<forall>cfg \<in> set (sv_endpoint_configs s). lc_io_threads cfg \<ge> 1"
    "endpoints_ok net 0 (shared net (sv_endpoint_configs s)) (sv_endpoint_configs s)"
  defines "reuse \<equiv> shared net (sv_endpoint_configs s)"
  defines "rs \<equiv> runtimes_of reuse (sv_contexts_made s) (sv_endpoint_configs s)"
  shows "BuildEndpointRuntimesLocked net s =
    (True, map er_io_contexts rs, concat (map er_io_contexts rs),
     s\<lparr>sv_reuse_port_supported := reuse, sv_contexts_made := sv_contexts_made s + contexts_needed reuse (sv_endpoint_configs s),
       sv_endpoint_runtimes := rs\<rparr>)"
proof (cases "sv_endpoint_configs s")
  case Nil
  then show ?thesis by (simp add: BuildEndpointRuntimesLocked_def reuse_def rs_def shared_def contexts_needed_def)
next
  case (Cons cfg cfgs)
  have re: "reuse = aa_reuse_port (net 0 0)" by (simp add: reuse_def shared_def Cons)
  have e: "endpoint_ok (net 0) reuse cfg" "endpoints_ok net (Suc 0) reuse cfgs" "lc_io_threads cfg \<ge> 1"
    using assms(1,2) by (simp_all add: Cons reuse_def)
  note b = BuildFirst_ok [OF e(3), of "net 0", folded re, OF e(1)]
  show ?thesis unfolding BuildEndpointRuntimesLocked_def rs_def
    by (simp add: Cons fresh_runtime_shape b shape_runtime_of runtimes_loop_decided [OF _ e(2)] contexts_needed_def ac_simps)
qed

lemma Build_fails:
  assumes "\<forall>cfg \<in> set (sv_endpoint_configs s). lc_io_threads cfg \<ge> 1"
    "\<not> endpoints_ok net 0 (shared net (sv_endpoint_configs s)) (sv_endpoint_configs s)"
  shows "\<exists>E G s'. BuildEndpointRuntimesLocked net s = (False, E, G, s') \<and> frame s' = frame s"
proof (cases "sv_endpoint_configs s")
  case (Cons cfg cfgs)
  let ?re = "aa_reuse_port (net 0 0)" and ?n = "sv_contexts_made s"
  let ?b = "shape (runtime_of True 0 cfg) ?n [] 0 True"
  have t: "lc_io_threads cfg \<ge> 1" using assms(1) Cons by simp
  have e: "\<not> (endpoint_ok (net 0) ?re cfg \<and> endpoints_ok net (Suc 0) ?re cfgs)" using assms(2) by (simp add: Cons shared_def)
  show ?thesis
  proof (cases "endpoint_ok (net 0) ?re cfg")
    case True
    let ?s = "s\<lparr>sv_reuse_port_supported := ?re, sv_contexts_made := ?n + shards ?re cfg, sv_endpoint_runtimes := [runtime_of ?re ?n cfg]\<rparr>"
    have "BuildEndpointRuntimesLocked net s = runtimes_loop net (Suc 0) True cfgs [er_io_contexts (runtime_of ?re ?n cfg)]
        (er_io_contexts (runtime_of ?re ?n cfg)) ?s"
      by (simp add: BuildEndpointRuntimesLocked_def Cons fresh_runtime_shape BuildFirst_ok [OF t True] shape_runtime_of)
    moreover have "frame ?s = frame s" by (simp add: frame_def)
    ultimately show ?thesis using runtimes_loop_decided_fails [of ?s ?re net "Suc 0" cfgs] e True by simp
  next
    case False
    obtain re r n x g where "BuildFirstEndpointRuntimeLocked (net 0) cfg ?b = (False, re, r, n, x, g)"
      using BuildFirst_fails [OF t False, of "runtime_of True 0 cfg" ?n "[]"] by auto
    then show ?thesis by (simp add: BuildEndpointRuntimesLocked_def Cons fresh_runtime_shape frame_def)
  qed
qed (use assms in \<open>simp add: shared_def\<close>)

text \<open>Every acceptor gets its first accept.\<close>

definition accepting :: "acceptor \<Rightarrow> acceptor" where
  "accepting a = a\<lparr>ac_accepting := True\<rparr>"

definition accept_upto :: "nat \<Rightarrow> ('e, 's) EndpointRuntime \<Rightarrow> ('e, 's) EndpointRuntime" where
  "accept_upto k r = r\<lparr>er_acceptors := map accepting (take k (er_acceptors r)) @ drop k (er_acceptors r)\<rparr>"

lemma accept_upto_Suc:
  "k < length (er_acceptors r) \<Longrightarrow>
   (accept_upto k r)\<lparr>er_acceptors := (er_acceptors (accept_upto k r))[k := accepting (er_acceptors r ! k)]\<rparr> = accept_upto (Suc k) r"
  by (simp add: accept_upto_def list_update_append take_Suc_conv_app_nth flip: Cons_nth_drop_Suc)

lemma accept_shards:
  "i < length (sv_endpoint_runtimes s) \<Longrightarrow> k \<le> length (er_acceptors (sv_endpoint_runtimes s ! i)) \<Longrightarrow>
   fold (\<lambda>j s. DoAccept i j s) [0..<k] s =
     s\<lparr>sv_endpoint_runtimes := (sv_endpoint_runtimes s)[i := accept_upto k (sv_endpoint_runtimes s ! i)]\<rparr>"
proof (induction k)
  case 0
  then show ?case by (simp add: accept_upto_def)
next
  case (Suc k)
  have "er_acceptors (accept_upto k (sv_endpoint_runtimes s ! i)) ! k = er_acceptors (sv_endpoint_runtimes s ! i) ! k"
    "length (er_acceptors (accept_upto k (sv_endpoint_runtimes s ! i))) = length (er_acceptors (sv_endpoint_runtimes s ! i))"
    using Suc.prems by (simp_all add: accept_upto_def nth_append)
  then show ?case using Suc accept_upto_Suc [of k "sv_endpoint_runtimes s ! i"]
    by (simp add: DoAccept_def Let_def accepting_def)
qed

definition accept_all :: "('e, 's) EndpointRuntime \<Rightarrow> ('e, 's) EndpointRuntime" where
  "accept_all r = r\<lparr>er_acceptors := map accepting (er_acceptors r)\<rparr>"

lemma accept_runtimes:
  "m \<le> length (sv_endpoint_runtimes s) \<Longrightarrow>
   fold (\<lambda>i s. fold (\<lambda>j s. DoAccept i j s) [0..<length (er_acceptors (sv_endpoint_runtimes s ! i))] s) [0..<m] s =
     s\<lparr>sv_endpoint_runtimes := map accept_all (take m (sv_endpoint_runtimes s)) @ drop m (sv_endpoint_runtimes s)\<rparr>"
proof (induction m)
  case (Suc m)
  have "accept_upto (length (er_acceptors (sv_endpoint_runtimes s ! m))) (sv_endpoint_runtimes s ! m) = accept_all (sv_endpoint_runtimes s ! m)"
    by (simp add: accept_upto_def accept_all_def)
  then show ?case using Suc
    by (simp add: accept_shards nth_append list_update_append take_Suc_conv_app_nth flip: Cons_nth_drop_Suc)
qed simp

lemma StartEndpointRuntimes_runs:
  "StartEndpointRuntimesLocked s =
     s\<lparr>sv_endpoint_runtimes := map (start_threads (sv_reuse_port_supported s) \<circ> accept_all) (sv_endpoint_runtimes s)\<rparr>"
  by (simp add: StartEndpointRuntimesLocked_def accept_runtimes)

section \<open>The invariant of the server\<close>

text \<open>
  A runtime that serves its configured endpoint: every acceptor listens with an accept outstanding, and the threads
  are one per context when ports are shared and the configured number on the one context otherwise.
\<close>

definition serves :: "bool \<Rightarrow> ('e, 's) EndpointListenConfig \<Rightarrow> ('e, 's) EndpointRuntime \<Rightarrow> bool" where
  "serves reuse cfg r \<longleftrightarrow>
     er_endpoint r = lc_endpoint cfg \<and> er_ssl_ctx r = lc_ssl_ctx cfg \<and> er_run_threads r = lc_io_threads cfg \<and>
     length (er_io_contexts r) = shards reuse cfg \<and>
     er_acceptors r = replicate (shards reuse cfg) \<lparr>ac_open = True, ac_reuse_port = reuse, ac_listening = True, ac_accepting = True\<rparr> \<and>
     er_io_threads r = (if reuse then er_io_contexts r else replicate (lc_io_threads cfg) (hd (er_io_contexts r)))"

definition server_up :: "('h, 'a, 'e, 's) HttpServer \<Rightarrow> bool" where
  "server_up s \<longleftrightarrow>
     list_all2 (serves (sv_reuse_port_supported s)) (sv_endpoint_configs s) (sv_endpoint_runtimes s) \<and>
     sv_endpoint_execs s = map er_io_contexts (sv_endpoint_runtimes s) \<and> sv_global_execs s = concat (sv_endpoint_execs s) \<and>
     distinct (sv_global_execs s) \<and> (\<forall>c \<in> set (sv_global_execs s). c < sv_contexts_made s) \<and> sv_control_thread s"

definition server_down :: "('h, 'a, 'e, 's) HttpServer \<Rightarrow> bool" where
  "server_down s \<longleftrightarrow>
     sv_endpoint_runtimes s = [] \<and> sv_endpoint_execs s = [] \<and> sv_global_execs s = [] \<and> sv_thread_handles s = [] \<and>
     \<not> sv_control_thread s \<and> \<not> sv_reuse_port_supported s"

definition server_ok :: "('h, 'a, 'e, 's) HttpServer \<Rightarrow> bool" where
  "server_ok s \<longleftrightarrow> (\<forall>cfg \<in> set (sv_endpoint_configs s). lc_io_threads cfg \<ge> 1) \<and> (if sv_is_running s then server_up s else server_down s)"

lemmas server_ok_defs = server_ok_def server_up_def server_down_def

text \<open>What only the owner may change, and only while the server is stopped.\<close>

definition configuration where
  "configuration s = (sv_route_table s, sv_endpoint_configs s, sv_header_read_expiry s, sv_keep_alive_timeout s, sv_runtime_options s)"

lemma shards_pos: "lc_io_threads cfg \<ge> 1 \<Longrightarrow> shards reuse cfg > 0"
  by (simp add: shards_def)

lemma runtime_of_serves:
  "lc_io_threads cfg \<ge> 1 \<Longrightarrow> serves reuse cfg (start_threads reuse (accept_all (runtime_of reuse n cfg)))"
  by (auto simp: serves_def start_threads_def accept_all_def runtime_of_def accepting_def listening_def shards_def)

lemma runtimes_of_serve:
  "\<forall>cfg \<in> set cfgs. lc_io_threads cfg \<ge> 1 \<Longrightarrow>
   list_all2 (serves reuse) cfgs (map (start_threads reuse \<circ> accept_all) (runtimes_of reuse n cfgs))"
  by (induction cfgs arbitrary: n) (simp_all add: runtime_of_serves)

lemma started_contexts: "er_io_contexts (start_threads reuse (accept_all r)) = er_io_contexts r"
  by (simp add: start_threads_def accept_all_def)

lemma contexts_of_runtimes:
  "concat (map er_io_contexts (runtimes_of reuse n cfgs)) = [n..<n + contexts_needed reuse cfgs]"
proof (induction cfgs arbitrary: n)
  case (Cons cfg cfgs)
  then show ?case using upt_add_eq_append [of n "n + shards reuse cfg" "contexts_needed reuse cfgs"]
    by (simp add: contexts_needed_def runtime_of_def add.assoc)
qed (simp add: contexts_needed_def)

text \<open>The two ends of starting.\<close>

definition prepared :: "('h, 'a, 'e, 's) HttpServer \<Rightarrow> ('h, 'a, 'e, 's) HttpServer" where
  "prepared s = (if ro_has_max_connection (sv_runtime_options s)
     then s\<lparr>sv_available_connection_num := sint (ro_max_connection (sv_runtime_options s))\<rparr> else s)\<lparr>sv_is_running := True, sv_control_thread := True\<rparr>"

lemma prepared_keeps:
  "configuration (prepared s) = configuration s" "sv_endpoint_configs (prepared s) = sv_endpoint_configs s"
  "sv_contexts_made (prepared s) = sv_contexts_made s" "sv_sessions (prepared s) = sv_sessions s"
  "sv_is_running (prepared s)" "sv_control_thread (prepared s)"
  by (simp_all add: prepared_def configuration_def)

lemma Start_unfold:
  "\<not> sv_is_running s \<Longrightarrow> Start net s = (case BuildEndpointRuntimesLocked net (prepared s) of
     (ok, endpoint_execs, global_execs, s) \<Rightarrow>
       if \<not> ok then (False, RollbackStartLocked s)
       else (True, PublishThreadNativeHandlesLocked (StartEndpointRuntimesLocked
                     (PublishExecutorSnapshotsLocked endpoint_execs global_execs s))))"
  by (simp add: Start_def prepared_def Let_def)

lemma Start_succeeds:
  assumes "\<not> sv_is_running s" "\<forall>cfg \<in> set (sv_endpoint_configs s). lc_io_threads cfg \<ge> 1"
    "endpoints_ok net 0 (shared net (sv_endpoint_configs s)) (sv_endpoint_configs s)"
  shows "fst (Start net s) \<and> sv_is_running (snd (Start net s)) \<and> server_up (snd (Start net s)) \<and>
    configuration (snd (Start net s)) = configuration s \<and> sv_sessions (snd (Start net s)) = sv_sessions s \<and>
    sv_reuse_port_supported (snd (Start net s)) = shared net (sv_endpoint_configs s)"
proof -
  note b = Build_ok [of "prepared s" net, unfolded prepared_keeps, OF assms(2,3)]
  have m: "map (er_io_contexts \<circ> (start_threads re \<circ> accept_all)) rs = map er_io_contexts rs"
    for re and rs :: "('e, 's) EndpointRuntime list"
    by (simp add: comp_def started_contexts)
  show ?thesis using assms(2) unfolding Start_unfold [OF assms(1)] b
    by (simp add: server_up_def PublishThreadNativeHandlesLocked_def PublishExecutorSnapshotsLocked_def StartEndpointRuntimes_runs
        prepared_keeps runtimes_of_serve m contexts_of_runtimes configuration_def prepared_def)
qed

lemma Rollback_down:
  "server_down (RollbackStartLocked s) \<and> \<not> sv_is_running (RollbackStartLocked s) \<and>
   configuration (RollbackStartLocked s) = configuration s \<and> sv_sessions (RollbackStartLocked s) = sv_sessions s"
  by (simp add: RollbackStartLocked_def server_down_def configuration_def ClearExecutorSnapshotsLocked_def StopEndpointIoLocked_def
      JoinEndpointIoThreadsLocked_def ResetControlIoLocked_def)

lemma frame_keeps:
  assumes "frame s = frame s'"
  shows "configuration s = configuration s'" "sv_sessions s = sv_sessions s'"
proof -
  have "configuration (frame s) = configuration (frame s')" "sv_sessions (frame s) = sv_sessions (frame s')" using assms by simp_all
  then show "configuration s = configuration s'" "sv_sessions s = sv_sessions s'" by (simp_all add: frame_def configuration_def)
qed

lemma Start_fails:
  assumes "\<not> sv_is_running s" "\<forall>cfg \<in> set (sv_endpoint_configs s). lc_io_threads cfg \<ge> 1"
    "\<not> endpoints_ok net 0 (shared net (sv_endpoint_configs s)) (sv_endpoint_configs s)"
  shows "\<not> fst (Start net s) \<and> \<not> sv_is_running (snd (Start net s)) \<and> server_down (snd (Start net s)) \<and>
    configuration (snd (Start net s)) = configuration s \<and> sv_sessions (snd (Start net s)) = sv_sessions s"
proof -
  obtain E G s' where b: "BuildEndpointRuntimesLocked net (prepared s) = (False, E, G, s')" "frame s' = frame (prepared s)"
    using Build_fails [of "prepared s" net, unfolded prepared_keeps, OF assms(2,3)] by blast
  show ?thesis unfolding Start_unfold [OF assms(1)] b(1) using Rollback_down [of s'] frame_keeps [OF b(2)]
    by (simp add: prepared_keeps)
qed

lemma Start_when_running: "sv_is_running s \<Longrightarrow> Start net s = (False, s)"
  by (simp add: Start_def)

lemma Stop_down:
  assumes "sv_is_running s"
  shows "\<not> sv_is_running (Stop s) \<and> server_down (Stop s) \<and> configuration (Stop s) = configuration s"
  using assms by (simp add: Stop_def Let_def server_down_def configuration_def ClearExecutorSnapshotsLocked_def StopEndpointIoLocked_def
      JoinEndpointIoThreadsLocked_def ResetControlIoLocked_def)

text \<open>Accepting: a completed accept is rearmed, whatever came of it.\<close>

lemma accept_rearmed:
  assumes "sv_is_running s" "e < length (sv_endpoint_runtimes s)" "i < length (er_acceptors (sv_endpoint_runtimes s ! e))"
    "ac_accepting (er_acceptors (sv_endpoint_runtimes s ! e) ! i)"
  shows "RearmAcceptIfRunning e i (accept_completed e i s) = s"
proof -
  have "(er_acceptors (sv_endpoint_runtimes s ! e) ! i)\<lparr>ac_accepting := True\<rparr> = er_acceptors (sv_endpoint_runtimes s ! e) ! i"
    using assms(4) by simp
  then show ?thesis using assms(1-3) by (simp add: RearmAcceptIfRunning_def DoAccept_def accept_completed_def Let_def)
qed

lemma server_up_serves:
  assumes "server_up s" "e < length (sv_endpoint_runtimes s)"
  shows "serves (sv_reuse_port_supported s) (sv_endpoint_configs s ! e) (sv_endpoint_runtimes s ! e)"
proof -
  have "e < length (sv_endpoint_configs s)" using assms list_all2_lengthD unfolding server_up_def by metis
  then show ?thesis using assms(1) list_all2_nthD unfolding server_up_def by blast
qed

lemma server_up_accepting:
  "server_up s \<Longrightarrow> e < length (sv_endpoint_runtimes s) \<Longrightarrow> i < length (er_acceptors (sv_endpoint_runtimes s ! e)) \<Longrightarrow>
   ac_accepting (er_acceptors (sv_endpoint_runtimes s ! e) ! i)"
  using server_up_serves [of s e] by (simp add: serves_def)

lemma counter_after_runtimes:
  "s\<lparr>sv_endpoint_runtimes := rs, sv_available_connection_num := n\<rparr> = s\<lparr>sv_available_connection_num := n, sv_endpoint_runtimes := rs\<rparr>"
  by simp

lemma Handle_of_completed:
  "HandleAcceptResult e i ec (accept_completed e i s) =
    (if \<not> ec \<and> \<not> should_reject ec (ro_has_max_connection (sv_runtime_options s)) (sv_available_connection_num s)
     then (Some (fst (StartAcceptedConnection e s)), RearmAcceptIfRunning e i (accept_completed e i (snd (StartAcceptedConnection e s))))
     else (None, RearmAcceptIfRunning e i (accept_completed e i s)))"
  by (auto simp: HandleAcceptResult_def StartAcceptedConnection_def accept_completed_def Let_def counter_after_runtimes)

lemma server_up_counter [simp]: "server_up (s\<lparr>sv_available_connection_num := n\<rparr>) = server_up s"
  by (simp add: server_up_def)

lemma Handle_keeps_up:
  assumes "server_up s" "sv_is_running s" "e < length (sv_endpoint_runtimes s)" "i < length (er_acceptors (sv_endpoint_runtimes s ! e))"
  shows "\<exists>n. snd (HandleAcceptResult e i ec (accept_completed e i s)) = s\<lparr>sv_available_connection_num := n\<rparr>"
proof -
  obtain c n where c: "StartAcceptedConnection e s = (c, s\<lparr>sv_available_connection_num := n\<rparr>)"
    by (simp add: StartAcceptedConnection_def Let_def)
  have 1: "RearmAcceptIfRunning e i (accept_completed e i (s\<lparr>sv_available_connection_num := n\<rparr>)) = s\<lparr>sv_available_connection_num := n\<rparr>"
    using assms server_up_accepting [of s e i] by (intro accept_rearmed) simp_all
  have 2: "RearmAcceptIfRunning e i (accept_completed e i s) = s"
    using assms server_up_accepting [of s e i] accept_rearmed [of s e i] by simp
  show ?thesis
  proof (cases "\<not> ec \<and> \<not> should_reject ec (ro_has_max_connection (sv_runtime_options s)) (sv_available_connection_num s)")
    case True
    show ?thesis unfolding Handle_of_completed c if_P [OF True] snd_conv 1 by blast
  next
    case False
    show ?thesis unfolding Handle_of_completed c if_not_P [OF False] snd_conv 2 by (rule exI [of _ "sv_available_connection_num s"]) simp
  qed
qed

section \<open>Runs of the server\<close>

text \<open>
  The steps: the settings, services and sessions, starting and stopping, the executors, and the accepts and the ends
  of connections in between. The system may answer each start in its own way.
\<close>

inductive blue_print_built :: "'h \<Rightarrow> ('h, 'a) BluePrint \<Rightarrow> bool" for eh where
  made: "blue_print_built eh (BluePrint_ctor eh)"
| moved_from: "blue_print_built eh None"
| bp_route: "blue_print_built eh b \<Longrightarrow> bp_AddRouteEntry m url h b = Some b' \<Longrightarrow> blue_print_built eh b'"
| bp_exclusive: "blue_print_built eh b \<Longrightarrow> bp_AddExclusiveRouteEntry m url h b = Some b' \<Longrightarrow> blue_print_built eh b'"
| bp_aspect: "blue_print_built eh b \<Longrightarrow> bp_AddAspect m url a b = Some b' \<Longrightarrow> blue_print_built eh b'"
| bp_terminal: "blue_print_built eh b \<Longrightarrow> bp_AddTerminalAspect m url a b = Some b' \<Longrightarrow> blue_print_built eh b'"
| bp_read: "blue_print_built eh b \<Longrightarrow> bp_SetReadExpiry m url n b = Some b' \<Longrightarrow> blue_print_built eh b'"
| bp_write: "blue_print_built eh b \<Longrightarrow> bp_SetWriteExpiry m url n b = Some b' \<Longrightarrow> blue_print_built eh b'"
| bp_body: "blue_print_built eh b \<Longrightarrow> bp_SetMaxBodySize m url n b = Some b' \<Longrightarrow> blue_print_built eh b'"

inductive server_step :: "('h, 'a, 'e, 's) HttpServer \<Rightarrow> ('h, 'a, 'e, 's) HttpServer \<Rightarrow> bool" where
  listen: "server_step s (AddListen ep n ssl s)"
| header_expiry: "server_step s (srv_SetHeaderReadExpiry ms s)"
| keep_alive: "server_step s (srv_SetKeepAliveTimeout ms s)"
| route: "server_step s (srv_AddRouteEntry m url h s)"
| computing_route: "server_step s (srv_AddComputingRouteEntry wrap m url h s)"
| exclusive_route: "server_step s (srv_AddExclusiveRouteEntry m url h s)"
| aspect: "server_step s (srv_AddAspect m url a s)"
| terminal_aspect: "server_step s (srv_AddTerminalAspect m url a s)"
| method_aspect: "server_step s (srv_AddMethodGlobalAspect m a s)"
| global_aspect: "server_step s (srv_AddGlobalAspect a s)"
| read_expiry: "server_step s (srv_SetReadExpiry m url n s)"
| write_expiry: "server_step s (srv_SetWriteExpiry m url n s)"
| body_size: "server_step s (srv_SetMaxBodySize m url n s)"
| default_read_expiry: "server_step s (srv_SetDefaultReadExpiry n s)"
| default_write_expiry: "server_step s (srv_SetDefaultWriteExpiry n s)"
| default_body_size: "server_step s (srv_SetDefaultMaxBodySize n s)"
| default_handler: "server_step s (srv_SetDefaultHandler h s)"
| blue_print: "blue_print_built eh b \<Longrightarrow> server_step s (AddBluePrint pre b s)"
| reuseable_blue_print: "blue_print_built eh b \<Longrightarrow> server_step s (AddBluePrint_reuseable clone_h clone_a eh pre b s)"
| service: "server_step s (SetServiceProvider i p s)"
| session_timeout_default: "server_step s (srv_SetDefaultSessionTimeout t s)"
| session_cleaner: "server_step s (snd (srv_SetSessionCleaner c s))"
| session: "server_step s (snd (srv_GetSession now now' sid s))"
| session_timeout: "server_step s (snd (srv_SetSessionTimeout now now' sid t s))"
| start: "server_step s (snd (Start net s))"
| stop: "server_step s (Stop s)"
| io_executor: "server_step s (snd (srv_GetIoExecutor s))"
| post_io: "server_step s (snd (PostToIoContext s))"
| timer: "server_step s (snd (SetTimer s))"
| accept: "sv_is_running s \<Longrightarrow> e < length (sv_endpoint_runtimes s) \<Longrightarrow> i < length (er_acceptors (sv_endpoint_runtimes s ! e)) \<Longrightarrow>
    server_step s (snd (HandleAcceptResult e i ec (accept_completed e i s)))"
| connection_gone: "server_step s (s\<lparr>sv_available_connection_num :=
    StreamServerConnection_dtor (ro_has_max_connection (sv_runtime_options s)) (sv_available_connection_num s)\<rparr>)"

inductive server_reached :: "'h \<Rightarrow> HttpServerRuntimeOptions \<Rightarrow> ('h, 'a, 'e, 's) HttpServer \<Rightarrow> bool" for eh ro where
  new: "server_reached eh ro (new_HttpServer eh ro)"
| step: "server_reached eh ro s \<Longrightarrow> server_step s s' \<Longrightarrow> server_reached eh ro s'"

lemmas guarded_defs = AddListen_def srv_SetHeaderReadExpiry_def srv_SetKeepAliveTimeout_def srv_AddRouteEntry_def
  srv_AddComputingRouteEntry_def srv_AddExclusiveRouteEntry_def srv_AddAspect_def srv_AddTerminalAspect_def
  srv_AddMethodGlobalAspect_def srv_AddGlobalAspect_def srv_SetReadExpiry_def srv_SetWriteExpiry_def srv_SetMaxBodySize_def
  srv_SetDefaultReadExpiry_def srv_SetDefaultWriteExpiry_def srv_SetDefaultMaxBodySize_def srv_SetDefaultHandler_def
  AddBluePrint_def AddBluePrint_reuseable_def when_stopped_def on_table_def

lemmas free_defs = SetServiceProvider_def srv_SetDefaultSessionTimeout_def srv_SetSessionCleaner_def srv_GetSession_def
  srv_SetSessionTimeout_def srv_GetIoExecutor_def PostToIoContext_def SetTimer_def SelectIoExecutorRoundRobin_def

lemma server_ok_counter: "server_ok (s\<lparr>sv_available_connection_num := n\<rparr>) = server_ok s"
  by (simp add: server_ok_defs)

lemma Start_keeps_ok: "server_ok s \<Longrightarrow> server_ok (snd (Start net s))"
proof (cases "sv_is_running s")
  case False
  assume ok: "server_ok s"
  then have t: "\<forall>cfg \<in> set (sv_endpoint_configs s). lc_io_threads cfg \<ge> 1" by (simp add: server_ok_def)
  show ?thesis using Start_succeeds [OF False t] Start_fails [OF False t] t
    by (cases "endpoints_ok net 0 (shared net (sv_endpoint_configs s)) (sv_endpoint_configs s)")
      (simp_all add: server_ok_def configuration_def)
qed (simp add: Start_when_running)

lemma Stop_keeps_ok: "server_ok s \<Longrightarrow> server_ok (Stop s)"
  using Stop_down [of s] by (cases "sv_is_running s") (simp_all add: server_ok_def configuration_def Stop_def)

lemma server_step_keeps_ok: "server_step s s' \<Longrightarrow> server_ok s \<Longrightarrow> server_ok s'"
proof (induction rule: server_step.induct)
  case (accept s e i ec)
  then show ?case using Handle_keeps_up [of s e i ec] by (auto simp: server_ok_def)
next
  case (connection_gone s)
  then show ?case by (simp add: server_ok_counter)
next
  case (start s net)
  then show ?case by (rule Start_keeps_ok)
next
  case (stop s)
  then show ?case by (rule Stop_keeps_ok)
qed (auto simp: server_ok_defs guarded_defs free_defs Let_def split: prod.splits if_splits)

lemma server_step_freezes: "server_step s s' \<Longrightarrow> sv_is_running s \<Longrightarrow> server_ok s \<Longrightarrow> configuration s' = configuration s"
proof (induction rule: server_step.induct)
  case (accept s e i ec)
  then show ?case using Handle_keeps_up [of s e i ec] by (auto simp: server_ok_def configuration_def)
next
  case (start s net)
  then show ?case by (simp add: Start_when_running)
next
  case (stop s)
  then show ?case using Stop_down [of s] by simp
qed (auto simp: configuration_def guarded_defs free_defs Let_def split: prod.splits)

lemma new_server_ok: "server_ok (new_HttpServer eh ro)"
  by (simp add: new_HttpServer_def server_ok_defs)

lemma reached_server_ok: "server_reached eh ro s \<Longrightarrow> server_ok s"
  by (induction rule: server_reached.induct) (simp_all add: new_server_ok server_step_keeps_ok)

text \<open>The parts of the server stay well formed with it.\<close>

definition parts_ok :: "('h, 'a, 'e, 's) HttpServer \<Rightarrow> bool" where
  "parts_ok s \<longleftrightarrow> table_ok (sv_route_table s) \<and> session_ok (sv_sessions s)"

lemma table_ok_ops [simp]:
  "table_ok t \<Longrightarrow> table_ok (snd (AddRouteEntry m url h t))" "table_ok t \<Longrightarrow> table_ok (snd (AddExclusiveRouteEntry m url h t))"
  "table_ok t \<Longrightarrow> table_ok (snd (AddAspectAt m url a t))" "table_ok t \<Longrightarrow> table_ok (snd (AddTerminalAspectAt m url a t))"
  "table_ok t \<Longrightarrow> table_ok (snd (SetReadExpiryAt m url n t))" "table_ok t \<Longrightarrow> table_ok (snd (SetWriteExpiryAt m url n t))"
  "table_ok t \<Longrightarrow> table_ok (snd (SetMaxBodySizeAt m url n t))" "table_ok t \<Longrightarrow> table_ok (snd (AddMethodGlobalAspect m a t))"
  "table_ok t \<Longrightarrow> table_ok (snd (AddGlobalAspect a t))"
  using table_ok_apply_op [of t undefined "OpRoute m url h"] table_ok_apply_op [of t undefined "OpExclusiveRoute m url h"]
    table_ok_apply_op [of t undefined "OpAspect m url a"] table_ok_apply_op [of t undefined "OpTerminalAspect m url a"]
    table_ok_apply_op [of t undefined "OpReadExpiry m url n"] table_ok_apply_op [of t undefined "OpWriteExpiry m url n"]
    table_ok_apply_op [of t undefined "OpMaxBodySize m url n"] table_ok_apply_op [of t undefined "OpMethodGlobalAspect m a"]
    table_ok_apply_op [of t undefined "OpGlobalAspect a"]
  by simp_all

lemma table_ok_defaults [simp]:
  "table_ok (SetDefaultReadExpiry n t) = table_ok t" "table_ok (SetDefaultWriteExpiry n t) = table_ok t"
  "table_ok (SetDefaultMaxBodySize n t) = table_ok t" "table_ok t \<Longrightarrow> table_ok (SetDefaultHandler h t)"
  by (auto simp: SetDefaultReadExpiry_def SetDefaultWriteExpiry_def SetDefaultMaxBodySize_def SetDefaultHandler_def split: option.splits)

lemmas bp_defs = bp_AddRouteEntry_def bp_AddExclusiveRouteEntry_def bp_AddAspect_def bp_AddTerminalAspect_def
  bp_SetReadExpiry_def bp_SetWriteExpiry_def bp_SetMaxBodySize_def on_blue_print_def

lemma blue_print_ok: "blue_print_built eh b \<Longrightarrow> b = Some t \<Longrightarrow> table_ok t"
  by (induction arbitrary: t rule: blue_print_built.induct) (auto simp: BluePrint_ctor_def table_ok_new bp_defs)

lemma mounted_table_ok:
  assumes "blue_print_built eh b" "table_ok t"
  shows "table_ok (snd (MountInto pre b t))" "table_ok (snd (MountInto_reuseable clone_h clone_a eh' pre b t))"
  using assms blue_print_ok [OF assms(1)] table_ok_MountAt table_ok_MountAtClone
  by (auto simp: MountInto_def MountInto_reuseable_def split: option.splits)

lemma session_ok_ops:
  assumes "session_ok m"
  shows "session_ok (SetDefaultSessionTimeout t m)" "session_ok (snd (SetBackgroundCleaner c m))"
    "session_ok (snd (GetSession now now' i m))" "session_ok (SetSessionTimeout now now' i t m)"
  using session_ok_run_op [OF assms, of "OpSetDefault t"] session_ok_run_op [OF assms, of "OpSetCleaner c"]
    session_ok_run_op [OF assms, of "OpGet now now' i"] session_ok_run_op [OF assms, of "OpSetTimeout now now' i t"] by simp_all

lemma parts_kept: "configuration s' = configuration s \<Longrightarrow> sv_sessions s' = sv_sessions s \<Longrightarrow> parts_ok s \<Longrightarrow> parts_ok s'"
  by (simp add: parts_ok_def configuration_def)

lemma Start_keeps_parts: "server_ok s \<Longrightarrow> parts_ok s \<Longrightarrow> parts_ok (snd (Start net s))"
proof (cases "sv_is_running s")
  case False
  assume a: "server_ok s" "parts_ok s"
  then have t: "\<forall>cfg \<in> set (sv_endpoint_configs s). lc_io_threads cfg \<ge> 1" by (simp add: server_ok_def)
  have "configuration (snd (Start net s)) = configuration s \<and> sv_sessions (snd (Start net s)) = sv_sessions s"
    using Start_succeeds [OF False t] Start_fails [OF False t] by blast
  then show ?thesis using parts_kept [of _ s] a(2) by simp
qed (simp add: Start_when_running)

lemma Stop_sessions: "sv_sessions (Stop s) = sv_sessions s"
  by (simp add: Stop_def Let_def ClearExecutorSnapshotsLocked_def StopEndpointIoLocked_def JoinEndpointIoThreadsLocked_def ResetControlIoLocked_def)

lemma server_step_keeps_parts: "server_step s s' \<Longrightarrow> server_ok s \<Longrightarrow> parts_ok s \<Longrightarrow> parts_ok s'"
proof (induction rule: server_step.induct)
  case (accept s e i ec)
  then show ?case using Handle_keeps_up [of s e i ec] by (auto simp: server_ok_def parts_ok_def)
next
  case (start s net)
  then show ?case by (intro Start_keeps_parts)
next
  case (stop s)
  then show ?case using Stop_down [of s] Stop_sessions [of s] parts_kept [of "Stop s" s] by (cases "sv_is_running s") (simp_all add: Stop_def)
next
  case (session s now now' sid)
  then show ?case using session_ok_ops(3) [of "sv_sessions s" now now' sid] by (auto simp: parts_ok_def srv_GetSession_def split: prod.splits)
next
  case (session_cleaner s c)
  then show ?case using session_ok_ops(2) [of "sv_sessions s" c] by (auto simp: parts_ok_def srv_SetSessionCleaner_def split: prod.splits)
qed (auto simp: parts_ok_def guarded_defs free_defs Let_def mounted_table_ok session_ok_ops split: prod.splits)

lemma reached_parts_ok: "server_reached eh ro s \<Longrightarrow> parts_ok s"
proof (induction rule: server_reached.induct)
  case new
  then show ?case by (simp add: parts_ok_def new_HttpServer_def table_ok_new session_ok_new)
next
  case (step s s')
  then show ?case by (intro server_step_keeps_parts [OF step.hyps(2) reached_server_ok [OF step.hyps(1)]])
qed

section \<open>Starting\<close>

text \<open>
  (C12) Starting a stopped server takes all endpoints or none. It succeeds exactly when the system lets every shard of
  every endpoint listen, where the first acceptor decides whether ports are shared. Then every configured
  endpoint is served: each of its acceptors listens with an accept outstanding, on one context and thread each
  when ports are shared, on one context with the configured number of threads otherwise, and the executors handed out
  are exactly the contexts made, without repetition. Otherwise the server is stopped as before: no
  listener, context, executor or thread is left, and the configuration and the sessions are what they were.
\<close>

theorem start_is_all_or_nothing:
  fixes net
  assumes "server_ok s" "\<not> sv_is_running s"
  defines "reuse \<equiv> shared net (sv_endpoint_configs s)"
  shows "fst (Start net s) = endpoints_ok net 0 reuse (sv_endpoint_configs s) \<and>
    configuration (snd (Start net s)) = configuration s \<and> sv_sessions (snd (Start net s)) = sv_sessions s \<and>
    (if fst (Start net s)
     then sv_is_running (snd (Start net s)) \<and>
       list_all2 (serves reuse) (sv_endpoint_configs s) (sv_endpoint_runtimes (snd (Start net s))) \<and>
       sv_endpoint_execs (snd (Start net s)) = map er_io_contexts (sv_endpoint_runtimes (snd (Start net s))) \<and>
       sv_global_execs (snd (Start net s)) = concat (sv_endpoint_execs (snd (Start net s))) \<and>
       distinct (sv_global_execs (snd (Start net s)))
     else \<not> sv_is_running (snd (Start net s)) \<and> server_down (snd (Start net s)))"
proof -
  have t: "\<forall>cfg \<in> set (sv_endpoint_configs s). lc_io_threads cfg \<ge> 1" using assms(1) by (simp add: server_ok_def)
  show ?thesis
  proof (cases "endpoints_ok net 0 reuse (sv_endpoint_configs s)")
    case True
    note ok = Start_succeeds [OF assms(2) t True [unfolded reuse_def], folded reuse_def]
    moreover have "sv_endpoint_configs (snd (Start net s)) = sv_endpoint_configs s" using ok by (simp add: configuration_def)
    ultimately show ?thesis using True by (auto simp: server_up_def)
  next
    case False
    show ?thesis using Start_fails [OF assms(2) t False [unfolded reuse_def]] False by simp
  qed
qed

definition one_listener :: "(unit, unit, nat, nat) HttpServer" where
  "one_listener = (new_HttpServer () \<lparr>ro_has_max_connection = False, ro_max_connection = 0\<rparr>)\<lparr>
     sv_endpoint_configs := [\<lparr>lc_endpoint = 80, lc_io_threads = 2, lc_ssl_ctx = None\<rparr>]\<rparr>"

definition willing :: acceptor_answers where
  "willing = \<lparr>aa_open = True, aa_reuse_address = True, aa_reuse_port = True, aa_bind = True, aa_listen = True\<rparr>"

theorem start_is_all_or_nothing_witness:
  "server_ok one_listener \<and> \<not> sv_is_running one_listener \<and> fst (Start (\<lambda>_ _. willing) one_listener) \<and>
   \<not> fst (Start (\<lambda>_ i. willing\<lparr>aa_bind := (i = 0)\<rparr>) one_listener)"
proof -
  have ok: "server_ok one_listener" "\<not> sv_is_running one_listener"
    by (simp_all add: one_listener_def new_HttpServer_def server_ok_defs)
  have "endpoints_ok (\<lambda>_ _. willing) 0 (shared (\<lambda>_ _. willing) (sv_endpoint_configs one_listener)) (sv_endpoint_configs one_listener)"
    "\<not> endpoints_ok (\<lambda>_ i. willing\<lparr>aa_bind := (i = 0)\<rparr>) 0 (shared (\<lambda>_ i. willing\<lparr>aa_bind := (i = 0)\<rparr>) (sv_endpoint_configs one_listener))
       (sv_endpoint_configs one_listener)"
    by (auto simp: one_listener_def willing_def endpoint_ok_def setup_ok_def shared_def shards_def intro!: exI [of _ "1 :: nat"])
  then show ?thesis using start_is_all_or_nothing [OF ok, of "\<lambda>_ _. willing"]
      start_is_all_or_nothing [OF ok, of "\<lambda>_ i. willing\<lparr>aa_bind := (i = 0)\<rparr>"] ok by simp
qed

text \<open>
  (C6) Whatever calls, starts, stops, accepts and ends of connections a server goes through, it stays consistent: while
  it runs, every configured endpoint is served by its acceptors, contexts and threads and the published executors are those
  contexts; while it is stopped, nothing of this is left. Its route table, mounted blueprints included, stays well
  formed and its session map stays consistent. And while it runs, no step changes its routes, listeners, expiries or options.
\<close>

theorem server_stays_consistent:
  assumes "server_reached eh ro s"
  shows "(if sv_is_running s then server_up s else server_down s) \<and> table_ok (sv_route_table s) \<and> session_ok (sv_sessions s) \<and>
    (\<forall>s'. server_step s s' \<and> sv_is_running s \<longrightarrow> configuration s' = configuration s)"
  using reached_server_ok [OF assms] reached_parts_ok [OF assms] server_step_freezes [of s] by (auto simp: server_ok_def parts_ok_def)

theorem server_stays_consistent_witness:
  "\<exists>ro (s :: (unit, unit, nat, nat) HttpServer). server_reached () ro s \<and> sv_is_running s \<and> server_up s \<and> sv_endpoint_configs s \<noteq> []"
proof -
  fix ro
  let ?s = "AddListen 80 0 None (new_HttpServer () ro) :: (unit, unit, nat, nat) HttpServer"
  let ?t = "snd (Start (\<lambda>_ _. willing) ?s)"
  have r: "server_reached () ro ?t" by (rule server_reached.step [OF server_reached.step [OF server_reached.new listen] start])
  have "\<not> sv_is_running ?s" "sv_endpoint_configs ?s = [\<lparr>lc_endpoint = 80, lc_io_threads = 1, lc_ssl_ctx = None\<rparr>]"
    by (simp_all add: AddListen_def when_stopped_def new_HttpServer_def)
  moreover from this have "sv_is_running ?t \<and> configuration ?t = configuration ?s"
    using Start_succeeds [of ?s "\<lambda>_ _. willing"] by (simp add: endpoint_ok_def setup_ok_def willing_def shared_def shards_def)
  ultimately show ?thesis using server_stays_consistent [OF r] r by (intro exI [of _ ro] exI [of _ ?t]) (simp add: configuration_def)
qed

section \<open>Executors\<close>

fun selections :: "nat \<Rightarrow> ('h, 'a, 'e, 's) HttpServer \<Rightarrow> nat option list" where
  "selections 0 s = []"
| "selections (Suc n) s = (case SelectIoExecutorRoundRobin s of (e, s) \<Rightarrow> e # selections n s)"

lemma unat_next: "unat c + Suc n \<le> 2 ^ 64 \<Longrightarrow> n \<noteq> 0 \<Longrightarrow> unat (c + 1) = unat c + 1" for c :: size_t
proof -
  assume "unat c + Suc n \<le> 2 ^ 64" "n \<noteq> 0"
  then have "unat c + 1 < 2 ^ LENGTH(64)" by simp
  then show ?thesis using unat_add_lem [of c 1] by (simp only: unat_1 len_num0 if_False)
qed

lemma selections_at:
  "sv_global_execs s = g \<Longrightarrow> g \<noteq> [] \<Longrightarrow> unat (sv_round_robin s) + n \<le> 2 ^ 64 \<Longrightarrow>
   selections n s = map (\<lambda>i. Some (g ! ((unat (sv_round_robin s) + i) mod length g))) [0..<n]"
proof (induction n arbitrary: s)
  case (Suc n)
  let ?s = "s\<lparr>sv_round_robin := sv_round_robin s + 1\<rparr>"
  have sel: "SelectIoExecutorRoundRobin s = (Some (g ! (unat (sv_round_robin s) mod length g)), ?s)"
    using Suc.prems by (simp add: SelectIoExecutorRoundRobin_def)
  show ?case
  proof (cases "n = 0")
    case True
    then show ?thesis using sel by simp
  next
    case False
    then have u: "unat (sv_round_robin s + 1) = unat (sv_round_robin s) + 1" using unat_next [OF Suc.prems(3)] by simp
    have "selections n ?s = map (\<lambda>i. Some (g ! ((unat (sv_round_robin s) + 1 + i) mod length g))) [0..<n]"
      using Suc.IH [of ?s] Suc.prems u by simp
    then show ?thesis using sel by (simp add: upt_conv_Cons comp_def del: upt_Suc flip: map_Suc_upt)
  qed
qed simp

lemma rounds_of_rotation:
  assumes "g \<noteq> []"
  shows "map (\<lambda>i. Some (g ! ((n + i) mod length g))) [0..<k * length g] = concat (replicate k (map Some (rotate n g)))"
proof (induction k)
  case (Suc k)
  have "map (\<lambda>i. Some (g ! ((n + i) mod length g))) [k * length g..<k * length g + length g] = map Some (rotate n g)"
  proof (rule nth_equalityI)
    fix i assume "i < length (map (\<lambda>i. Some (g ! ((n + i) mod length g))) [k * length g..<k * length g + length g])"
    then have i: "i < length g" by simp
    have "(n + (k * length g + i)) mod length g = (n + i) mod length g"
      by (metis add.left_commute mod_mult_self3)
    then show "map (\<lambda>i. Some (g ! ((n + i) mod length g))) [k * length g..<k * length g + length g] ! i = map Some (rotate n g) ! i"
      using i by (simp add: nth_rotate)
  qed simp
  moreover have "[0..<Suc k * length g] = [0..<k * length g] @ [k * length g..<k * length g + length g]"
    using upt_add_eq_append [of 0 "k * length g" "length g"] by (simp add: add.commute)
  moreover have "concat (replicate (Suc k) (map Some (rotate n g))) = concat (replicate k (map Some (rotate n g))) @ map Some (rotate n g)"
    by (simp flip: replicate_append_same)
  ultimately show ?case using Suc by (simp only: map_append)
qed simp

lemma count_list_distinct: "distinct xs \<Longrightarrow> x \<in> set xs \<Longrightarrow> count_list xs x = 1"
  by (induction xs) (auto simp: count_list_0_iff)

lemma count_list_once: "distinct g \<Longrightarrow> c \<in> set g \<Longrightarrow> count_list (map Some (rotate n g)) (Some c) = 1"
  by (rule count_list_distinct) (simp_all add: distinct_map)

text \<open>
  (C33) The server's contexts share the work evenly: any number \<open>k\<close> of rounds of consecutive selections hands out each context
  exactly \<open>k\<close> times, always in the same cyclic order, as long as the counter does not wrap around.
\<close>

theorem round_robin_is_fair:
  assumes "server_ok s" "sv_global_execs s = g" "g \<noteq> []" "unat (sv_round_robin s) + k * length g \<le> 2 ^ 64"
  shows "selections (k * length g) s = concat (replicate k (map Some (rotate (unat (sv_round_robin s)) g))) \<and>
    (\<forall>c \<in> set g. count_list (selections (k * length g) s) (Some c) = k)"
proof -
  let ?r = "map Some (rotate (unat (sv_round_robin s)) g)"
  have d: "distinct g" using assms(1-3) by (auto simp: server_ok_defs split: if_splits)
  have "map (\<lambda>i. Some (g ! ((n + i) mod length g))) [0..<k * length g] = concat (replicate k (map Some (rotate n g)))" for n
    by (rule rounds_of_rotation) (use assms(3) in simp)
  then have s: "selections (k * length g) s = concat (replicate k ?r)"
    using selections_at [OF assms(2-4)] by simp
  have "count_list (concat (replicate k ?r)) (Some c) = k" if "c \<in> set g" for c
    using that d by (induction k) (simp_all add: count_list_once)
  then show ?thesis using s by simp
qed

theorem round_robin_is_fair_witness:
  "\<exists>s :: (unit, unit, nat, nat) HttpServer. server_ok s \<and> sv_global_execs s = [0, 1] \<and>
     selections (2 * length [0 :: nat, 1]) s = [Some 0, Some 1, Some 0, Some 1]"
proof -
  let ?s = "snd (Start (\<lambda>_ _. willing) one_listener)"
  have o: "server_ok one_listener" by (simp add: one_listener_def new_HttpServer_def server_ok_defs)
  have e: "endpoints_ok (\<lambda>_ _. willing) 0 (shared (\<lambda>_ _. willing) (sv_endpoint_configs one_listener)) (sv_endpoint_configs one_listener)"
    by (simp add: one_listener_def willing_def endpoint_ok_def setup_ok_def)
  have g: "sv_global_execs ?s = [0, 1]" "sv_round_robin ?s = 0" by code_simp+
  have ok: "server_ok ?s" by (rule Start_keeps_ok [OF o])
  have "unat (sv_round_robin ?s) + 2 * length [0 :: nat, 1] \<le> 2 ^ 64" using g(2) by simp
  from round_robin_is_fair [OF ok g(1) _ this] show ?thesis using ok g
    by (intro exI [of _ ?s]) (simp add: numeral_2_eq_2)
qed

section \<open>Accepting\<close>

text \<open>
  (C32) Accepting never dries up and keeps to its endpoint. When an accept of a running server completes, well or
  with an error, the same acceptor has an accept outstanding again afterwards and no other listener is
  touched; a connection is started exactly when there was no error and, under a limit, a slot was free, it takes one slot, and it
  is a TLS connection exactly when its endpoint was configured with a TLS context, which is the one it uses.
\<close>

theorem accept_is_rearmed:
  assumes "server_ok s" "sv_is_running s" "e < length (sv_endpoint_runtimes s)" "i < length (er_acceptors (sv_endpoint_runtimes s ! e))"
    "HandleAcceptResult e i ec (accept_completed e i s) = (started, s')"
  shows "sv_endpoint_runtimes s' = sv_endpoint_runtimes s \<and> ac_accepting (er_acceptors (sv_endpoint_runtimes s' ! e) ! i) \<and>
    (started \<noteq> None) = (\<not> ec \<and> (ro_has_max_connection (sv_runtime_options s) \<longrightarrow> sv_available_connection_num s > 0)) \<and>
    sv_available_connection_num s' =
      sv_available_connection_num s - (if started \<noteq> None \<and> ro_has_max_connection (sv_runtime_options s) then 1 else 0) \<and>
    (\<forall>c. started = Some c \<longrightarrow> acc_ssl_ctx c = lc_ssl_ctx (sv_endpoint_configs s ! e) \<and> acc_endpoint_index c = e)"
proof -
  have up: "server_up s" using assms(1,2) by (simp add: server_ok_def)
  have ssl: "er_ssl_ctx (sv_endpoint_runtimes s ! e) = lc_ssl_ctx (sv_endpoint_configs s ! e)"
    using server_up_serves [OF up assms(3)] by (simp add: serves_def)
  note h = assms(5) [unfolded Handle_of_completed should_reject_def StartAcceptedConnection_def Let_def]
  have r: "RearmAcceptIfRunning e i (accept_completed e i (s\<lparr>sv_available_connection_num := m\<rparr>)) = s\<lparr>sv_available_connection_num := m\<rparr>" for m
    using assms(2-4) server_up_accepting [OF up assms(3,4)] by (intro accept_rearmed) simp_all
  have r0: "RearmAcceptIfRunning e i (accept_completed e i s) = s" using r [of "sv_available_connection_num s"] by simp
  show ?thesis using h server_up_accepting [OF up assms(3,4)] assms(3) ssl
    by (auto simp: r r0 StreamServerConnection_ctor_def split: if_splits)
qed

theorem accept_is_rearmed_witness:
  "\<exists>(s :: (unit, unit, nat, nat) HttpServer) c s'. server_ok s \<and> sv_is_running s \<and>
     HandleAcceptResult 0 1 False (accept_completed 0 1 s) = (Some c, s') \<and> ac_accepting (er_acceptors (sv_endpoint_runtimes s' ! 0) ! 1)"
proof -
  let ?s = "snd (Start (\<lambda>_ _. willing) one_listener)"
  have "server_ok one_listener" by (simp add: one_listener_def new_HttpServer_def server_ok_defs)
  then have ok: "server_ok ?s" by (rule Start_keeps_ok)
  have r: "sv_is_running ?s" "0 < length (sv_endpoint_runtimes ?s)" "1 < length (er_acceptors (sv_endpoint_runtimes ?s ! 0))"
    "\<not> ro_has_max_connection (sv_runtime_options ?s)" by code_simp+
  obtain st s' where h: "HandleAcceptResult 0 1 False (accept_completed 0 1 ?s) = (st, s')" by (metis prod.collapse)
  from accept_is_rearmed [OF ok r(1-3) h] show ?thesis using ok r h by (intro exI [of _ ?s]) auto
qed

section \<open>The connection limit\<close>

definition admitted :: "limit_state \<Rightarrow> nat" where
  "admitted l = count_list (lim_admitted l) True"

text \<open>Every slot is free or taken by a live connection; connections and admitted sockets together stay below the bound.\<close>

definition limit_ok :: "nat \<Rightarrow> nat \<Rightarrow> limit_state \<Rightarrow> bool" where
  "limit_ok max_connection acceptors l \<longleftrightarrow>
     lim_available l + int (lim_live l) = int max_connection \<and> length (lim_admitted l) = acceptors \<and>
     (lim_live l + admitted l < max_connection + acceptors \<or> acceptors = 0)"

lemma count_list_update:
  "i < length xs \<Longrightarrow> count_list (xs[i := y]) x + (if xs ! i = x then 1 else 0) = count_list xs x + (if y = x then 1 else 0)"
proof (induction xs arbitrary: i)
  case (Cons a xs)
  show ?case
  proof (cases i)
    case (Suc k)
    then show ?thesis using Cons.IH [of k] Cons.prems by (simp split: if_splits)
  qed simp
qed simp

lemma count_list_le_length: "count_list xs x \<le> length xs"
  by (induction xs) auto

lemma limit_step_keeps:
  assumes "limit_step ev l = Some l'" "limit_ok m n l"
  shows "limit_ok m n l'"
proof (cases ev)
  case (Accepted i)
  have "admitted l' \<le> n" using assms Accepted count_list_le_length [of "lim_admitted l'" True]
    by (auto simp: admitted_def limit_ok_def split: if_splits)
  then show ?thesis using assms Accepted count_list_update [of i "lim_admitted l" "\<not> should_reject False True (lim_available l)" True]
    by (auto simp: limit_ok_def admitted_def should_reject_def split: if_splits)
next
  case (Created i)
  then show ?thesis using assms count_list_update [of i "lim_admitted l" False True]
    by (auto simp: limit_ok_def admitted_def StreamServerConnection_ctor_def split: if_splits)
next
  case Destroyed
  then show ?thesis using assms by (auto simp: limit_ok_def admitted_def StreamServerConnection_dtor_def split: if_splits)
qed

lemma limit_run_keeps: "limit_run evs l = Some l' \<Longrightarrow> limit_ok m n l \<Longrightarrow> limit_ok m n l'"
  by (induction evs arbitrary: l) (auto split: option.splits intro: limit_step_keeps)

lemma limit_start_ok: "limit_ok m n (limit_start m n)"
  by (cases n) (simp_all add: limit_ok_def limit_start_def admitted_def count_list_0_iff)

lemma limit_run_append:
  "limit_run (xs @ ys) l = (case limit_run xs l of None \<Rightarrow> None | Some l' \<Rightarrow> limit_run ys l')"
  by (induction xs arbitrary: l) (simp_all split: option.splits)

text \<open>A run that fills all slots but one, lets every acceptor look at the counter, and then makes the connections.\<close>

lemma fill_slots:
  "lim_admitted l = replicate n False \<Longrightarrow> n \<ge> 1 \<Longrightarrow> int k \<le> lim_available l \<Longrightarrow>
   limit_run (concat (replicate k [Accepted 0, Created 0])) l = Some (l\<lparr>lim_live := lim_live l + k, lim_available := lim_available l - int k\<rparr>)"
proof (induction k arbitrary: l)
  case (Suc k)
  have u: "(replicate n False)[0 := False] = replicate n False" using list_update_id [of "replicate n False" 0] Suc.prems(2) by simp
  let ?l = "l\<lparr>lim_admitted := replicate n False, lim_live := Suc (lim_live l), lim_available := lim_available l - 1\<rparr>"
  have "limit_run [Accepted 0, Created 0] l = Some ?l"
    using Suc.prems u by (simp add: should_reject_def StreamServerConnection_ctor_def)
  then have "limit_run (concat (replicate (Suc k) [Accepted 0, Created 0])) l = limit_run (concat (replicate k [Accepted 0, Created 0])) ?l"
    by (simp only: replicate_Suc concat.simps limit_run_append option.case)
  also have "\<dots> = Some (?l\<lparr>lim_live := lim_live ?l + k, lim_available := lim_available ?l - int k\<rparr>)"
    by (rule Suc.IH) (use Suc.prems in simp_all)
  finally show ?case using Suc.prems(1) by simp
qed simp

lemma replicate_next:
  assumes "Suc k \<le> n"
  shows "(replicate k x @ replicate (n - k) y)[k := x] = replicate (Suc k) x @ replicate (n - Suc k) y"
proof -
  have "n - k = Suc (n - Suc k)" using assms by simp
  then show ?thesis by (simp add: list_update_append replicate_app_Cons_same)
qed

lemma accept_everywhere:
  "lim_admitted l = replicate n False \<Longrightarrow> lim_available l > 0 \<Longrightarrow> k \<le> n \<Longrightarrow>
   limit_run (map Accepted [0..<k]) l = Some (l\<lparr>lim_admitted := replicate k True @ replicate (n - k) False\<rparr>)"
proof (induction k)
  case (Suc k)
  then show ?case by (simp add: limit_run_append nth_append should_reject_def replicate_next del: replicate_Suc)
qed simp

lemma create_everywhere:
  "lim_admitted l = replicate n True \<Longrightarrow> k \<le> n \<Longrightarrow>
   \<exists>l'. limit_run (map Created [0..<k]) l = Some l' \<and> lim_admitted l' = replicate k False @ replicate (n - k) True \<and> lim_live l' = lim_live l + k"
proof (induction k)
  case (Suc k)
  then obtain l' where "limit_run (map Created [0..<k]) l = Some l'" "lim_admitted l' = replicate k False @ replicate (n - k) True"
    "lim_live l' = lim_live l + k" by auto
  then show ?case using Suc.prems by (simp add: limit_run_append nth_append replicate_next del: replicate_Suc)
qed simp



section \<open>Stopping\<close>

definition lock_start :: "nat \<Rightarrow> lock_state" where
  "lock_start workers = \<lparr>ls_stop = StopWaits, ls_workers = replicate workers Working\<rparr>"

lemma stuck_stays:
  assumes "\<forall>ws. joined ws \<longrightarrow> set ws \<subseteq> {Finished}" "(lock_step joined)\<^sup>*\<^sup>* l l'"
    "ls_stop l = StopJoins" "i < length (ls_workers l)" "ls_workers l ! i = PostWaits"
  shows "ls_stop l' = StopJoins \<and> i < length (ls_workers l') \<and> ls_workers l' ! i = PostWaits"
  using assms(2)
proof (induction rule: rtranclp_induct)
  case (step y z)
  have "\<not> joined (ls_workers y)" using step.IH assms(1) [rule_format, of "ls_workers y"] nth_mem [of i "ls_workers y"] by auto
  then show ?case using step.hyps(2) step.IH by (auto elim!: lock_stepE simp: nth_list_update)
qed (use assms in simp)

text \<open>
  (C30) Stopping can wait forever. \<open>Stop\<close> joins the worker pool with the server's lock held, and a handler that calls \<open>Post\<close>
  waits for that lock before it looks whether the server runs. From a running server with a busy worker a state is
  reached where \<open>Stop\<close> joins and the worker waits in \<open>Post\<close>, and in every state after it both still do.
  What is used of the pool is that joining it returns only after its workers have finished.
\<close>

theorem stop_can_wait_forever:
  assumes "\<forall>ws. joined ws \<longrightarrow> set ws \<subseteq> {Finished}" "workers \<ge> 1"
  shows "\<exists>l. (lock_step joined)\<^sup>*\<^sup>* (lock_start workers) l \<and> ls_stop l = StopJoins \<and>
    (\<forall>l'. (lock_step joined)\<^sup>*\<^sup>* l l' \<longrightarrow> ls_stop l' \<noteq> StopReturned \<and> PostWaits \<in> set (ls_workers l'))"
proof -
  let ?a = "(lock_start workers)\<lparr>ls_stop := StopJoins\<rparr>"
  let ?b = "?a\<lparr>ls_workers := (ls_workers ?a)[0 := PostWaits]\<rparr>"
  have 1: "lock_step joined (lock_start workers) ?a" by (rule stop_locks) (auto simp: lock_start_def)
  have 2: "lock_step joined ?a ?b" using assms(2) by (intro post_called) (simp_all add: lock_start_def)
  have r: "(lock_step joined)\<^sup>*\<^sup>* (lock_start workers) ?b" by (rule rtranclp.rtrancl_into_rtrancl [OF r_into_rtranclp [of "lock_step joined", OF 1] 2])
  have b: "ls_stop ?b = StopJoins" "0 < length (ls_workers ?b)" "ls_workers ?b ! 0 = PostWaits"
    using assms(2) by (simp_all add: lock_start_def)
  note st = stuck_stays [OF assms(1) _ b]
  have "ls_stop l' \<noteq> StopReturned \<and> PostWaits \<in> set (ls_workers l')" if "(lock_step joined)\<^sup>*\<^sup>* ?b l'" for l'
    using st [OF that] nth_mem [of 0 "ls_workers l'"] by auto
  then show ?thesis using r b(1) by blast
qed

theorem stop_can_wait_forever_witness:
  "\<exists>l. (lock_step (\<lambda>ws. list_all (\<lambda>w. w = Finished) ws))\<^sup>*\<^sup>* (lock_start 1) l \<and> ls_stop l = StopJoins \<and>
    (\<forall>l'. (lock_step (\<lambda>ws. list_all (\<lambda>w. w = Finished) ws))\<^sup>*\<^sup>* l l' \<longrightarrow> ls_stop l' \<noteq> StopReturned)"
  using stop_can_wait_forever [of "\<lambda>ws. list_all (\<lambda>w. w = Finished) ws" 1] by (auto simp: list_all_iff)

end
