(* ===== verification/Spec2Isabelle.thy ===== *)
theory Spec2Isabelle
  imports Route_Match Route_Mount Session_Map Async_Waiter Sse_Parser Cookie_Jar Message_Queue Server_Connection
    Task_Lifecycle Cookie_Exchange Upload Client_Task Server_Lifecycle
begin

text \<open>
  A verification of bsrvcore, an asynchronous HTTP framework in C++ (server, client, routing, sessions,
  streaming, uploads). Paths below are relative to \<^verbatim>\<open>src/\<close>; \<^verbatim>\<open>server/\<close> and \<^verbatim>\<open>client/\<close> stand for
  \<^verbatim>\<open>src/connection/server/\<close> and \<^verbatim>\<open>src/connection/client/\<close>.

  \<^bold>\<open>How code becomes definitions.\<close> A class is a record and a method a function on it with the name of the
  method; every early return, throw and error code is a branch or a value of a sum or option type. Code that
  runs under a mutex is one function. Asynchronous code is a state with its outstanding operations and one
  function per completion handler; a step relation or a run over events lets operations complete in any
  order, with any error, while other threads call in. Container sizes are natural numbers; \<^verbatim>\<open>std::size_t\<close>
  values that are added, cast or compared with a limit are 64-bit words that wrap; clock readings are
  integers and every reading is an argument. Strings are lists of 8-bit characters. A call of a library that
  is not part of the repository (URL parser, HTTP serializer, date parser, sort, file system, network) is an
  argument of the functions that use it, with the documented behaviour a lemma needs as its hypothesis.

  \<^bold>\<open>Prelude\<close> and \<^bold>\<open>Std_String\<close>: hash maps as association lists, \<^verbatim>\<open>std::string\<close> and
  \<^verbatim>\<open>std::from_chars\<close> operations, and the lemmas the components share.

  \<^bold>\<open>Routing.\<close> Route_Target (\<^verbatim>\<open>route/impl/http_route_target_validator.cc\<close>): the validator decides the
  documented language. Route_Tree and Route_Table (\<^verbatim>\<open>route/http_route_table_registry.cc\<close>,
  \<^verbatim>\<open>http_route_table_layer.cc\<close>, \<^verbatim>\<open>http_route_table_match.cc\<close>): nodes, registration, settings and
  matching. Route_Match: matching refines a description over the map from paths to node data; a registered
  route is reached, and a registration changes no other answer. Route_Mount
  (\<^verbatim>\<open>route/http_route_table_mount.cc\<close>): mounting keeps every route, tables stay well formed, teardown
  frees each node once; and a refused mount can take requests away from a route.

  \<^bold>\<open>Sessions.\<close> Session_Heap (\<^verbatim>\<open>session/.../detail/heap.h\<close>): the heap over any strict weak order, as a
  locale, interpreted on session keys. Session_Map (\<^verbatim>\<open>session/session_map.cc\<close>,
  \<^verbatim>\<open>session_map_cleaner.cc\<close>): consistency, survival of live sessions, and what the cleaner removes. The
  eight rounds of \<^verbatim>\<open>ShortClean\<close> are those of the code.

  \<^bold>\<open>Server.\<close> Server_Connection (\<^verbatim>\<open>server/http_server_connection.cc\<close>, \<^verbatim>\<open>stream_server_connection_impl.h\<close>):
  the cycle of a connection with its timer. Message_Queue (\<^verbatim>\<open>stream_server_connection_message_queue.h\<close>):
  the order of streamed bytes and the waiting for them. Task_State (\<^verbatim>\<open>server/http_server_task_base.cc\<close>,
  \<^verbatim>\<open>http_server_task_detail.h\<close>) and Task_Lifecycle (\<^verbatim>\<open>server/http_server_task_lifecycle.cc\<close>,
  \<^verbatim>\<open>websocket_server_task.cc\<close>): the three phases of a request; the locale \<open>lifecycle_invariant\<close> states what
  a property of the connection has to satisfy to survive a request, and is interpreted on the properties
  used here; a request acts on its connection as one step of Server_Connection. Server_Cookie
  (\<^verbatim>\<open>server/server_set_cookie.cc\<close>): the \<^verbatim>\<open>Set-Cookie\<close> builder.
  Server_Runtime (\<^verbatim>\<open>core/http_server_accept.cc\<close>, \<^verbatim>\<open>http_server_runtime.cc\<close>, \<^verbatim>\<open>http_server_construct.cc\<close>,
  \<^verbatim>\<open>http_server_route_config.cc\<close>, \<^verbatim>\<open>http_server_runtime_config.cc\<close>, \<^verbatim>\<open>blue_print.cc\<close>): the server around the
  route table and the session map, with its listeners, contexts, threads and published executors, and two
  small step models where calls of several threads interleave, the connection limit and the lock of
  \<^verbatim>\<open>Stop\<close>. Server_Lifecycle: starting takes all endpoints or none, every run keeps the server and its parts
  consistent and its configuration frozen while it runs, accepts are rearmed, the round robin is fair; the
  limit is exceeded by at most the number of acceptors less one, and can be; and \<^verbatim>\<open>Stop\<close> can wait for ever
  for a handler that posts. The worker pool is not part of the repository: that joining it waits for its
  workers is a hypothesis.
  \<^bold>\<open>Client.\<close> Cookie_Jar and Request_Assembler (\<^verbatim>\<open>client/request_assembler.cc\<close>): the cookies of a session
  and the assemblers. Stream_Builder (\<^verbatim>\<open>client/stream_builder.cc\<close>, \<^verbatim>\<open>stream_slot.h\<close>): direct, pooled,
  WebSocket and proxy builders as stacks of decorators. Http_Url (\<^verbatim>\<open>client/impl/http_url_parser.cc\<close>).
  Client_Task (\<^verbatim>\<open>client/http_client_task_flow.cc\<close>, \<^verbatim>\<open>http_client_task.cc\<close>,
  \<^verbatim>\<open>http_client_session.cc\<close>): the exchange as a machine over events; it composes the assemblers and the
  builders. Sse_Parser (\<^verbatim>\<open>client/sse_event_parser.cc\<close>): events do not depend on how the stream is cut.
  Cookie_Exchange: what the server sets is what the client returns and the server reads.
  \<^bold>\<open>Files and uploads.\<close> File_Io (\<^verbatim>\<open>file/file_reader.cc\<close>, \<^verbatim>\<open>file_writer.cc\<close>), Multipart
  (\<^verbatim>\<open>server/multipart_parser.cc\<close>, \<^verbatim>\<open>request_body_processor_detail.h\<close>, the body of
  \<^verbatim>\<open>client/multipart_generator.cc\<close>), Async_Waiter (\<^verbatim>\<open>core/async_waiter.h\<close>) and Upload
  (\<^verbatim>\<open>client/multipart_generator.cc\<close>, \<^verbatim>\<open>put_generator.cc\<close>, \<^verbatim>\<open>server/put_processor.cc\<close>): a form filled in by
  the client arrives at the server, whatever the order in which the file reads finish.

  \<^bold>\<open>Bounds and fuel.\<close> No function has fuel: loops are recursive functions with a termination proof, or
  structural recursion on the list they consume. A run is as long as its list of events.

  \<^bold>\<open>Not modelled.\<close> The WebSocket tasks of server and client and the client task for event streams,
  beyond the upgrade in Task_Lifecycle and the parser in Sse_Parser: they drive WebSocket and stream objects
  of the networking library. Threads as such: what runs under a mutex is one step, and only the lock of the
  server is modelled step by step. \<^verbatim>\<open>Dispatch\<close>, whose effect depends on the calling thread. The worker pool,
  allocators, loggers, contexts, the default TLS context, JSON helpers and the executor forwarders, which only
  call libraries or other modelled parts. The program \<^verbatim>\<open>bsrvrun\<close> (configuration files and plugins, over
  a YAML library and the dynamic loader) and the C interface, which wraps the same classes.
\<close>

end
